(* ===== verification/Ox_Prelude.thy ===== *)
theory Ox_Prelude
  imports Main "HOL-Library.Word"
begin

text \<open>
  Shared vocabulary of the development: Rust's machine integers, the result of a Rust call
  (a value, a panic, or a wait that only another thread can end), \<^verbatim>\<open>Result\<close>, byte order
  conversions of \<^verbatim>\<open>u64\<close>, and the lemmas on words, bytes and lists that the component
  theories use. Arithmetic on fixed-width integers wraps around, as in the release profile in
  which the repository's README builds every crate; \<^verbatim>\<open>usize\<close> is 64 bits wide.
\<close>

unbundle bit_operations_syntax

named_theorems ox_simps \<open>simplification rules of the wire-format functions\<close>
named_theorems step_inv \<open>preservation of the component invariants\<close>

type_synonym u8 = "8 word"
type_synonym u16 = "16 word"
type_synonym u32 = "32 word"
type_synonym u64 = "64 word"
type_synonym usize = "64 word"
type_synonym bytes = "u8 list"

section \<open>Results of Rust calls\<close>

text \<open>The reasons for which the modelled code panics, ends the process or, in the foreign function interface, faults.\<close>

datatype panic =
    UnknownChannel u64
  | UnexpectedChannel
  | UnhandledOpcode u8
  | SliceOutOfRange
  | NotEnoughData
  | WrongResultType
  | UnwrapOnNone
  | UnwrapOnErr
  | ResendBufferEmpty
  | NoFlits
  | NullDereference
  | NotUtf8
  | DivideByZero
  | ExplicitPanic
  | ProcessExit

text \<open>
  \<open>Returns v\<close>: the call returns. \<open>Panics p\<close>: the thread panics. \<open>Waits\<close>: the
  call spins on a condition (a free source id, enough credits, a filled channel, an idle
  connection) that only another thread can establish.
\<close>

datatype 'a outcome = Returns 'a | Panics panic | Waits

fun and_then :: "'a outcome \<Rightarrow> ('a \<Rightarrow> 'b outcome) \<Rightarrow> 'b outcome" where
  "and_then (Returns v) f = f v"
| "and_then (Panics p) f = Panics p"
| "and_then Waits f = Waits"

datatype ('a, 'e) result = Ok 'a | Err 'e

fun map_err :: "('e \<Rightarrow> 'f) \<Rightarrow> ('a, 'e) result \<Rightarrow> ('a, 'f) result" where
  "map_err f (Ok v) = Ok v"
| "map_err f (Err e) = Err (f e)"

lemma and_then_Returns_iff:
  "and_then m f = Returns y \<longleftrightarrow> (\<exists>x. m = Returns x \<and> f x = Returns y)"
  by (cases m) auto

lemma and_then_ReturnsE:
  assumes "and_then m f = Returns y"
  obtains x where "m = Returns x" "f x = Returns y"
  using assms by (cases m) auto

lemma and_then_assoc: "and_then (and_then m f) g = and_then m (\<lambda>x. and_then (f x) g)"
  by (cases m) auto

section \<open>Slices\<close>

text \<open>\<^verbatim>\<open>&v[lo..hi]\<close>: a panic unless \<open>lo \<le> hi \<le> v.len()\<close>.\<close>

definition slice_range :: "'a list \<Rightarrow> nat \<Rightarrow> nat \<Rightarrow> 'a list outcome" where
  "slice_range v lo hi =
     (if lo \<le> hi \<and> hi \<le> length v then Returns (take (hi - lo) (drop lo v))
      else Panics SliceOutOfRange)"

text \<open>\<^verbatim>\<open>buf[lo..hi].copy_from_slice(data)\<close>: a panic when the range is out of bounds or the
  lengths differ.\<close>

definition copy_into :: "'a list \<Rightarrow> nat \<Rightarrow> nat \<Rightarrow> 'a list \<Rightarrow> 'a list outcome" where
  "copy_into buf lo hi d =
     (if lo \<le> hi \<and> hi \<le> length buf \<and> length d = hi - lo
      then Returns (take lo buf @ d @ drop hi buf) else Panics SliceOutOfRange)"

lemma slice_range_Returns_length:
  "slice_range v lo hi = Returns w \<Longrightarrow> length w = hi - lo"
  by (auto simp: slice_range_def split: if_splits)

lemma slice_range_append [simp]:
  "lo = length xs \<Longrightarrow> hi = length xs + length ys \<Longrightarrow>
     slice_range (xs @ ys @ zs) lo hi = Returns ys"
  by (simp add: slice_range_def)

lemma copy_into_Returns_length:
  "copy_into buf lo hi d = Returns buf' \<Longrightarrow> length buf' = length buf"
  by (auto simp: copy_into_def split: if_splits)

section \<open>Words\<close>

lemma unat_exp: "m < LENGTH('a) \<Longrightarrow> unat (2 ^ m :: 'a :: len word) = 2 ^ m"
  using unat_of_nat [of "2 ^ m", where 'a = 'a] by simp

lemma take_bit_less_exp: "x < 2 ^ n \<Longrightarrow> take_bit n x = (x :: 'a :: len word)"
  by (simp add: take_bit_eq_mask less_mask_eq)

lemma ucast_widen_narrow [simp]:
  "ucast (ucast (x :: u8) :: u64) = x" "ucast (ucast (y :: u32) :: u64) = y"
  by (rule bit_eqI, auto simp: bit_ucast_iff)+

section \<open>Byte order\<close>

text \<open>\<open>le_bytes n v\<close>: the \<open>n\<close> low bytes of \<open>v\<close>, least significant first.\<close>

fun le_bytes :: "nat \<Rightarrow> u64 \<Rightarrow> bytes" where
  "le_bytes 0 v = []"
| "le_bytes (Suc n) v = ucast v # le_bytes n (drop_bit 8 v)"

fun from_le :: "bytes \<Rightarrow> u64" where
  "from_le [] = 0"
| "from_le (b # bs) = ucast b OR push_bit 8 (from_le bs)"

definition u64_to_le_bytes :: "u64 \<Rightarrow> bytes" where
  "u64_to_le_bytes v = le_bytes 8 v"

definition u64_to_be_bytes :: "u64 \<Rightarrow> bytes" where
  "u64_to_be_bytes v = rev (le_bytes 8 v)"

definition u64_from_le_bytes :: "bytes \<Rightarrow> u64" where
  "u64_from_le_bytes bs = from_le bs"

definition u64_from_be_bytes :: "bytes \<Rightarrow> u64" where
  "u64_from_be_bytes bs = from_le (rev bs)"

text \<open>Native byte order is little endian on the hosts the tools run on (x86-64, AArch64).\<close>

abbreviation u64_to_ne_bytes :: "u64 \<Rightarrow> bytes" where
  "u64_to_ne_bytes \<equiv> u64_to_le_bytes"

abbreviation u64_from_ne_bytes :: "bytes \<Rightarrow> u64" where
  "u64_from_ne_bytes \<equiv> u64_from_le_bytes"

text \<open>\<^verbatim>\<open>u64::from_be_bytes(s.try_into().expect(..))\<close> and its little-endian twin: the
  conversion of the slice to an array panics unless it has eight bytes.\<close>

definition try_u64_be :: "bytes \<Rightarrow> u64 outcome" where
  "try_u64_be s = (if length s = 8 then Returns (u64_from_be_bytes s) else Panics NotEnoughData)"

definition try_u64_ne :: "bytes \<Rightarrow> u64 outcome" where
  "try_u64_ne s = (if length s = 8 then Returns (u64_from_ne_bytes s) else Panics NotEnoughData)"

lemma length_le_bytes [simp]: "length (le_bytes n v) = n"
  by (induction n arbitrary: v) auto

lemma length_u64_to_bytes [simp]:
  "length (u64_to_le_bytes v) = 8" "length (u64_to_be_bytes v) = 8"
  by (simp_all add: u64_to_le_bytes_def u64_to_be_bytes_def)

lemma take_bit_byte_split:
  "ucast (ucast v :: u8) OR push_bit 8 (take_bit n (drop_bit 8 v)) = take_bit (8 + n) (v :: u64)"
  by (rule bit_eqI) (auto simp: bit_simps)

lemma from_le_le_bytes: "from_le (le_bytes n v) = take_bit (8 * n) v"
proof (induction n arbitrary: v)
  case 0
  show ?case by simp
next
  case (Suc n)
  then show ?case by (simp add: take_bit_byte_split)
qed

lemma le_bytes_cong:
  "take_bit (8 * n) v = take_bit (8 * n) w \<Longrightarrow> le_bytes n v = le_bytes n w"
proof (induction n arbitrary: v w)
  case 0
  then show ?case by simp
next
  case (Suc n)
  have bits: "bit v i = bit w i" if "i < 8 * Suc n" for i
    using arg_cong [OF Suc.prems, of "\<lambda>x. bit x i"] that by (simp add: bit_take_bit_iff)
  have "take_bit (8 * n) (drop_bit 8 v) = take_bit (8 * n) (drop_bit 8 w)"
    by (rule bit_eqI) (auto simp: bit_take_bit_iff bit_drop_bit_eq bits)
  then have "le_bytes n (drop_bit 8 v) = le_bytes n (drop_bit 8 w)"
    by (rule Suc.IH)
  moreover have "(ucast v :: u8) = ucast w"
    by (rule bit_eqI) (auto simp: bit_ucast_iff bits)
  ultimately show ?case by simp
qed

lemma le_bytes_from_le: "length bs \<le> 8 \<Longrightarrow> le_bytes (length bs) (from_le bs) = bs"
proof (induction bs)
  case Nil
  show ?case by simp
next
  case (Cons b bs)
  then have len: "length bs \<le> 7" by simp
  have "take_bit (8 * length bs) (drop_bit 8 (ucast b OR push_bit 8 (from_le bs)))
      = take_bit (8 * length bs) (from_le bs)"
    using len by (intro bit_eqI) (auto simp: bit_simps dest: bit_imp_le_length)
  then have "le_bytes (length bs) (drop_bit 8 (ucast b OR push_bit 8 (from_le bs)))
      = le_bytes (length bs) (from_le bs)"
    by (rule le_bytes_cong)
  also have "\<dots> = bs"
    using len by (intro Cons.IH) simp
  finally have "le_bytes (length bs) (drop_bit 8 (ucast b OR push_bit 8 (from_le bs))) = bs" .
  moreover have "(ucast (ucast b OR push_bit 8 (from_le bs) :: u64) :: u8) = b"
    by (rule bit_eqI) (auto simp: bit_simps)
  ultimately show ?case by simp
qed

lemma from_to_le_bytes [simp]: "u64_from_le_bytes (u64_to_le_bytes v) = v"
  by (simp add: u64_from_le_bytes_def u64_to_le_bytes_def from_le_le_bytes take_bit_word_eq_self)

lemma from_to_be_bytes [simp]: "u64_from_be_bytes (u64_to_be_bytes v) = v"
  by (simp add: u64_from_be_bytes_def u64_to_be_bytes_def from_le_le_bytes take_bit_word_eq_self)

lemma to_from_le_bytes: "length bs = 8 \<Longrightarrow> u64_to_le_bytes (u64_from_le_bytes bs) = bs"
  using le_bytes_from_le [of bs] by (simp add: u64_from_le_bytes_def u64_to_le_bytes_def)

lemma to_from_be_bytes: "length bs = 8 \<Longrightarrow> u64_to_be_bytes (u64_from_be_bytes bs) = bs"
  using le_bytes_from_le [of "rev bs"] by (simp add: u64_from_be_bytes_def u64_to_be_bytes_def)

lemma try_u64_be_to_be [simp]: "try_u64_be (u64_to_be_bytes v) = Returns v"
  by (simp add: try_u64_be_def)

lemma try_u64_ne_to_ne [simp]: "try_u64_ne (u64_to_ne_bytes v) = Returns v"
  by (simp add: try_u64_ne_def)

lemma from_le_replicate_0 [simp]: "from_le (replicate n 0) = 0"
  by (induction n) auto

lemma u64_from_be_bytes_0 [simp]: "u64_from_be_bytes (replicate n 0) = 0"
  by (simp add: u64_from_be_bytes_def)

section \<open>Text\<close>

text \<open>Whether bytes are well-formed UTF-8, which \<^verbatim>\<open>str::from_utf8\<close> checks.\<close>

definition is_cont :: "u8 \<Rightarrow> bool" where
  "is_cont b \<longleftrightarrow> 0x80 \<le> b \<and> b \<le> 0xBF"

fun utf8_ok :: "bytes \<Rightarrow> bool" where
  "utf8_ok [] = True"
| "utf8_ok (a # bs) =
     (if a < 0x80 then utf8_ok bs
      else if 0xC2 \<le> a \<and> a \<le> 0xDF then
        (case bs of b # bs \<Rightarrow> is_cont b \<and> utf8_ok bs | _ \<Rightarrow> False)
      else if 0xE0 \<le> a \<and> a \<le> 0xEF then
        (case bs of
           b # c # bs \<Rightarrow> is_cont b \<and> is_cont c \<and> (a = 0xE0 \<longrightarrow> 0xA0 \<le> b) \<and> (a = 0xED \<longrightarrow> b \<le> 0x9F) \<and> utf8_ok bs
         | _ \<Rightarrow> False)
      else if 0xF0 \<le> a \<and> a \<le> 0xF4 then
        (case bs of
           b # c # d # bs \<Rightarrow> is_cont b \<and> is_cont c \<and> is_cont d \<and> (a = 0xF0 \<longrightarrow> 0x90 \<le> b) \<and>
             (a = 0xF4 \<longrightarrow> b \<le> 0x8F) \<and> utf8_ok bs
         | _ \<Rightarrow> False)
      else False)"

definition ascii_bytes :: "string \<Rightarrow> bytes" where
  "ascii_bytes s = map of_char s"

text \<open>Decimal notation, which \<^verbatim>\<open>{}\<close> and \<^verbatim>\<open>to_string\<close> use for integers.\<close>

fun decimal :: "nat \<Rightarrow> string" where
  "decimal n = (if n < 10 then [char_of (48 + n)] else decimal (n div 10) @ [char_of (48 + n mod 10)])"

declare decimal.simps [simp del]

lemma length_decimal: "0 < length (decimal n) \<and> (10 \<le> n \<longrightarrow> 1 < length (decimal n))"
proof (induction n rule: decimal.induct)
  case (1 n)
  then show ?case by (cases "n < 10") (simp_all add: decimal.simps [of n])
qed

end
