(* ===== verification/Tilelink_Messages.thy ===== *)
theory Tilelink_Messages
  imports Ox_Prelude
begin

text \<open>
  \<^verbatim>\<open>omnixtend-rs/src/tilelink_messages.rs\<close>: the TileLink channels, permission transitions
  and the two message headers with their 64-bit encodings. The lemmas show that the
  encodings round-trip on every header whose fields fit their bit ranges, which headers are
  rejected, and what the permission functions compute on the order None < Branch < Trunk.
\<close>

section \<open>Enumerations\<close>

record UnparsedTilelinkMessage =
  unparsed_data :: u64
  unparsed_start :: bool

datatype OmnixtendChannel = Chan_INVALID | Chan_A | Chan_B | Chan_C | Chan_D | Chan_E

text \<open>\<^verbatim>\<open>impl From<u8>\<close>: an unknown number becomes \<^verbatim>\<open>INVALID\<close>.\<close>

definition channel_from_u8 :: "u8 \<Rightarrow> OmnixtendChannel" where
  "channel_from_u8 m =
     (if m = 0 then Chan_INVALID else if m = 1 then Chan_A else if m = 2 then Chan_B
      else if m = 3 then Chan_C else if m = 4 then Chan_D else if m = 5 then Chan_E
      else Chan_INVALID)"

definition channel_default :: OmnixtendChannel where
  "channel_default = Chan_INVALID"

datatype Cap = ToT | ToB | ToN

fun cap_as_u8 :: "Cap \<Rightarrow> u8" where
  "cap_as_u8 ToT = 0"
| "cap_as_u8 ToB = 1"
| "cap_as_u8 ToN = 2"

definition cap_from_u8 :: "u8 \<Rightarrow> Cap" where
  "cap_from_u8 m = (if m = 0 then ToT else if m = 1 then ToB else if m = 2 then ToN else ToN)"

datatype Grow = NtoB | NtoT | BtoT

fun grow_as_u8 :: "Grow \<Rightarrow> u8" where
  "grow_as_u8 NtoB = 0"
| "grow_as_u8 NtoT = 1"
| "grow_as_u8 BtoT = 2"

definition grow_from_u8 :: "u8 \<Rightarrow> Grow" where
  "grow_from_u8 m = (if m = 0 then NtoB else if m = 1 then NtoT else if m = 2 then BtoT else NtoB)"

datatype Prune = TtoB | TtoN | BtoN

fun prune_as_u8 :: "Prune \<Rightarrow> u8" where
  "prune_as_u8 TtoB = 0"
| "prune_as_u8 TtoN = 1"
| "prune_as_u8 BtoN = 2"

datatype Report = TtoT | BtoB | NtoN

fun report_as_u8 :: "Report \<Rightarrow> u8" where
  "report_as_u8 TtoT = 3"
| "report_as_u8 BtoB = 4"
| "report_as_u8 NtoN = 5"

section \<open>Permission transitions\<close>

definition get_resulting_permission :: "Grow \<Rightarrow> Cap" where
  "get_resulting_permission g = (if g = NtoB then ToB else ToT)"

definition get_report_from_cap :: "Cap \<Rightarrow> Report" where
  "get_report_from_cap v = (if v = ToB then BtoB else if v = ToT then TtoT else NtoN)"

definition get_permission_change_grow :: "Cap \<Rightarrow> Cap \<Rightarrow> Grow" where
  "get_permission_change_grow cur request =
     (if cur = ToN \<and> request = ToB then NtoB
      else if cur = ToN \<and> request = ToT then NtoT
      else BtoT)"

definition get_permission_change :: "Cap \<Rightarrow> Cap \<Rightarrow> u8" where
  "get_permission_change cur request =
     (if cur = request then report_as_u8 (get_report_from_cap cur)
      else if cur = ToN then report_as_u8 NtoN
      else if cur = ToT \<and> request = ToB then prune_as_u8 TtoB
      else if cur = ToT \<and> request = ToN then prune_as_u8 TtoN
      else prune_as_u8 BtoN)"

section \<open>Message types and headers\<close>

datatype OmnixtendMessageType = NORMAL | AckOnly | OpenConnection | CloseConnection

fun message_type_as_u8 :: "OmnixtendMessageType \<Rightarrow> u8" where
  "message_type_as_u8 NORMAL = 0"
| "message_type_as_u8 AckOnly = 1"
| "message_type_as_u8 OpenConnection = 2"
| "message_type_as_u8 CloseConnection = 3"

text \<open>\<^verbatim>\<open>impl From<u64>\<close>: an unknown number is a panic.\<close>

definition channel_from_u64 :: "u64 \<Rightarrow> OmnixtendChannel outcome" where
  "channel_from_u64 m =
     (if m = 0 then Returns Chan_INVALID else if m = 1 then Returns Chan_A
      else if m = 2 then Returns Chan_B else if m = 3 then Returns Chan_C
      else if m = 4 then Returns Chan_D else if m = 5 then Returns Chan_E
      else Panics (UnknownChannel m))"

fun channel_as_u64 :: "OmnixtendChannel \<Rightarrow> u64" where
  "channel_as_u64 Chan_INVALID = 0"
| "channel_as_u64 Chan_A = 1"
| "channel_as_u64 Chan_B = 2"
| "channel_as_u64 Chan_C = 3"
| "channel_as_u64 Chan_D = 4"
| "channel_as_u64 Chan_E = 5"

record ChanABCDTilelinkMessage =
  abcd_chan :: OmnixtendChannel
  abcd_opcode :: u8
  abcd_param :: u8
  abcd_size :: u8
  abcd_domain :: u8
  abcd_err :: u8
  abcd_source :: u32

definition escape_bits :: "u64 \<Rightarrow> nat \<Rightarrow> u64" where
  "escape_bits v b = v AND (push_bit b 1 - 1)"

definition escape_bits_shift :: "u64 \<Rightarrow> nat \<Rightarrow> nat \<Rightarrow> u64" where
  "escape_bits_shift v b s = push_bit s (v AND (push_bit b 1 - 1))"

definition extract_bits_shift :: "u64 \<Rightarrow> nat \<Rightarrow> nat \<Rightarrow> u64" where
  "extract_bits_shift v b s = drop_bit s v AND (push_bit b 1 - 1)"

definition u64_from_abcd :: "ChanABCDTilelinkMessage \<Rightarrow> u64" where
  "u64_from_abcd m =
     (let v = 0;
          v = v OR escape_bits_shift (channel_as_u64 (abcd_chan m)) 3 60;
          v = v OR escape_bits_shift (ucast (abcd_opcode m)) 3 57;
          v = v OR escape_bits_shift (ucast (abcd_param m)) 4 52;
          v = v OR escape_bits_shift (ucast (abcd_size m)) 4 48;
          v = v OR escape_bits_shift (ucast (abcd_domain m)) 8 40;
          v = v OR escape_bits_shift (ucast (abcd_err m)) 2 38;
          v = v OR escape_bits (ucast (abcd_source m)) 26
      in v)"

definition abcd_from_u64 :: "u64 \<Rightarrow> ChanABCDTilelinkMessage outcome" where
  "abcd_from_u64 m =
     and_then (channel_from_u64 (extract_bits_shift m 3 60)) (\<lambda>c. Returns
       \<lparr>abcd_chan = c,
        abcd_opcode = ucast (extract_bits_shift m 3 57),
        abcd_param = ucast (extract_bits_shift m 4 52),
        abcd_size = ucast (extract_bits_shift m 4 48),
        abcd_domain = ucast (extract_bits_shift m 8 40),
        abcd_err = ucast (extract_bits_shift m 2 38),
        abcd_source = ucast (extract_bits_shift m 26 0)\<rparr>)"

record ChanETilelinkMessage =
  e_chan :: OmnixtendChannel
  e_sink :: u32

definition u64_from_e :: "ChanETilelinkMessage \<Rightarrow> u64" where
  "u64_from_e m =
     (let v = 0;
          v = v OR escape_bits_shift (channel_as_u64 (e_chan m)) 3 60;
          v = v OR escape_bits (ucast (e_sink m)) 26
      in v)"

definition e_from_u64 :: "u64 \<Rightarrow> ChanETilelinkMessage outcome" where
  "e_from_u64 m =
     and_then (channel_from_u64 (extract_bits_shift m 3 60)) (\<lambda>c. Returns
       \<lparr>e_chan = c, e_sink = ucast (extract_bits_shift m 26 0)\<rparr>)"

datatype TilelinkMessage =
    Unparsed UnparsedTilelinkMessage
  | Padding
  | ChanABCD ChanABCDTilelinkMessage
  | ChanE ChanETilelinkMessage
  | Address u64
  | Mask u64
  | Data u64

fun u64_from_tilelink :: "TilelinkMessage \<Rightarrow> u64" where
  "u64_from_tilelink (Unparsed _) = 0"
| "u64_from_tilelink Padding = 0"
| "u64_from_tilelink (ChanABCD x) = u64_from_abcd x"
| "u64_from_tilelink (ChanE x) = u64_from_e x"
| "u64_from_tilelink (Address x) = x"
| "u64_from_tilelink (Mask x) = x"
| "u64_from_tilelink (Data x) = x"

section \<open>Bit fields\<close>

lemma low_bits_eq_mask: "push_bit b 1 - 1 = (mask b :: u64)"
  by (simp add: mask_eq_exp_minus_1 push_bit_eq_mult)

lemma bit_low_bits: "bit (push_bit b 1 - 1 :: u64) i \<longleftrightarrow> i < b \<and> i < 64"
  unfolding low_bits_eq_mask by (auto simp: bit_simps)

lemma bit_escape_bits [ox_simps]: "bit (escape_bits v b) i \<longleftrightarrow> i < b \<and> bit v i"
  unfolding escape_bits_def bit_and_iff bit_low_bits by (auto dest: bit_imp_le_length)

lemma bit_escape_bits_shift [ox_simps]:
  "s + b \<le> 64 \<Longrightarrow>
     bit (escape_bits_shift v b s) i \<longleftrightarrow> s \<le> i \<and> i < s + b \<and> bit v (i - s)"
  unfolding escape_bits_shift_def bit_push_bit_iff bit_and_iff bit_low_bits
  by (auto dest: bit_imp_le_length)

lemma bit_extract_bits_shift [ox_simps]:
  "bit (extract_bits_shift v b s) i \<longleftrightarrow> i < b \<and> bit v (s + i)"
  unfolding extract_bits_shift_def bit_and_iff bit_low_bits bit_drop_bit_eq o_def
  by (auto dest: bit_imp_le_length)

lemma bit_ucast_widen [ox_simps]:
  "bit (ucast (x :: u8) :: u64) i \<longleftrightarrow> bit x i" "bit (ucast (y :: u32) :: u64) i \<longleftrightarrow> bit y i"
  by (auto simp: bit_ucast_iff dest: bit_imp_le_length)

text \<open>Every bit of an encoded header comes from exactly one field.\<close>

lemma bit_u64_from_abcd:
  "bit (u64_from_abcd m) i \<longleftrightarrow>
     (60 \<le> i \<and> i < 63 \<and> bit (channel_as_u64 (abcd_chan m)) (i - 60)) \<or>
     (57 \<le> i \<and> i < 60 \<and> bit (abcd_opcode m) (i - 57)) \<or>
     (52 \<le> i \<and> i < 56 \<and> bit (abcd_param m) (i - 52)) \<or>
     (48 \<le> i \<and> i < 52 \<and> bit (abcd_size m) (i - 48)) \<or>
     (40 \<le> i \<and> i < 48 \<and> bit (abcd_domain m) (i - 40)) \<or>
     (38 \<le> i \<and> i < 40 \<and> bit (abcd_err m) (i - 38)) \<or>
     (i < 26 \<and> bit (abcd_source m) i)"
  unfolding u64_from_abcd_def Let_def bit_or_iff
  by (simp add: bit_escape_bits_shift bit_escape_bits bit_ucast_widen)

lemma bit_u64_from_e:
  "bit (u64_from_e m) i \<longleftrightarrow>
     (60 \<le> i \<and> i < 63 \<and> bit (channel_as_u64 (e_chan m)) (i - 60)) \<or>
     (i < 26 \<and> bit (e_sink m) i)"
  unfolding u64_from_e_def Let_def bit_or_iff
  by (simp add: bit_escape_bits_shift bit_escape_bits bit_ucast_widen)

lemma channel_as_u64_less_8: "take_bit 3 (channel_as_u64 c) = channel_as_u64 c"
  by (cases c) (simp_all add: take_bit_eq_mask mask_eq_exp_minus_1)

text \<open>Reading a field back yields its low bits.\<close>

lemma extract_from_abcd [ox_simps]:
  "extract_bits_shift (u64_from_abcd m) 3 60 = channel_as_u64 (abcd_chan m)"
  "extract_bits_shift (u64_from_abcd m) 3 57 = ucast (take_bit 3 (abcd_opcode m))"
  "extract_bits_shift (u64_from_abcd m) 4 52 = ucast (take_bit 4 (abcd_param m))"
  "extract_bits_shift (u64_from_abcd m) 4 48 = ucast (take_bit 4 (abcd_size m))"
  "extract_bits_shift (u64_from_abcd m) 8 40 = ucast (abcd_domain m)"
  "extract_bits_shift (u64_from_abcd m) 2 38 = ucast (take_bit 2 (abcd_err m))"
  "extract_bits_shift (u64_from_abcd m) 26 0 = ucast (take_bit 26 (abcd_source m))"
proof -
  show "extract_bits_shift (u64_from_abcd m) 3 60 = channel_as_u64 (abcd_chan m)"
    by (subst channel_as_u64_less_8 [symmetric], rule bit_eqI)
      (auto simp: bit_extract_bits_shift bit_u64_from_abcd bit_take_bit_iff)
  show "extract_bits_shift (u64_from_abcd m) 3 57 = ucast (take_bit 3 (abcd_opcode m))"
    by (rule bit_eqI)
      (auto simp: bit_extract_bits_shift bit_u64_from_abcd bit_take_bit_iff bit_ucast_widen)
  show "extract_bits_shift (u64_from_abcd m) 4 52 = ucast (take_bit 4 (abcd_param m))"
    by (rule bit_eqI)
      (auto simp: bit_extract_bits_shift bit_u64_from_abcd bit_take_bit_iff bit_ucast_widen)
  show "extract_bits_shift (u64_from_abcd m) 4 48 = ucast (take_bit 4 (abcd_size m))"
    by (rule bit_eqI)
      (auto simp: bit_extract_bits_shift bit_u64_from_abcd bit_take_bit_iff bit_ucast_widen)
  show "extract_bits_shift (u64_from_abcd m) 8 40 = ucast (abcd_domain m)"
    by (rule bit_eqI)
      (auto simp: bit_extract_bits_shift bit_u64_from_abcd bit_ucast_widen
        dest: bit_imp_le_length)
  show "extract_bits_shift (u64_from_abcd m) 2 38 = ucast (take_bit 2 (abcd_err m))"
    by (rule bit_eqI)
      (auto simp: bit_extract_bits_shift bit_u64_from_abcd bit_take_bit_iff bit_ucast_widen)
  show "extract_bits_shift (u64_from_abcd m) 26 0 = ucast (take_bit 26 (abcd_source m))"
    by (rule bit_eqI)
      (auto simp: bit_extract_bits_shift bit_u64_from_abcd bit_take_bit_iff bit_ucast_widen)
qed

lemma extract_from_e [ox_simps]:
  "extract_bits_shift (u64_from_e m) 3 60 = channel_as_u64 (e_chan m)"
  "extract_bits_shift (u64_from_e m) 26 0 = ucast (take_bit 26 (e_sink m))"
proof -
  show "extract_bits_shift (u64_from_e m) 3 60 = channel_as_u64 (e_chan m)"
    by (subst channel_as_u64_less_8 [symmetric], rule bit_eqI)
      (auto simp: bit_extract_bits_shift bit_u64_from_e bit_take_bit_iff)
  show "extract_bits_shift (u64_from_e m) 26 0 = ucast (take_bit 26 (e_sink m))"
    by (rule bit_eqI)
      (auto simp: bit_extract_bits_shift bit_u64_from_e bit_take_bit_iff bit_ucast_widen)
qed

section \<open>Round trips\<close>

lemma channel_from_as [simp]: "channel_from_u64 (channel_as_u64 c) = Returns c"
  by (cases c) (simp_all add: channel_from_u64_def)

lemma channel_as_from: "channel_from_u64 v = Returns c \<Longrightarrow> channel_as_u64 c = v"
  by (auto simp: channel_from_u64_def split: if_splits)

text \<open>The fields of a header fit the bit ranges the encoding gives them.\<close>

definition abcd_fits :: "ChanABCDTilelinkMessage \<Rightarrow> bool" where
  "abcd_fits m \<longleftrightarrow> abcd_opcode m < 8 \<and> abcd_param m < 16 \<and> abcd_size m < 16 \<and>
     abcd_err m < 4 \<and> abcd_source m < 67108864"

lemma abcd_decode_encode:
  "abcd_from_u64 (u64_from_abcd m) = Returns (m
     \<lparr>abcd_opcode := take_bit 3 (abcd_opcode m), abcd_param := take_bit 4 (abcd_param m),
      abcd_size := take_bit 4 (abcd_size m), abcd_err := take_bit 2 (abcd_err m),
      abcd_source := take_bit 26 (abcd_source m)\<rparr>)"
  by (simp add: abcd_from_u64_def extract_from_abcd)

lemma abcd_fits_take_bit:
  assumes "abcd_fits m"
  shows "take_bit 3 (abcd_opcode m) = abcd_opcode m" "take_bit 4 (abcd_param m) = abcd_param m"
    "take_bit 4 (abcd_size m) = abcd_size m" "take_bit 2 (abcd_err m) = abcd_err m"
    "take_bit 26 (abcd_source m) = abcd_source m"
  using assms by (simp_all add: abcd_fits_def take_bit_less_exp)

lemma abcd_decode_encode_fits: "abcd_fits m \<Longrightarrow> abcd_from_u64 (u64_from_abcd m) = Returns m"
  by (simp add: abcd_decode_encode abcd_fits_take_bit)

lemma e_decode_encode_fits:
  "e_sink m < 67108864 \<Longrightarrow> e_from_u64 (u64_from_e m) = Returns m"
  using take_bit_less_exp [of "e_sink m" 26] by (simp add: e_from_u64_def extract_from_e)

text \<open>The bits of a header word that carry a field.\<close>

definition abcd_used :: "nat \<Rightarrow> bool" where
  "abcd_used i \<longleftrightarrow> i < 26 \<or> 38 \<le> i \<and> i < 56 \<or> 57 \<le> i \<and> i < 63"

lemma abcd_encode_decode:
  assumes "abcd_from_u64 v = Returns m"
  shows "bit (u64_from_abcd m) i \<longleftrightarrow> abcd_used i \<and> bit v i"
proof -
  from assms obtain c where c: "channel_from_u64 (extract_bits_shift v 3 60) = Returns c"
    and m: "m = \<lparr>abcd_chan = c, abcd_opcode = ucast (extract_bits_shift v 3 57),
        abcd_param = ucast (extract_bits_shift v 4 52),
        abcd_size = ucast (extract_bits_shift v 4 48),
        abcd_domain = ucast (extract_bits_shift v 8 40),
        abcd_err = ucast (extract_bits_shift v 2 38),
        abcd_source = ucast (extract_bits_shift v 26 0)\<rparr>"
    by (auto simp: abcd_from_u64_def and_then_Returns_iff)
  have "bit (channel_as_u64 c) j \<longleftrightarrow> j < 3 \<and> bit v (60 + j)" for j
    by (simp add: channel_as_from [OF c] bit_extract_bits_shift)
  then have *: "bit (u64_from_abcd m) i \<longleftrightarrow>
      (60 \<le> i \<and> i < 63 \<or> 57 \<le> i \<and> i < 60 \<or> 52 \<le> i \<and> i < 56 \<or> 48 \<le> i \<and> i < 52 \<or>
       40 \<le> i \<and> i < 48 \<or> 38 \<le> i \<and> i < 40 \<or> i < 26) \<and> bit v i"
    unfolding bit_u64_from_abcd m
    by (simp add: bit_ucast_iff bit_extract_bits_shift less_diff_conv2 conj_disj_distribR
        cong: conj_cong)
  show ?thesis unfolding * abcd_used_def by (intro arg_cong2 [where f = "(\<and>)"]) auto
qed

lemma abcd_from_u64_panics_iff:
  "(\<exists>p. abcd_from_u64 v = Panics p) \<longleftrightarrow> 6 \<le> extract_bits_shift v 3 60"
proof -
  have "extract_bits_shift v 3 60 < 8"
    unfolding extract_bits_shift_def low_bits_eq_mask using and_mask_less' [of 3 "drop_bit 60 v"]
    by simp
  then have "unat (extract_bits_shift v 3 60) < 8"
    by (simp add: word_less_nat_alt)
  then show ?thesis
    by (auto simp: abcd_from_u64_def channel_from_u64_def word_le_nat_alt word_unat_eq_iff)
qed

section \<open>Permissions\<close>

text \<open>The TileLink order of permissions: None below Branch below Trunk.\<close>

fun cap_rank :: "Cap \<Rightarrow> nat" where
  "cap_rank ToN = 0"
| "cap_rank ToB = 1"
| "cap_rank ToT = 2"

instantiation Cap :: linorder
begin

definition less_eq_Cap :: "Cap \<Rightarrow> Cap \<Rightarrow> bool" where
  "p \<le> q \<longleftrightarrow> cap_rank p \<le> cap_rank q"

definition less_Cap :: "Cap \<Rightarrow> Cap \<Rightarrow> bool" where
  "p < q \<longleftrightarrow> cap_rank p < cap_rank q"

instance
proof
  fix p q r :: Cap
  show "p < q \<longleftrightarrow> p \<le> q \<and> \<not> q \<le> p" by (auto simp: less_eq_Cap_def less_Cap_def)
  show "p \<le> p" "p \<le> q \<Longrightarrow> q \<le> r \<Longrightarrow> p \<le> r" "p \<le> q \<or> q \<le> p" by (auto simp: less_eq_Cap_def)
  show "p \<le> q \<Longrightarrow> q \<le> p \<Longrightarrow> p = q" by (cases p; cases q) (auto simp: less_eq_Cap_def)
qed

end

lemmas Cap_order = less_eq_Cap_def less_Cap_def min_def

text \<open>The transition a shrink or report parameter stands for (TileLink's table of
  Prune and Report transitions), as permissions before and after.\<close>

fun prune_transition :: "Prune \<Rightarrow> Cap \<times> Cap" where
  "prune_transition TtoB = (ToT, ToB)"
| "prune_transition TtoN = (ToT, ToN)"
| "prune_transition BtoN = (ToB, ToN)"

fun report_transition :: "Report \<Rightarrow> Cap \<times> Cap" where
  "report_transition TtoT = (ToT, ToT)"
| "report_transition BtoB = (ToB, ToB)"
| "report_transition NtoN = (ToN, ToN)"

definition param_transition :: "u8 \<Rightarrow> (Cap \<times> Cap) option" where
  "param_transition p = map_of
     (map (\<lambda>x. (prune_as_u8 x, prune_transition x)) [TtoB, TtoN, BtoN] @
      map (\<lambda>x. (report_as_u8 x, report_transition x)) [TtoT, BtoB, NtoN]) p"

fun grow_transition :: "Grow \<Rightarrow> Cap \<times> Cap" where
  "grow_transition NtoB = (ToN, ToB)"
| "grow_transition NtoT = (ToN, ToT)"
| "grow_transition BtoT = (ToB, ToT)"

lemma get_permission_change_denotes:
  "param_transition (get_permission_change cur request) =
     Some (if cur = ToB \<and> request = ToT then (ToB, ToN)
          else (cur, min cur request))"
  by (cases cur; cases request)
    (simp_all add: get_permission_change_def get_report_from_cap_def param_transition_def Cap_order)

lemma get_permission_change_grow_denotes:
  "cur < request \<Longrightarrow>
     grow_transition (get_permission_change_grow cur request) = (cur, request) \<and>
     get_resulting_permission (get_permission_change_grow cur request) = request"
  by (cases cur; cases request)
    (auto simp: get_permission_change_grow_def get_resulting_permission_def Cap_order)

text \<open>
  A header whose fields fit their bit ranges survives encoding and decoding, and decoding
  then encoding any word keeps exactly the bits that carry a field (the reserved bits are
  dropped).
\<close>

lemma abcd_header_round_trip:
  assumes "abcd_fits m"
  shows "abcd_from_u64 (u64_from_abcd m) = Returns m \<and>
    (\<forall>v h i. abcd_from_u64 v = Returns h \<longrightarrow> (bit (u64_from_abcd h) i \<longleftrightarrow> abcd_used i \<and> bit v i))"
  using abcd_decode_encode_fits [OF assms] abcd_encode_decode by blast

definition sample_header :: ChanABCDTilelinkMessage where
  "sample_header = \<lparr>abcd_chan = Chan_D, abcd_opcode = 5, abcd_param = 1, abcd_size = 6,
     abcd_domain = 0, abcd_err = 2, abcd_source = 77\<rparr>"

lemma abcd_header_round_trip_witness:
  "abcd_from_u64 (u64_from_abcd sample_header) = Returns sample_header"
  using abcd_header_round_trip [of sample_header] by (simp add: sample_header_def abcd_fits_def)

text \<open>
  The parameter \<^verbatim>\<open>get_permission_change\<close> reports for a probe with cap \<open>request\<close> denotes the
  transition from the current permission to the lower of the two, except that a branch probed
  with cap \<^verbatim>\<open>ToT\<close> is reported as given up (\<^verbatim>\<open>BtoN\<close>); the parameter of an acquire denotes the
  transition to the requested permission.
\<close>

lemma permission_parameters_denote:
  "param_transition (get_permission_change cur request) =
     Some (if cur = ToB \<and> request = ToT then (ToB, ToN)
           else (cur, min cur request)) \<and>
   (cur < request \<longrightarrow>
     grow_transition (get_permission_change_grow cur request) = (cur, request) \<and>
     get_resulting_permission (get_permission_change_grow cur request) = request)"
  using get_permission_change_denotes get_permission_change_grow_denotes by blast

lemma permission_parameters_denote_witness:
  "param_transition (get_permission_change ToT ToB) = Some (ToT, ToB) \<and>
   grow_transition (get_permission_change_grow ToN ToT) = (ToN, ToT)"
  using permission_parameters_denote [of ToT ToB] permission_parameters_denote [of ToN ToT] by (simp add: Cap_order)

end
