(* ===== verification/Credits.thy ===== *)
theory Credits
  imports Tilelink_Messages
begin

text \<open>
  \<^verbatim>\<open>omnixtend-rs/src/credits.rs\<close>: five credit counters, one per TileLink channel. The
  locale \<open>credit_store\<close> is the contract the operations and the connection rely on: credits
  are granted all or nothing and never overdrawn. The second half shows that
  \<^verbatim>\<open>get_highest\<close> advertises the largest power of two of the fullest channel, and that the
  counters are drained in as many calls as they have bits set.
\<close>

type_synonym credits = "usize list"

section \<open>Operations\<close>

text \<open>\<^verbatim>\<open>chan as usize - 1\<close>, used under the guard \<^verbatim>\<open>chan != INVALID\<close> only.\<close>

definition chan_index :: "OmnixtendChannel \<Rightarrow> nat" where
  "chan_index c = unat (channel_as_u64 c - 1)"

definition credits_new :: "usize \<Rightarrow> credits" where
  "credits_new c = [c, c, c, c, c]"

definition credits_add :: "credits \<Rightarrow> OmnixtendChannel \<Rightarrow> usize \<Rightarrow> credits" where
  "credits_add cs chan n =
     (if chan \<noteq> Chan_INVALID then cs[chan_index chan := cs ! chan_index chan + n] else cs)"

definition credits_take :: "credits \<Rightarrow> OmnixtendChannel \<Rightarrow> usize \<Rightarrow> bool \<times> credits" where
  "credits_take cs chan amount =
     (if chan \<noteq> Chan_INVALID then
        (if cs ! chan_index chan \<ge> amount
         then (True, cs[chan_index chan := cs ! chan_index chan - amount])
         else (False, cs))
      else (False, cs))"

definition credits_any :: "credits \<Rightarrow> bool" where
  "credits_any cs \<longleftrightarrow> list_ex (\<lambda>x. x \<noteq> 0) cs"

text \<open>\<^verbatim>\<open>u32::leading_zeros\<close>.\<close>

definition leading_zeros32 :: "u32 \<Rightarrow> nat" where
  "leading_zeros32 w = length (takeWhile (\<lambda>i. \<not> bit w i) (rev [0..<32]))"

fun highest_scan :: "nat \<Rightarrow> nat \<times> usize \<Rightarrow> credits \<Rightarrow> nat \<times> usize" where
  "highest_scan i highest [] = highest"
| "highest_scan i highest (v # vs) =
     highest_scan (Suc i) (if v > snd highest then (i, v) else highest) vs"

definition get_highest :: "credits \<Rightarrow> (u32 \<times> u32) \<times> credits" where
  "get_highest cs =
     (let highest = highest_scan 0 (0, 0) cs in
      if snd highest = 0 then ((0, 0), cs)
      else let (i, v) = highest;
               m = 31 - of_nat (leading_zeros32 (ucast v)) :: u32
           in ((of_nat (i + 1), m),
               cs[i := cs ! i - push_bit (unat (m AND 63)) 1]))"

definition credits_reset_to :: "credits \<Rightarrow> credits \<Rightarrow> credits" where
  "credits_reset_to self other = foldl (\<lambda>cs i. cs[i := other ! i]) self [0..<length self]"

section \<open>The contract\<close>

definition credits_ok :: "credits \<Rightarrow> bool" where
  "credits_ok cs \<longleftrightarrow> length cs = 5"

definition level :: "credits \<Rightarrow> OmnixtendChannel \<Rightarrow> nat" where
  "level cs c = (if c = Chan_INVALID then 0 else unat (cs ! chan_index c))"

locale credit_store =
  fixes ok :: "'c \<Rightarrow> bool"
    and lvl :: "'c \<Rightarrow> OmnixtendChannel \<Rightarrow> nat"
    and give :: "'c \<Rightarrow> OmnixtendChannel \<Rightarrow> usize \<Rightarrow> 'c"
    and grab :: "'c \<Rightarrow> OmnixtendChannel \<Rightarrow> usize \<Rightarrow> bool \<times> 'c"
  assumes lvl_invalid: "lvl c Chan_INVALID = 0"
    and give_lvl: "\<lbrakk>ok c; ch \<noteq> Chan_INVALID; lvl c ch + unat n < 2 ^ 64\<rbrakk> \<Longrightarrow>
      ok (give c ch n) \<and> lvl (give c ch n) = (lvl c)(ch := lvl c ch + unat n)"
    and grab_some: "\<lbrakk>ok c; ch \<noteq> Chan_INVALID; unat n \<le> lvl c ch\<rbrakk> \<Longrightarrow>
      \<exists>c'. grab c ch n = (True, c') \<and> ok c' \<and> lvl c' = (lvl c)(ch := lvl c ch - unat n)"
    and grab_none: "\<lbrakk>ok c; ch = Chan_INVALID \<or> lvl c ch < unat n\<rbrakk> \<Longrightarrow> grab c ch n = (False, c)"
begin

lemma grab_cases:
  assumes "ok c" "grab c ch n = (b, c')"
  shows "ok c' \<and> (b \<longleftrightarrow> ch \<noteq> Chan_INVALID \<and> unat n \<le> lvl c ch) \<and>
    lvl c' = (if b then (lvl c)(ch := lvl c ch - unat n) else lvl c)"
  using assms grab_some [OF assms(1), of ch n] grab_none [OF assms(1), of ch n]
  by (cases "ch \<noteq> Chan_INVALID \<and> unat n \<le> lvl c ch") auto

text \<open>The total granted on a channel by a sequence of requests.\<close>

fun granted :: "'c \<Rightarrow> (OmnixtendChannel \<times> usize) list \<Rightarrow> OmnixtendChannel \<Rightarrow> nat" where
  "granted c [] k = 0"
| "granted c ((ch, n) # rs) k =
     (case grab c ch n of (b, c') \<Rightarrow> (if b \<and> ch = k then unat n else 0) + granted c' rs k)"

lemma never_overdrawn: "ok c \<Longrightarrow> granted c rs k \<le> lvl c k"
proof (induction rs arbitrary: c)
  case Nil
  show ?case by simp
next
  case (Cons r rs)
  obtain ch n where r: "r = (ch, n)" by fastforce
  obtain b c' where g: "grab c ch n = (b, c')" by fastforce
  note gc = grab_cases [OF Cons.prems g]
  then have "granted c' rs k \<le> lvl c' k" by (intro Cons.IH) simp
  with gc g r show ?case by (auto split: if_splits)
qed

lemma give_back:
  assumes "ok c" "grab c ch n = (True, c')" "lvl c ch < 2 ^ 64"
  shows "lvl (give c' ch n) = lvl c"
proof -
  from grab_cases [OF assms(1,2)] have ch: "ok c'" "ch \<noteq> Chan_INVALID" "unat n \<le> lvl c ch"
    "lvl c' = (lvl c)(ch := lvl c ch - unat n)" by auto
  then have "lvl (give c' ch n) = (lvl c')(ch := lvl c' ch + unat n)"
    using assms(3) give_lvl [of c' ch n] by simp
  with ch show ?thesis by (simp add: fun_eq_iff)
qed

end

lemma chan_index_less: "c \<noteq> Chan_INVALID \<Longrightarrow> chan_index c < 5"
  by (cases c) (simp_all add: chan_index_def)

lemma chan_index_inject:
  "c \<noteq> Chan_INVALID \<Longrightarrow> d \<noteq> Chan_INVALID \<Longrightarrow> chan_index c = chan_index d \<longleftrightarrow> c = d"
  by (cases c; cases d) (simp_all add: chan_index_def)

lemma level_update:
  assumes "credits_ok cs" "ch \<noteq> Chan_INVALID"
  shows "credits_ok (cs[chan_index ch := v])"
    and "level (cs[chan_index ch := v]) = (level cs)(ch := unat v)"
  using assms by (auto simp: credits_ok_def level_def fun_eq_iff nth_list_update chan_index_less
      chan_index_inject)

interpretation cs: credit_store credits_ok level credits_add credits_take
proof unfold_locales
  fix c :: credits and ch n
  show "level c Chan_INVALID = 0" by (simp add: level_def)
  show "\<lbrakk>credits_ok c; ch \<noteq> Chan_INVALID; level c ch + unat n < 2 ^ 64\<rbrakk> \<Longrightarrow>
      credits_ok (credits_add c ch n) \<and>
      level (credits_add c ch n) = (level c)(ch := level c ch + unat n)"
    by (simp add: credits_add_def level_update)
      (simp add: level_def unat_word_ariths)
  show "\<lbrakk>credits_ok c; ch \<noteq> Chan_INVALID; unat n \<le> level c ch\<rbrakk> \<Longrightarrow>
      \<exists>c'. credits_take c ch n = (True, c') \<and> credits_ok c' \<and>
        level c' = (level c)(ch := level c ch - unat n)"
    by (simp add: credits_take_def level_update)
      (simp add: level_def word_le_nat_alt unat_sub)
  show "\<lbrakk>credits_ok c; ch = Chan_INVALID \<or> level c ch < unat n\<rbrakk> \<Longrightarrow>
      credits_take c ch n = (False, c)"
    by (auto simp: credits_take_def level_def word_le_nat_alt split: if_splits)
qed

section \<open>\<^verbatim>\<open>get_highest\<close>\<close>

lemma highest_scan_spec:
  assumes "highest_scan k (h, w) vs = (i, v)"
  shows "w \<le> v \<and> (\<forall>x \<in> set vs. x \<le> v) \<and>
    ((i, v) = (h, w) \<or> k \<le> i \<and> i < k + length vs \<and> vs ! (i - k) = v \<and> w < v)"
  using assms
proof (induction vs arbitrary: k h w)
  case Nil
  then show ?case by simp
next
  case (Cons x vs)
  show ?case
  proof (cases "w < x")
    case True
    with Cons.prems have "highest_scan (Suc k) (k, x) vs = (i, v)" by simp
    from Cons.IH [OF this] True show ?thesis by (auto simp: nth_Cons' Suc_diff_le not_le)
  next
    case False
    with Cons.prems have "highest_scan (Suc k) (h, w) vs = (i, v)" by simp
    from Cons.IH [OF this] False show ?thesis by (auto simp: nth_Cons' Suc_diff_le not_less)
  qed
qed

text \<open>The most significant set bit.\<close>

lemma leading_zeros32_top_bit:
  assumes "w \<noteq> 0"
  shows "leading_zeros32 w \<le> 31 \<and> bit w (31 - leading_zeros32 w) \<and>
    (\<forall>j > 31 - leading_zeros32 w. \<not> bit w j)"
proof -
  let ?n = "leading_zeros32 w"
  let ?xs = "rev [0..<32]" and ?P = "\<lambda>i. \<not> bit w i"
  have nth: "?xs ! j = 31 - j" if "j < 32" for j using that by (simp add: rev_nth)
  obtain i where i: "bit w i" "i < 32" using assms by (auto simp: bit_eq_iff dest: bit_imp_le_length)
  have "?n < length ?xs"
  proof (rule ccontr)
    assume "\<not> ?n < length ?xs"
    then have "takeWhile ?P ?xs = ?xs"
      by (metis leading_zeros32_def linorder_not_less takeWhile_eq_take take_all)
    then have "\<forall>j \<in> set ?xs. ?P j" by simp
    with i show False by simp
  qed
  then have n: "?n < 32" by simp
  have "\<not> ?P (?xs ! ?n)"
    unfolding leading_zeros32_def using n
    by (intro nth_length_takeWhile) (simp add: leading_zeros32_def)
  then have top: "bit w (31 - ?n)" using nth [OF n] by simp
  have "\<not> bit w j" if j: "j > 31 - ?n" for j
  proof (cases "j < 32")
    case True
    with j have lt: "31 - j < ?n" by linarith
    have "takeWhile ?P ?xs ! (31 - j) \<in> set (takeWhile ?P ?xs)"
      using lt by (intro nth_mem) (simp add: leading_zeros32_def)
    then have "?P (takeWhile ?P ?xs ! (31 - j))" by (blast dest: set_takeWhileD)
    then show ?thesis using lt True n nth [of "31 - j"]
      by (simp add: takeWhile_nth leading_zeros32_def)
  next
    case False
    then show ?thesis by (auto dest: bit_imp_le_length)
  qed
  with n top show ?thesis by auto
qed

text \<open>The number of set bits of a counter.\<close>

definition ones :: "u64 \<Rightarrow> nat" where
  "ones v = card {i. i < 64 \<and> bit v i}"

lemma ones_unset_bit: "bit v m \<Longrightarrow> ones v = Suc (ones (unset_bit m v))"
proof -
  assume m: "bit v m"
  then have lt: "m < 64" by (auto dest: bit_imp_le_length)
  have "{i. i < 64 \<and> bit v i} = insert m {i. i < 64 \<and> bit (unset_bit m v) i}"
    using m lt by (auto simp: bit_unset_bit_iff)
  then show ?thesis by (simp add: ones_def bit_unset_bit_iff)
qed

lemma ones_0_iff: "ones v = 0 \<longleftrightarrow> v = 0"
proof -
  have "ones v = 0 \<longleftrightarrow> (\<forall>i. \<not> bit v i)"
    using bit_imp_le_length [of v] by (auto simp: ones_def)
  also have "\<dots> \<longleftrightarrow> v = 0" using bit_imp_le_length [of v] by (auto simp: bit_eq_iff)
  finally show ?thesis .
qed

lemma get_highest_none: "\<forall>x \<in> set cs. x = 0 \<Longrightarrow> get_highest cs = ((0, 0), cs)"
proof -
  assume z: "\<forall>x \<in> set cs. x = 0"
  have "highest_scan k (0, 0) cs = (0, 0)" for k using z by (induction cs arbitrary: k) auto
  then show ?thesis by (simp add: get_highest_def)
qed

text \<open>The counter of the fullest channel loses its most significant bit, whose position is
  what \<^verbatim>\<open>get_highest\<close> reports.\<close>

lemma get_highest_some:
  assumes ex: "\<exists>x \<in> set cs. x \<noteq> 0" and small: "\<forall>x \<in> set cs. x < 2 ^ 32"
  obtains i m where "i < length cs" "m < 32" "bit (cs ! i) m" "unat (cs ! i) < 2 ^ Suc m"
    "\<forall>x \<in> set cs. x \<le> cs ! i"
    "get_highest cs = ((of_nat (i + 1), of_nat m), cs[i := unset_bit m (cs ! i)])"
proof -
  obtain i v where hs: "highest_scan 0 (0, 0) cs = (i, v)" by fastforce
  from highest_scan_spec [OF hs] ex have v: "v \<noteq> 0" "i < length cs" "cs ! i = v"
    "\<forall>x \<in> set cs. x \<le> v" by auto
  define w where "w = (ucast v :: u32)"
  have v32: "v < 2 ^ 32" using small v by auto
  then have vbit: "i < 32" if "bit v i" for i
    using that take_bit_less_exp [of v 32] by (metis bit_take_bit_iff)
  then have wbit: "bit w i \<longleftrightarrow> bit v i" for i by (auto simp: w_def bit_ucast_iff)
  obtain j where "bit v j" using v(1) by (auto simp: bit_eq_iff)
  then have "w \<noteq> 0" using wbit [of j] by auto
  note top = leading_zeros32_top_bit [OF this]
  define m where "m = 31 - leading_zeros32 w"
  have m: "m < 32" "bit v m" "\<forall>j > m. \<not> bit v j" using top wbit by (auto simp: m_def)
  have m31: "31 - of_nat (leading_zeros32 w) = (of_nat m :: u32)"
    using top by (simp add: m_def)
  have "unat (of_nat m AND 63 :: u32) = m"
    using m(1) take_bit_less_exp [of "of_nat m :: u32" 6]
    by (simp add: take_bit_eq_mask mask_eq_exp_minus_1 word_less_nat_alt unat_of_nat)
  then have "v - push_bit (unat (of_nat m AND 63 :: u32)) 1 = unset_bit m v"
    using m(2) by (simp add: unset_bit_eq)
  then have gh: "get_highest cs = ((of_nat (i + 1), of_nat m), cs[i := unset_bit m (cs ! i)])"
    using v m31 by (simp add: get_highest_def hs w_def)
  have "take_bit (Suc m) v = v"
    using m(3) by (intro bit_eqI) (auto simp: bit_take_bit_iff not_less_eq)
  then have "unat v < 2 ^ Suc m"
    by (metis take_bit_nat_less_exp unsigned_take_bit_eq)
  with that [of i m] v m gh show thesis by blast
qed

lemma sum_list_update_ones:
  "i < length cs \<Longrightarrow> bit (cs ! i) m \<Longrightarrow>
     sum_list (map ones cs) = Suc (sum_list (map ones (cs[i := unset_bit m (cs ! i)])))"
proof (induction cs arbitrary: i)
  case Nil
  then show ?case by simp
next
  case (Cons c cs)
  then show ?case using ones_unset_bit [of c m] by (cases i) auto
qed

lemma unset_bit_le: "unset_bit m v \<le> (v :: u64)"
  by (simp add: unset_bit_eq_and_not word_and_le2)

lemma unat_unset_bit:
  assumes "bit v m"
  shows "unat (unset_bit m v :: u64) + 2 ^ m = unat v"
proof -
  have m: "m < 64" using assms by (auto dest: bit_imp_le_length)
  have eq: "unset_bit m v = v - 2 ^ m" using assms by (simp add: unset_bit_eq)
  then have "2 ^ m \<le> v" using unset_bit_le [of m v] by (simp add: word_sub_le_iff)
  moreover have "unat (2 ^ m :: u64) = 2 ^ m" using m by (simp add: unat_exp)
  ultimately show ?thesis by (simp add: eq unat_sub word_le_nat_alt)
qed

text \<open>Each call moves one bit out of the counters, so they are empty after as many calls
  as there are bits.\<close>

lemma get_highest_small:
  "\<forall>x \<in> set cs. x < 2 ^ 32 \<Longrightarrow> \<forall>x \<in> set (snd (get_highest cs)). x < 2 ^ 32"
proof (cases "\<exists>x \<in> set cs. x \<noteq> 0")
  case True
  assume small: "\<forall>x \<in> set cs. x < 2 ^ 32"
  from get_highest_some [OF True small] obtain i m where i: "i < length cs"
    "get_highest cs = ((of_nat (i + 1), of_nat m), cs[i := unset_bit m (cs ! i)])" by metis
  have "unset_bit m (cs ! i) < 2 ^ 32"
    using small i(1) by (intro le_less_trans [OF unset_bit_le]) simp
  with i small show ?thesis by (auto dest: set_update_subset_insert [THEN subsetD])
qed (simp add: get_highest_none)

lemma drained_after:
  "\<forall>x \<in> set cs. x < 2 ^ 32 \<Longrightarrow> n = sum_list (map ones cs) \<Longrightarrow>
     ((snd \<circ> get_highest) ^^ n) cs = replicate (length cs) 0"
proof (induction n arbitrary: cs)
  case 0
  then have "\<forall>x \<in> set cs. x = 0" by (simp add: ones_0_iff)
  then show ?case by (simp add: list_eq_iff_nth_eq)
next
  case (Suc n)
  have ex: "\<exists>x \<in> set cs. x \<noteq> 0"
  proof (rule ccontr)
    assume "\<not> ?thesis"
    then have "sum_list (map ones cs) = 0" by (induction cs) (auto simp: ones_0_iff)
    with Suc.prems show False by simp
  qed
  from get_highest_some [OF ex Suc.prems(1)] obtain i m where i: "i < length cs" "bit (cs ! i) m"
    "get_highest cs = ((of_nat (i + 1), of_nat m), cs[i := unset_bit m (cs ! i)])" by metis
  then have "n = sum_list (map ones (snd (get_highest cs)))"
    using sum_list_update_ones [OF i(1,2)] Suc.prems(2) by simp
  moreover have "length (snd (get_highest cs)) = length cs" using i by simp
  ultimately show ?case
    using Suc.IH [OF get_highest_small [OF Suc.prems(1)]] by (simp add: funpow_Suc_right del: funpow.simps)
qed

lemma foldl_copy_prefix:
  "k \<le> length self \<Longrightarrow> k \<le> length other \<Longrightarrow>
     foldl (\<lambda>cs i. cs[i := other ! i]) self [0..<k] = take k other @ drop k self"
proof (induction k)
  case 0
  show ?case by simp
next
  case (Suc k)
  then show ?case
    by (simp add: list_update_append take_Suc_conv_app_nth Cons_nth_drop_Suc [symmetric])
qed

lemma credits_reset_to_other:
  "length self = length other \<Longrightarrow> credits_reset_to self other = other"
  by (simp add: credits_reset_to_def foldl_copy_prefix)

section \<open>Properties\<close>

text \<open>A sequence of requests: which are granted, and what is left.\<close>

fun take_all :: "credits \<Rightarrow> (OmnixtendChannel \<times> usize) list \<Rightarrow> bool list \<times> credits" where
  "take_all cs [] = ([], cs)"
| "take_all cs ((ch, n) # rs) =
     (let (b, cs) = credits_take cs ch n; (bs, cs) = take_all cs rs in (b # bs, cs))"

definition granted_on :: "OmnixtendChannel \<Rightarrow> (OmnixtendChannel \<times> usize) list \<Rightarrow> bool list \<Rightarrow> nat" where
  "granted_on k rs bs = sum_list (map (\<lambda>((ch, n), b). if b \<and> ch = k then unat n else 0) (zip rs bs))"

text \<open>
  C33. Credits are conserved: whatever sequence of requests is made, what has been granted on a
  channel and what is left of it add up to what was there, so no channel is ever overdrawn.
\<close>

theorem credits_conserved:
  assumes "credits_ok cs" and "take_all cs rs = (bs, cs')"
  shows "granted_on k rs bs + level cs' k = level cs k"
  using assms
proof (induction rs arbitrary: cs bs)
  case Nil
  then show ?case by (simp add: granted_on_def)
next
  case (Cons r rs)
  obtain ch n where r: "r = (ch, n)" by fastforce
  obtain b c1 where t: "credits_take cs ch n = (b, c1)" by fastforce
  obtain bs1 where ta: "take_all c1 rs = (bs1, cs')" "bs = b # bs1"
    using Cons.prems(2) r t by (auto simp: Let_def split: prod.splits)
  note gc = cs.grab_cases [OF Cons.prems(1) t]
  from gc have "granted_on k rs bs1 + level cs' k = level c1 k" using Cons.IH [OF _ ta(1)] by blast
  with gc r t ta(2) show ?case by (auto simp: granted_on_def)
qed

theorem credits_conserved_witness:
  "granted_on Chan_A [(Chan_A, 100), (Chan_A, 50), (Chan_C, 5)] [True, False, True] +
     level [28, 128, 123, 128, 128] Chan_A = level (credits_new 128) Chan_A"
proof (rule credits_conserved)
  show "credits_ok (credits_new 128)" by (simp add: credits_ok_def credits_new_def)
  show "take_all (credits_new 128) [(Chan_A, 100), (Chan_A, 50), (Chan_C, 5)] =
    ([True, False, True], [28, 128, 123, 128, 128])"
    by (simp add: credits_new_def credits_take_def chan_index_def)
qed

text \<open>
  C24. \<^verbatim>\<open>get_highest\<close> announces credits without loss. For counters below \<open>2 ^ 32\<close>: while some counter is not empty it reports a
  channel with the most credits together with the exponent of the largest power of two that
  fits, and removes exactly that power; after as many calls as the counters have bits set, all
  counters are empty.
\<close>

theorem get_highest_announces:
  assumes "\<forall>x \<in> set cs. x < 2 ^ 32"
  shows "((\<exists>x \<in> set cs. x \<noteq> 0) \<longrightarrow> (\<exists>i m cs'. get_highest cs = ((of_nat (i + 1), of_nat m), cs') \<and>
      i < length cs \<and> m < 32 \<and> (\<forall>x \<in> set cs. x \<le> cs ! i) \<and> unat (cs ! i) < 2 ^ Suc m \<and>
      cs' = cs[i := cs' ! i] \<and> unat (cs ! i) = unat (cs' ! i) + 2 ^ m)) \<and>
    ((snd \<circ> get_highest) ^^ sum_list (map ones cs)) cs = replicate (length cs) 0"
proof (intro conjI impI)
  assume ex: "\<exists>x \<in> set cs. x \<noteq> 0"
  from get_highest_some [OF ex assms] obtain i m where i: "i < length cs" "m < 32" "bit (cs ! i) m"
    "unat (cs ! i) < 2 ^ Suc m" "\<forall>x \<in> set cs. x \<le> cs ! i"
    "get_highest cs = ((of_nat (i + 1), of_nat m), cs[i := unset_bit m (cs ! i)])" by metis
  then show "\<exists>i m cs'. get_highest cs = ((of_nat (i + 1), of_nat m), cs') \<and>
      i < length cs \<and> m < 32 \<and> (\<forall>x \<in> set cs. x \<le> cs ! i) \<and> unat (cs ! i) < 2 ^ Suc m \<and>
      cs' = cs[i := cs' ! i] \<and> unat (cs ! i) = unat (cs' ! i) + 2 ^ m"
    by (intro exI [of _ i] exI [of _ m] exI [of _ "cs[i := unset_bit m (cs ! i)]"])
      (simp add: unat_unset_bit)
qed (rule drained_after [OF assms refl])

theorem get_highest_announces_witness:
  "((snd \<circ> get_highest) ^^ sum_list (map ones [5, 0, 3, 0, 0])) [5, 0, 3, 0, 0] =
     replicate (length [5 :: u64, 0, 3, 0, 0]) 0"
  by (rule conjunct2 [OF get_highest_announces]) simp

end
