(* ===== verification/Chunkize.thy ===== *)
theory Chunkize
  imports Ox_Prelude
begin

text \<open>
  \<^verbatim>\<open>chunkize_packet\<close> of \<^verbatim>\<open>omnixtend-rs/src/utils.rs\<close> (and its copy in
  \<^verbatim>\<open>rust_sim/src/socket.rs\<close>): a packet cut into little-endian 64-bit flits, the last one
  padded with zero bytes. The flits determine the packet up to that padding.
\<close>

text \<open>\<^verbatim>\<open>slice::chunks(8)\<close>.\<close>

function chunks8 :: "'a list \<Rightarrow> 'a list list" where
  "chunks8 xs = (if xs = [] then [] else take 8 xs # chunks8 (drop 8 xs))"
  by pat_completeness auto
termination
  by (relation "measure length") auto

declare chunks8.simps [simp del]

text \<open>The loop \<^verbatim>\<open>while c_v.len() < 8 { c_v.push(0) }\<close>.\<close>

function pad8 :: "bytes \<Rightarrow> bytes" where
  "pad8 v = (if length v < 8 then pad8 (v @ [0]) else v)"
  by pat_completeness auto
termination
  by (relation "measure (\<lambda>v. 8 - length v)") auto

declare pad8.simps [simp del]

definition chunkize_packet :: "bytes \<Rightarrow> u64 list" where
  "chunkize_packet p = map (\<lambda>chunk. u64_from_le_bytes (pad8 chunk)) (chunks8 p)"

lemma chunks8_Nil [simp]: "chunks8 [] = []"
  by (simp add: chunks8.simps)

lemma chunks8_short: "xs \<noteq> [] \<Longrightarrow> length xs \<le> 8 \<Longrightarrow> chunks8 xs = [xs]"
  by (simp add: chunks8.simps [of xs])

lemma chunks8_append8: "length xs = 8 \<Longrightarrow> chunks8 (xs @ ys) = xs # chunks8 ys"
  by (subst chunks8.simps) auto

lemma concat_chunks8: "concat (chunks8 xs) = xs"
  by (induction xs rule: chunks8.induct) (subst chunks8.simps, auto)

lemma chunks8_length: "c \<in> set (chunks8 xs) \<Longrightarrow> c \<noteq> [] \<and> length c \<le> 8"
  by (induction xs rule: chunks8.induct) (subst (asm) chunks8.simps, auto split: if_splits)

lemma pad8_eq: "pad8 v = v @ replicate (8 - length v) 0"
proof (induction v rule: pad8.induct)
  case (1 v)
  show ?case
  proof (cases "length v < 8")
    case True
    then have "8 - length v = Suc (8 - length (v @ [0]))" by simp
    with True 1 show ?thesis by (simp add: pad8.simps [of v] replicate_app_Cons_same)
  next
    case False
    then show ?thesis by (simp add: pad8.simps [of v])
  qed
qed

lemma length_pad8: "length v \<le> 8 \<Longrightarrow> length (pad8 v) = 8"
  by (simp add: pad8_eq)

text \<open>How many zero bytes complete the last flit.\<close>

definition pad_len :: "nat \<Rightarrow> nat" where
  "pad_len n = (8 - n mod 8) mod 8"

lemma pad_len_add8: "pad_len (8 + n) = pad_len n"
  by (simp add: pad_len_def)

lemma chunkize_Nil [simp]: "chunkize_packet [] = []"
  by (simp add: chunkize_packet_def)

lemma chunkize_append8:
  "length xs = 8 \<Longrightarrow> chunkize_packet (xs @ ys) = u64_from_le_bytes xs # chunkize_packet ys"
  by (simp add: chunkize_packet_def chunks8_append8 pad8_eq)

lemma chunkize_short:
  "p \<noteq> [] \<Longrightarrow> length p \<le> 8 \<Longrightarrow>
     chunkize_packet p = [u64_from_le_bytes (p @ replicate (8 - length p) 0)]"
  by (simp add: chunkize_packet_def chunks8_short pad8_eq)

lemma split8:
  assumes "8 < length (p :: 'a list)"
  obtains xs ys where "p = xs @ ys" "length xs = 8" "ys \<noteq> []"
  using assms that [of "take 8 p" "drop 8 p"] by auto

lemma unchunk:
  "concat (map u64_to_le_bytes (chunkize_packet p)) = p @ replicate (pad_len (length p)) 0"
proof (induction "length p" arbitrary: p rule: less_induct)
  case less
  show ?case
  proof (cases "length p \<le> 8")
    case True
    then show ?thesis
    proof (cases "p = []")
      case False
      with True have "pad_len (length p) = 8 - length p"
        by (cases "length p = 8") (auto simp: pad_len_def)
      with True False show ?thesis by (simp add: chunkize_short to_from_le_bytes)
    qed (simp add: pad_len_def)
  next
    case False
    then obtain xs ys where p: "p = xs @ ys" "length xs = 8" by (metis split8 not_le)
    with less [of ys] show ?thesis
      by (simp add: chunkize_append8 to_from_le_bytes pad_len_add8)
  qed
qed

lemma length_chunkize: "length (chunkize_packet p) = (length p + 7) div 8"
proof -
  have "8 * length (chunkize_packet p) = length p + pad_len (length p)"
    using arg_cong [OF unchunk [of p], of length] by (simp add: length_concat comp_def sum_list_triv)
  moreover have "pad_len (length p) < 8" by (simp add: pad_len_def)
  ultimately show ?thesis by arith
qed

end
