(* ===== verification/Tl_Encoding.thy ===== *)
theory Tl_Encoding
  imports Tl_Operations
begin

text \<open>
  What the encodings of \<open>Tl_Operations\<close> guarantee: powers of two and rounding, the layout of
  every encoded operation, its agreement with the credit cost, and the byte masks of partial
  writes.
\<close>

section \<open>Powers of two\<close>

lemma floor_log2_bounds: "0 < n \<Longrightarrow> 2 ^ floor_log2 n \<le> n \<and> n < 2 ^ Suc (floor_log2 n)"
proof (induction n rule: floor_log2.induct)
  case (1 n)
  show ?case
  proof (cases "n < 2")
    case True
    with "1.prems" show ?thesis by (simp add: floor_log2.simps [of n])
  next
    case False
    then have "2 ^ floor_log2 (n div 2) \<le> n div 2 \<and> n div 2 < 2 ^ Suc (floor_log2 (n div 2))"
      using "1.IH" by auto
    moreover have "floor_log2 n = Suc (floor_log2 (n div 2))"
      using False by (simp add: floor_log2.simps [of n])
    ultimately show ?thesis by auto
  qed
qed

lemma floor_log2_unique: "2 ^ k \<le> n \<Longrightarrow> n < 2 ^ Suc k \<Longrightarrow> floor_log2 n = k"
proof -
  assume k: "2 ^ k \<le> n" "n < 2 ^ Suc k"
  moreover have "(0 :: nat) < 2 ^ k" by simp
  ultimately have "0 < n" by linarith
  note b = floor_log2_bounds [OF this]
  have "(2 :: nat) ^ k < 2 ^ Suc (floor_log2 n)" using k(1) b by linarith
  moreover have "(2 :: nat) ^ floor_log2 n < 2 ^ Suc k" using k(2) b by linarith
  ultimately show ?thesis by (metis less_Suc_eq_le order_antisym power_less_imp_less_exp one_less_numeral_iff semiring_norm(76))
qed

lemma floor_log2_pow2 [simp]: "floor_log2 (2 ^ k) = k"
  by (rule floor_log2_unique) simp_all

lemma log2_fract_zero_iff: "log2_fract_zero n \<longleftrightarrow> (\<exists>k. n = 2 ^ k)"
  by (auto simp: log2_fract_zero_def)

lemma next_power_of_two_is_pow2: "\<exists>k. next_power_of_two n = 2 ^ k"
  unfolding next_power_of_two_def by (metis power_0)

lemma next_power_of_two_ge: "n \<le> next_power_of_two n"
  using floor_log2_bounds [of "n - 1"] by (auto simp: next_power_of_two_def)

lemma next_power_of_two_least: "n \<le> 2 ^ k \<Longrightarrow> next_power_of_two n \<le> 2 ^ k"
proof (cases "n \<le> 1")
  case False
  assume "n \<le> 2 ^ k"
  with False have "2 ^ floor_log2 (n - 1) < (2 :: nat) ^ k"
    using floor_log2_bounds [of "n - 1"] by linarith
  then have "Suc (floor_log2 (n - 1)) \<le> k" by (simp add: Suc_le_eq)
  then have "(2 :: nat) ^ Suc (floor_log2 (n - 1)) \<le> 2 ^ k" by (intro power_increasing) auto
  with False show ?thesis by (simp add: next_power_of_two_def)
qed (simp add: next_power_of_two_def)

lemma pow2_dvd_pow2: "(2 :: nat) ^ j \<le> 2 ^ k \<Longrightarrow> (2 :: nat) ^ j dvd 2 ^ k"
  by (rule le_imp_power_dvd) (rule power_le_imp_le_exp [of 2], simp_all)

section \<open>Layout of the encoded operations\<close>

lemma copy_into_append:
  "lo = length a \<Longrightarrow> hi = length a + length d \<Longrightarrow> length b = length d \<Longrightarrow>
     copy_into (a @ b @ c) lo hi d = Returns (a @ d @ c)"
  by (simp add: copy_into_def)

lemma replicate_split: "k \<le> n \<Longrightarrow> replicate n x = replicate k x @ replicate (n - k) x"
  by (metis le_add_diff_inverse replicate_add)

lemma put_header_address_layout:
  assumes "16 \<le> n"
  shows "put_header_address n hdr addr =
    Returns (u64_to_be_bytes (u64_from_tilelink hdr) @ u64_to_be_bytes addr @ replicate (n - 16) 0)"
proof -
  let ?h = "u64_to_be_bytes (u64_from_tilelink hdr)"
  have "n = 8 + (8 + (n - 16))" using assms by simp
  then have "replicate n (0 :: u8) = replicate 8 0 @ replicate 8 0 @ replicate (n - 16) 0"
    by (metis replicate_add)
  then have "copy_into (replicate n 0) 0 8 ?h =
      Returns (?h @ replicate 8 0 @ replicate (n - 16) 0)"
    using copy_into_append [of 0 "[]" 8 ?h "replicate 8 0"] by simp
  moreover have "copy_into (?h @ replicate 8 0 @ replicate (n - 16) 0) 8 16 (u64_to_be_bytes addr)
      = Returns (?h @ u64_to_be_bytes addr @ replicate (n - 16) 0)"
    by (intro copy_into_append) simp_all
  ultimately show ?thesis by (simp add: put_header_address_def)
qed

text \<open>Filling the zeroed tail behind header and address.\<close>

lemma copy_after_address:
  "length h = 8 \<Longrightarrow> length a = 8 \<Longrightarrow> n = length d \<Longrightarrow> hi = 16 + length d \<Longrightarrow>
     copy_into (h @ a @ replicate n x) 16 hi d = Returns (h @ a @ d)"
  using copy_into_append [of 16 "h @ a" "16 + length d" d "replicate (length d) x" "[]"] by simp

section \<open>A specification of the encoded operations\<close>

text \<open>Channel and opcode of each operation, by the TileLink specification's message tables.\<close>

fun tl_opcode :: "TLOperations \<Rightarrow> OmnixtendChannel \<times> u8" where
  "tl_opcode (Release _) = (Chan_C, 6)"
| "tl_opcode (ReleaseData _) = (Chan_C, 7)"
| "tl_opcode (AcquireBlock _) = (Chan_A, 6)"
| "tl_opcode (AcquirePerm _) = (Chan_A, 7)"
| "tl_opcode (ReadLen _) = (Chan_A, 4)"
| "tl_opcode (WriteLen _) = (Chan_A, 0)"
| "tl_opcode (Read _) = (Chan_A, 4)"
| "tl_opcode (Write _) = (Chan_A, 0)"
| "tl_opcode (GrantAck _) = (Chan_E, 0)"
| "tl_opcode (ProbeAck _) = (Chan_C, 4)"
| "tl_opcode (ProbeAckData _) = (Chan_C, 5)"
| "tl_opcode (WritePartial _) = (Chan_A, 1)"

fun tl_address :: "TLOperations \<Rightarrow> u64" where
  "tl_address (Release r) = release_address r"
| "tl_address (ReleaseData r) = release_address (rd_release r)"
| "tl_address (AcquireBlock r) = perm_address r"
| "tl_address (AcquirePerm r) = perm_address r"
| "tl_address (ReadLen r) = readlen_address r"
| "tl_address (WriteLen r) = writelen_address r"
| "tl_address (Read r) = read_address r"
| "tl_address (Write r) = write_address r"
| "tl_address (GrantAck _) = 0"
| "tl_address (ProbeAck r) = probe_address r"
| "tl_address (ProbeAckData r) = probe_address (pd_probe r)"
| "tl_address (WritePartial r) = partial_address r"

text \<open>The number of bytes an operation is about; a probe acknowledgement without data
  repeats the size field of the probe.\<close>

fun tl_bytes :: "TLOperations \<Rightarrow> nat" where
  "tl_bytes (Release r) = unat (release_len r)"
| "tl_bytes (ReleaseData r) = length (rd_data r)"
| "tl_bytes (AcquireBlock r) = unat (perm_len r)"
| "tl_bytes (AcquirePerm r) = unat (perm_len r)"
| "tl_bytes (ReadLen r) = unat (readlen_bytes r)"
| "tl_bytes (WriteLen r) = length (writelen_data r)"
| "tl_bytes (Read r) = 8"
| "tl_bytes (Write r) = 8"
| "tl_bytes (GrantAck _) = 0"
| "tl_bytes (ProbeAck r) = 2 ^ unat (probe_size r)"
| "tl_bytes (ProbeAckData r) = length (pd_data r)"
| "tl_bytes (WritePartial r) = next_power_of_two (length (partial_data r))"

fun tl_param :: "TLOperations \<Rightarrow> u8" where
  "tl_param (Release r) = get_permission_change (perm_from r) (perm_to r)"
| "tl_param (ReleaseData r) =
     get_permission_change (perm_from (rd_release r)) (perm_to (rd_release r))"
| "tl_param (AcquireBlock r) = grow_as_u8 (perm_permissions r)"
| "tl_param (AcquirePerm r) = grow_as_u8 (perm_permissions r)"
| "tl_param (ProbeAck r) = permission_change r"
| "tl_param (ProbeAckData r) = permission_change (pd_probe r)"
| "tl_param _ = 0"

text \<open>The bytes that follow the address, where the operation carries its data verbatim.\<close>

fun tl_payload :: "TLOperations \<Rightarrow> bytes" where
  "tl_payload (ReleaseData r) = rd_data r"
| "tl_payload (WriteLen r) = writelen_data r"
| "tl_payload (Write r) = u64_to_ne_bytes (write_data r)"
| "tl_payload (ProbeAckData r) = pd_data r"
| "tl_payload _ = []"

fun is_partial :: "TLOperations \<Rightarrow> bool" where
  "is_partial (WritePartial _) = True"
| "is_partial _ = False"

fun is_grant_ack :: "TLOperations \<Rightarrow> bool" where
  "is_grant_ack (GrantAck _) = True"
| "is_grant_ack _ = False"

text \<open>Operations whose length the code requires to be a power of two.\<close>

fun needs_pow2 :: "TLOperations \<Rightarrow> bool" where
  "needs_pow2 (ReadLen _) = False"
| "needs_pow2 (GrantAck _) = False"
| "needs_pow2 (ProbeAck _) = False"
| "needs_pow2 (WritePartial _) = False"
| "needs_pow2 _ = True"

definition tl_header :: "TLOperations \<Rightarrow> u32 \<Rightarrow> ChanABCDTilelinkMessage" where
  "tl_header oper source =
     \<lparr>abcd_chan = fst (tl_opcode oper), abcd_opcode = snd (tl_opcode oper),
      abcd_param = tl_param oper,
      abcd_size = (case oper of ProbeAck r \<Rightarrow> probe_size r | _ \<Rightarrow> log2_as_u8 (tl_bytes oper)),
      abcd_domain = 0, abcd_err = 0, abcd_source = source\<rparr>"

lemmas pack_defs = pack_operation_def pack_release_def pack_release_data_def
  pack_acquire_block_def pack_acquire_perm_def pack_read_len_def pack_write_len_def
  pack_read_64_def pack_write_64_def pack_probe_def pack_probe_data_def

lemma log2_fract_zero_8: "log2_fract_zero 8"
  unfolding log2_fract_zero_iff by (rule exI [of _ 3]) simp

lemma pack_operation_layout:
  assumes "\<not> is_grant_ack oper" "\<not> is_partial oper"
  shows "pack_operation \<lparr>os_operation = oper, os_source = source\<rparr> =
    Returns (if needs_pow2 oper \<and> \<not> log2_fract_zero (tl_bytes oper)
      then Err (NotPowTwo (of_nat (tl_bytes oper)))
      else Ok (u64_to_be_bytes (u64_from_abcd (tl_header oper source)) @
        u64_to_be_bytes (tl_address oper) @ tl_payload oper))"
  using assms
  by (cases oper)
    (simp_all add: pack_defs put_header_address_layout copy_after_address tl_header_def Let_def
      log2_fract_zero_8)

section \<open>Byte masks of partial writes\<close>

lemma partial_mask_loop_0:
  "partial_mask_loop msk 0 is = foldl (\<lambda>m i. m[i := 0]) msk is"
  by (induction "is" arbitrary: msk) auto

lemma nth_foldl_zero:
  "i < length m \<Longrightarrow> foldl (\<lambda>m i. m[i := 0 :: u64]) m is ! i = (if i \<in> set is then 0 else m ! i)"
  by (induction "is" arbitrary: m) (auto simp: nth_list_update)

lemma length_partial_mask_loop [simp]: "length (partial_mask_loop msk left is) = length msk"
  by (induction msk left "is" rule: partial_mask_loop.induct) auto

lemma length_partial_masks [simp]:
  "length (partial_masks len) = partial_mask_len (next_power_of_two len)"
  by (simp add: partial_masks_def Let_def)

lemma nth_partial_masks:
  assumes "i < partial_mask_len (next_power_of_two len)"
  shows "partial_masks len ! i =
    (if i < len div 64 then - 1
     else if i = len div 64 \<and> len mod 64 \<noteq> 0 then - 1 - (push_bit (len mod 64) 1 - 1) else 0)"
proof -
  let ?n = "partial_mask_len (next_power_of_two len)" and ?k = "len div 64" and ?l = "len mod 64"
  show ?thesis
  proof (cases "?l = 0")
    case True
    then show ?thesis using assms
      by (simp add: partial_masks_def Let_def partial_mask_loop_0 nth_foldl_zero)
  next
    case False
    show ?thesis
    proof (cases "?k < ?n")
      case True
      have "partial_masks len = foldl (\<lambda>m i. m[i := 0])
          ((replicate ?n (- 1))[?k := - 1 - (push_bit ?l 1 - 1)]) [Suc ?k..<?n]"
        using True False by (simp add: partial_masks_def Let_def upt_conv_Cons partial_mask_loop_0)
      then show ?thesis using assms False
        by (auto simp: nth_foldl_zero nth_list_update)
    next
      assume "\<not> ?k < ?n"
      then show ?thesis using assms by (simp add: partial_masks_def Let_def)
    qed
  qed
qed

lemma bit_complement_low:
  "bit (- 1 - (push_bit l 1 - 1) :: u64) j \<longleftrightarrow> j < 64 \<and> l \<le> j"
proof -
  have "- 1 - (push_bit l 1 - 1) = NOT (push_bit l 1 - 1 :: u64)"
    by (simp add: not_eq_complement)
  then show ?thesis
    unfolding \<open>- 1 - (push_bit l 1 - 1) = NOT (push_bit l 1 - 1)\<close> bit_not_iff bit_low_bits
    by auto
qed

section \<open>Layout of partial writes\<close>

text \<open>The flits behind the address: a mask flit before every eight data flits.\<close>

fun interleave :: "nat \<Rightarrow> u64 list \<Rightarrow> u64 list \<Rightarrow> u64 list" where
  "interleave c msk [] = []"
| "interleave c msk (d # ds) =
     (if c = 0 then hd msk # d # interleave ((c + 1) mod 8) (tl msk) ds
      else d # interleave ((c + 1) mod 8) msk ds)"

fun groups :: "nat \<Rightarrow> nat \<Rightarrow> nat" where
  "groups c 0 = 0"
| "groups c (Suc n) = (if c = 0 then 1 else 0) + groups ((c + 1) mod 8) n"

lemma groups_eq: "c < 8 \<Longrightarrow> groups c n = (c + n + 7) div 8 - (c + 7) div 8"
proof (induction n arbitrary: c)
  case 0
  show ?case by simp
next
  case (Suc n)
  show ?case
  proof (cases "c = 7")
    case True
    with Suc.IH [of 0] show ?thesis by simp
  next
    case False
    with Suc.prems have "(c + 1) mod 8 = c + 1" "c + 1 < 8" by auto
    moreover have "(c + 7) div 8 = (if c = 0 then 0 else 1)" "(c + 1 + 7) div 8 = 1"
      using Suc.prems False by (auto simp: div_if)
    ultimately show ?thesis using Suc.IH [of "c + 1"] by (auto simp: add.commute)
  qed
qed

lemma length_interleave: "length (interleave c msk ds) = length ds + groups c (length ds)"
  by (induction c msk ds rule: interleave.induct) auto

lemma take_copy_step:
  "base + 8 \<le> length buf \<Longrightarrow> length d = 8 \<Longrightarrow>
     copy_into buf base (base + 8) d = Returns (take base buf @ d @ drop (base + 8) buf)"
  by (simp add: copy_into_def)

lemma partial_fill_layout:
  assumes "groups c (length ds) \<le> length msk"
    and "base + 8 * length (interleave c msk ds) \<le> length buf"
  shows "partial_fill buf base c msk ds = Returns (take base buf @
    concat (map u64_to_ne_bytes (interleave c msk ds)) @
    drop (base + 8 * length (interleave c msk ds)) buf)"
  using assms
proof (induction ds arbitrary: buf base c msk)
  case Nil
  show ?case by simp
next
  case (Cons d ds)
  show ?case
  proof (cases "c = 0")
    case True
    from Cons.prems(1) True obtain m ms where msk: "msk = m # ms" by (cases msk) auto
    let ?buf1 = "take base buf @ u64_to_ne_bytes m @ drop (base + 8) buf"
    let ?buf2 = "take (base + 8) ?buf1 @ u64_to_ne_bytes d @ drop (base + 8 + 8) ?buf1"
    have room: "base + 16 \<le> length buf" using Cons.prems(2) True msk by simp
    have "partial_fill buf base c msk (d # ds) = partial_fill ?buf2 (base + 16) 1 ms ds"
      using True msk room take_copy_step [of base buf "u64_to_ne_bytes m"]
        take_copy_step [of "base + 8" ?buf1 "u64_to_ne_bytes d"]
      by (simp add: add.assoc)
    moreover have "length ?buf2 = length buf" "take (base + 16) ?buf2 =
        take base buf @ u64_to_ne_bytes m @ u64_to_ne_bytes d"
      "drop (base + 16 + k) ?buf2 = drop (base + 16 + k) buf" for k
      using room by (simp_all add: ac_simps)
    ultimately show ?thesis
      using Cons.IH [of 1 ms "base + 16" ?buf2] Cons.prems True msk
      by (simp add: add.assoc [symmetric])
  next
    case False
    let ?buf1 = "take base buf @ u64_to_ne_bytes d @ drop (base + 8) buf"
    have room: "base + 8 \<le> length buf" using Cons.prems(2) False by simp
    have "partial_fill buf base c msk (d # ds) =
        partial_fill ?buf1 (base + 8) ((c + 1) mod 8) msk ds"
      using False room take_copy_step [of base buf "u64_to_ne_bytes d"] by simp
    moreover have "length ?buf1 = length buf" "take (base + 8) ?buf1 = take base buf @ u64_to_ne_bytes d"
      "drop (base + 8 + k) ?buf1 = drop (base + 8 + k) buf" for k
      using room by (simp_all add: ac_simps)
    ultimately show ?thesis
      using Cons.IH [of "(c + 1) mod 8" msk "base + 8" ?buf1] Cons.prems False
      by (simp add: add.assoc [symmetric])
  qed
qed

text \<open>Where the rounded-up length reaches a flit, the buffer has room for every flit.\<close>

lemma next_power_of_two_8:
  assumes "5 \<le> len"
  shows "8 dvd next_power_of_two len" "8 \<le> next_power_of_two len"
proof -
  obtain k where k: "next_power_of_two len = 2 ^ k" using next_power_of_two_is_pow2 by blast
  have "\<not> 2 ^ k \<le> (2 :: nat) ^ 2" using next_power_of_two_ge [of len] assms k by simp
  then have "\<not> k \<le> 2" by (metis one_le_numeral power_increasing)
  then have "(2 :: nat) ^ 3 \<le> 2 ^ k" by (intro power_increasing) auto
  then show "8 \<le> next_power_of_two len" using k by simp
  with k show "8 dvd next_power_of_two len" using pow2_dvd_pow2 [of 3 k] by simp
qed

lemma partial_room:
  assumes "5 \<le> len"
  shows "(len + 7) div 8 \<le> next_power_of_two len div 8"
    and "((len + 7) div 8 + 7) div 8 \<le> partial_mask_len (next_power_of_two len)"
proof -
  let ?p = "next_power_of_two len"
  have p: "len \<le> ?p" "8 dvd ?p" "8 \<le> ?p"
    using next_power_of_two_ge next_power_of_two_8 [OF assms] by auto
  then show flits: "(len + 7) div 8 \<le> ?p div 8" by (auto elim!: dvdE)
  obtain k where k: "?p = 2 ^ k" using next_power_of_two_is_pow2 by blast
  show "((len + 7) div 8 + 7) div 8 \<le> partial_mask_len ?p"
  proof (cases "?p < 64")
    case True
    then have "?p div 8 < 8" by (simp add: less_mult_imp_div_less)
    with flits have "((len + 7) div 8 + 7) div 8 \<le> 1" by simp
    then show ?thesis by (simp add: partial_mask_len_def Let_def)
  next
    case False
    then have "(2 :: nat) ^ 6 \<le> 2 ^ k" using k by simp
    then have "64 dvd ?p" using pow2_dvd_pow2 [of 6 k] k by simp
    then obtain q where q: "?p = 64 * q" by (rule dvdE)
    moreover have "0 < q" using q p by (cases q) auto
    ultimately show ?thesis using flits by (simp add: partial_mask_len_def Let_def)
  qed
qed

text \<open>The flits a partial write puts behind the address, and the bytes they occupy.\<close>

definition partial_flits :: "WriteOpPartial \<Rightarrow> u64 list" where
  "partial_flits r =
     interleave 0 (partial_masks (length (partial_data r))) (chunkize_packet (partial_data r))"

definition partial_total :: "WriteOpPartial \<Rightarrow> nat" where
  "partial_total r =
     (let p = next_power_of_two (length (partial_data r)) in 2 + partial_mask_len p + p div 8)"

lemma length_partial_flits:
  "5 \<le> length (partial_data r) \<Longrightarrow> 2 + length (partial_flits r) \<le> partial_total r"
  using partial_room [of "length (partial_data r)"]
  by (simp add: partial_flits_def partial_total_def Let_def length_interleave groups_eq
      length_chunkize)

lemma pack_write_partial_layout:
  assumes len: "5 \<le> length (partial_data r)"
  shows "pack_write_partial r source = Returns (Ok
      (u64_to_be_bytes (u64_from_abcd (tl_header (WritePartial r) source)) @
       u64_to_be_bytes (partial_address r) @ concat (map u64_to_ne_bytes (partial_flits r)) @
       replicate (8 * (partial_total r - 2 - length (partial_flits r))) 0))"
proof -
  let ?d = "partial_data r" and ?m = "partial_masks (length (partial_data r))"
  let ?h = "u64_to_be_bytes (u64_from_abcd (tl_header (WritePartial r) source)) @
    u64_to_be_bytes (partial_address r)"
  let ?z = "replicate (partial_total r * 8 - 16) 0 :: bytes"
  have pt: "2 \<le> partial_total r" by (simp add: partial_total_def Let_def)
  have "groups 0 (length (chunkize_packet ?d)) \<le> length ?m"
    using partial_room(2) [OF len] by (simp add: groups_eq length_chunkize)
  moreover have room: "16 + 8 * length (partial_flits r) \<le> length (?h @ ?z)"
    using length_partial_flits [OF len] by simp
  ultimately have "partial_fill (?h @ ?z) 16 0 ?m (chunkize_packet ?d) = Returns (?h @
      concat (map u64_to_ne_bytes (partial_flits r)) @ drop (16 + 8 * length (partial_flits r)) (?h @ ?z))"
    by (subst partial_fill_layout) (simp_all add: partial_flits_def)
  moreover have "drop (16 + 8 * length (partial_flits r)) (?h @ ?z) =
      replicate (8 * (partial_total r - 2 - length (partial_flits r))) 0"
    by (simp add: diff_mult_distrib2 mult.commute)
  moreover have "put_header_address (partial_total r * 8)
      (ChanABCD (tl_header (WritePartial r) source)) (partial_address r) = Returns (?h @ ?z)"
    using pt by (simp add: put_header_address_layout)
  ultimately show ?thesis
    by (simp add: pack_write_partial_def Let_def partial_total_def tl_header_def)
qed

lemma pack_write_partial_tiny:
  assumes "1 \<le> length (partial_data r)" "length (partial_data r) \<le> 4"
  shows "pack_write_partial r source = Panics SliceOutOfRange"
proof -
  let ?n = "length (partial_data r)"
  have "next_power_of_two ?n \<le> 2 ^ 2" using assms by (intro next_power_of_two_least) simp
  then have np: "next_power_of_two ?n div 8 = 0" "partial_mask_len (next_power_of_two ?n) = 1"
    by (auto simp: partial_mask_len_def Let_def)
  obtain m where m: "partial_masks ?n = [m]"
    using length_partial_masks [of ?n] np by (metis One_nat_def length_0_conv length_Suc_conv)
  obtain d where d: "chunkize_packet (partial_data r) = [d]"
    using assms chunkize_short [of "partial_data r"] by (cases "partial_data r") auto
  let ?h = "\<lambda>w. u64_to_be_bytes w @ u64_to_be_bytes (partial_address r)"
  have h: "put_header_address 24 hdr (partial_address r) = Returns (?h (u64_from_tilelink hdr) @ replicate 8 0)" for hdr
    by (simp add: put_header_address_layout)
  have "copy_into (?h w @ replicate 8 0) 16 24 (u64_to_ne_bytes m) =
      Returns (?h w @ u64_to_ne_bytes m)" for w
    unfolding append_assoc by (rule copy_after_address) simp_all
  moreover have "copy_into (?h w @ u64_to_ne_bytes m) 24 32 (u64_to_ne_bytes d) =
      Panics SliceOutOfRange" for w
    by (simp add: copy_into_def)
  ultimately have "partial_fill (?h w @ replicate 8 0) 16 0 [m] [d] = Panics SliceOutOfRange" for w
    by (simp del: append_assoc)
  then show ?thesis
    by (simp add: pack_write_partial_def Let_def np m d h del: append_assoc partial_fill.simps)
qed

text \<open>Whatever the data, the fill loop keeps the length and the bytes before its start.\<close>

lemma copy_into_prefix:
  "copy_into buf lo hi d = Returns buf' \<Longrightarrow> k \<le> lo \<Longrightarrow>
     length buf' = length buf \<and> take k buf' = take k buf"
  by (auto simp: copy_into_def min_def split: if_splits)

lemma partial_fill_prefix:
  "partial_fill buf base c msk ds = Returns buf' \<Longrightarrow> k \<le> base \<Longrightarrow>
     length buf' = length buf \<and> take k buf' = take k buf"
proof (induction buf base c msk ds rule: partial_fill.induct)
  case (1 buf base c msk)
  then show ?case by simp
next
  case (2 buf base c msk d ds)
  from "2.prems"(1) obtain buf1 base1 msk1 buf2 where
    s: "(if c = 0 then (case msk of [] \<Rightarrow> Panics UnwrapOnNone
         | m # msk \<Rightarrow> and_then (copy_into buf base (base + 8) (u64_to_ne_bytes m))
             (\<lambda>buf. Returns (buf, base + 8, msk)))
       else Returns (buf, base, msk)) = Returns (buf1, base1, msk1)"
    and c: "copy_into buf1 base1 (base1 + 8) (u64_to_ne_bytes d) = Returns buf2"
    and f: "partial_fill buf2 (base1 + 8) ((c + 1) mod 8) msk1 ds = Returns buf'"
    by (auto simp: and_then_Returns_iff)
  have b: "base \<le> base1" "length buf1 = length buf \<and> take k buf1 = take k buf"
    using s "2.prems"(2) copy_into_prefix [of buf base "base + 8" _ buf1 k]
    by (auto simp: and_then_Returns_iff split: if_splits list.splits)
  have "length buf2 = length buf1 \<and> take k buf2 = take k buf1"
    using copy_into_prefix [OF c] b "2.prems"(2) by simp
  moreover have "length buf' = length buf2 \<and> take k buf' = take k buf2"
    using "2.IH" [OF f] b "2.prems"(2) by simp
  ultimately show ?case using b by simp
qed

lemma pack_write_partial_prefix:
  assumes "pack_write_partial r source = Returns (Ok buf)"
  shows "length buf = 8 * partial_total r"
    and "take 16 buf = u64_to_be_bytes (u64_from_abcd (tl_header (WritePartial r) source)) @
      u64_to_be_bytes (partial_address r)"
proof -
  let ?h = "u64_to_be_bytes (u64_from_abcd (tl_header (WritePartial r) source)) @
    u64_to_be_bytes (partial_address r)"
  let ?b = "?h @ replicate (partial_total r * 8 - 16) 0"
  have pt: "2 \<le> partial_total r" by (simp add: partial_total_def Let_def)
  have "put_header_address (partial_total r * 8)
      (ChanABCD (tl_header (WritePartial r) source)) (partial_address r) = Returns ?b"
    using pt by (simp add: put_header_address_layout)
  then have "partial_fill ?b 16 0 (partial_masks (length (partial_data r)))
      (chunkize_packet (partial_data r)) = Returns buf"
    using assms by (auto simp: pack_write_partial_def Let_def partial_total_def tl_header_def
        and_then_Returns_iff)
  from partial_fill_prefix [OF this, of 16] pt
  show "length buf = 8 * partial_total r" and "take 16 buf = ?h" by simp_all
qed

lemma interleave_step:
  assumes "length ds = 8"
  shows "interleave 0 (m # ms) (ds @ rest) = m # ds @ interleave 0 ms rest"
proof -
  obtain a b c d e f g h where "ds = [a, b, c, d, e, f, g, h]"
    using assms by (auto simp: length_Suc_conv numeral_eq_Suc)
  then show ?thesis by simp
qed

lemma interleave_mask_nth:
  "8 * g < length ds \<Longrightarrow> g < length ms \<Longrightarrow> interleave 0 ms ds ! (9 * g) = ms ! g"
proof (induction g arbitrary: ms ds)
  case 0
  then show ?case by (cases ds; cases ms) auto
next
  case (Suc g)
  obtain m ms' where ms: "ms = m # ms'" using Suc.prems(2) by (cases ms) auto
  have "interleave 0 ms ds = m # take 8 ds @ interleave 0 ms' (drop 8 ds)"
    using interleave_step [of "take 8 ds" m ms' "drop 8 ds"] Suc.prems(1) ms by simp
  moreover have "interleave 0 ms' (drop 8 ds) ! (9 * g) = ms' ! g"
    using Suc.prems ms by (intro Suc.IH) auto
  ultimately show ?case using ms Suc.prems(1) by (simp add: nth_append)
qed

lemma take_concat_u64:
  "k < length xs \<Longrightarrow> take 8 (drop (8 * k) (concat (map u64_to_ne_bytes xs) @ z)) = u64_to_ne_bytes (xs ! k)"
proof (induction k arbitrary: xs)
  case 0
  then show ?case by (cases xs) auto
next
  case (Suc k)
  then show ?case by (cases xs) auto
qed

text \<open>Byte \<open>i\<close> of the data of a partial write stands behind the mask flit of its group.\<close>

lemma interleave_nth_first:
  "0 < c \<Longrightarrow> c + k < 8 \<Longrightarrow> k < length ds \<Longrightarrow> interleave c ms ds ! k = ds ! k"
proof (induction k arbitrary: c ds)
  case 0
  then show ?case by (cases ds) auto
next
  case (Suc k)
  then show ?case by (cases ds) auto
qed

lemma interleave_data_nth:
  "8 * g + k < length ds \<Longrightarrow> k < 8 \<Longrightarrow> g < length ms \<Longrightarrow>
     interleave 0 ms ds ! Suc (9 * g + k) = ds ! (8 * g + k)"
proof (induction g arbitrary: ms ds)
  case 0
  then show ?case by (cases ds; cases ms; cases k) (auto simp: interleave_nth_first)
next
  case (Suc g)
  obtain m ms' where ms: "ms = m # ms'" using Suc.prems(3) by (cases ms) auto
  have "interleave 0 ms ds = m # take 8 ds @ interleave 0 ms' (drop 8 ds)"
    using interleave_step [of "take 8 ds" m ms' "drop 8 ds"] Suc.prems(1) ms by simp
  moreover have "interleave 0 ms' (drop 8 ds) ! Suc (9 * g + k) = drop 8 ds ! (8 * g + k)"
    using Suc.prems ms by (intro Suc.IH) auto
  ultimately show ?case using Suc.prems(1) by (simp add: nth_append ac_simps)
qed

lemma chunkize_byte:
  assumes "i < length p"
  shows "u64_to_ne_bytes (chunkize_packet p ! (i div 8)) ! (i mod 8) = p ! i"
proof -
  have "i div 8 < length (chunkize_packet p)" using assms by (simp add: length_chunkize)
  from take_concat_u64 [OF this, of "[]"]
  have "u64_to_ne_bytes (chunkize_packet p ! (i div 8)) = take 8 (drop (8 * (i div 8)) (p @ replicate (pad_len (length p)) 0))"
    by (simp add: unchunk)
  then have "u64_to_ne_bytes (chunkize_packet p ! (i div 8)) ! (i mod 8) =
      (p @ replicate (pad_len (length p)) 0) ! (8 * (i div 8) + i mod 8)"
    using assms by (simp only: nth_take) (subst nth_drop, simp_all)
  then show ?thesis using assms by (simp only: mult_div_mod_eq nth_append if_True)
qed

lemma pack_write_partial_data:
  assumes "pack_write_partial r source = Returns (Ok buf)" "i < length (partial_data r)"
  shows "buf ! (24 + 72 * (i div 64) + i mod 64) = partial_data r ! i"
proof -
  let ?d = "partial_data r" and ?m = "partial_masks (length (partial_data r))"
  let ?g = "i div 64" and ?k = "i mod 64 div 8"
  have len: "5 \<le> length ?d"
    using assms pack_write_partial_tiny [of r source] by (cases "5 \<le> length ?d") auto
  have q: "i div 8 = 8 * ?g + ?k" by (simp add: div_mult2_eq [of i 8 8, simplified] mod_mult2_eq [of i 8 8, simplified])
  have k: "8 * ?g + ?k < length (chunkize_packet ?d)"
    using assms(2) by (simp add: length_chunkize flip: q)
  then have "?g < groups 0 (length (chunkize_packet ?d))" by (simp add: groups_eq)
  also have "\<dots> \<le> length ?m"
    using partial_room(2) [OF len] by (simp add: groups_eq length_chunkize)
  finally have f: "partial_flits r ! Suc (9 * ?g + ?k) = chunkize_packet ?d ! (i div 8)"
    using k unfolding partial_flits_def q by (intro interleave_data_nth) simp_all
  have "Suc (9 * ?g + ?k) < length (partial_flits r)"
    using k by (simp add: partial_flits_def length_interleave groups_eq)
  note flit = take_concat_u64 [OF this, unfolded f]
  obtain h z where buf: "buf = h @ concat (map u64_to_ne_bytes (partial_flits r)) @ z" "length h = 16"
    using assms(1) pack_write_partial_layout [OF len, of source]
    by (metis append_assoc length_append length_u64_to_bytes(2) outcome.inject result.inject(1)
        numeral_Bit0)
  let ?c = "concat (map u64_to_ne_bytes (partial_flits r)) @ z"
  have "buf ! (24 + 72 * ?g + i mod 64) = ?c ! (8 * Suc (9 * ?g + ?k) + i mod 8)"
  proof -
    have "i mod 64 = 8 * ?k + i mod 8" using mod_mult2_eq [of i 8 8] by simp
    then have "24 + 72 * ?g + i mod 64 = 16 + (8 * Suc (9 * ?g + ?k) + i mod 8)" by simp
    then show ?thesis by (simp only: buf(1) nth_append_length_plus flip: buf(2))
  qed
  also have "\<dots> = take 8 (drop (8 * Suc (9 * ?g + ?k)) ?c) ! (i mod 8)"
  proof -
    have "8 * Suc (9 * ?g + ?k) \<le> 8 * length (partial_flits r)"
      using \<open>Suc (9 * ?g + ?k) < length (partial_flits r)\<close> by (intro mult_le_mono2) simp
    then have "8 * Suc (9 * ?g + ?k) \<le> length ?c" by (simp add: length_concat comp_def sum_list_triv)
    then show ?thesis by (simp only: nth_take nth_drop mod_less_divisor zero_less_numeral)
  qed
  finally show ?thesis using chunkize_byte [OF assms(2)] by (simp only: flit)
qed

section \<open>The encoded operation against its specification\<close>

lemma pack_grant_ack_bytes:
  "pack_operation \<lparr>os_operation = GrantAck sink, os_source = src\<rparr> =
     Returns (Ok (u64_to_be_bytes (u64_from_e \<lparr>e_chan = Chan_E, e_sink = sink\<rparr>)))"
  by (simp add: pack_operation_def pack_grant_ack_def copy_into_def)

text \<open>The fields of an operation fit the header.\<close>

definition tl_fits :: "TLOperations \<Rightarrow> u32 \<Rightarrow> bool" where
  "tl_fits oper source \<longleftrightarrow> source < 67108864 \<and> tl_bytes oper \<le> 2 ^ 15 \<and> tl_param oper < 16 \<and>
     (case oper of GrantAck sink \<Rightarrow> sink < 67108864 | _ \<Rightarrow> True)"

lemma floor_log2_le: "n \<le> 2 ^ k \<Longrightarrow> floor_log2 n \<le> k"
proof (cases "n = 0")
  case True
  then show ?thesis by (simp add: floor_log2.simps)
next
  case False
  assume n: "n \<le> 2 ^ k"
  with False have "2 ^ floor_log2 n \<le> (2 :: nat) ^ k"
    using floor_log2_bounds [of n] by linarith
  then show ?thesis by (rule power_le_imp_le_exp [rotated]) simp
qed

lemma log2_as_u8_small:
  assumes "n \<le> 2 ^ 15"
  shows "unat (log2_as_u8 n) = floor_log2 n" "log2_as_u8 n < 16"
proof -
  have "floor_log2 n < 16" using floor_log2_le [OF assms] by simp
  then show "unat (log2_as_u8 n) = floor_log2 n" by (simp add: log2_as_u8_def unat_of_nat)
  with \<open>floor_log2 n < 16\<close> show "log2_as_u8 n < 16" by (simp add: word_less_nat_alt)
qed

lemma tl_header_fits:
  assumes "tl_fits oper source" "\<not> is_grant_ack oper"
  shows "abcd_fits (tl_header oper source)"
proof -
  have "unat s < 16" if "2 ^ unat s \<le> (2 :: nat) ^ 15" for s :: u8
    using power_le_imp_le_exp [OF _ that] by simp
  moreover have "snd (tl_opcode oper) < 8" by (cases oper) simp_all
  ultimately show ?thesis
    using assms log2_as_u8_small
    by (auto simp: tl_fits_def abcd_fits_def tl_header_def word_less_nat_alt split: TLOperations.splits)
qed

lemma pack_operation_prefix:
  assumes "pack_operation \<lparr>os_operation = oper, os_source = source\<rparr> = Returns (Ok buf)"
    and "\<not> is_grant_ack oper"
  shows "take 16 buf = u64_to_be_bytes (u64_from_abcd (tl_header oper source)) @
      u64_to_be_bytes (tl_address oper)"
proof (cases "is_partial oper")
  case True
  with assms show ?thesis
    by (cases oper) (simp_all add: pack_operation_def pack_write_partial_prefix)
next
  case False
  with assms pack_operation_layout [OF assms(2) False, of source] show ?thesis
    by (auto split: if_splits)
qed

lemma pack_operation_abcd:
  assumes "pack_operation \<lparr>os_operation = oper, os_source = source\<rparr> = Returns (Ok buf)"
    and "\<not> is_grant_ack oper" and "tl_fits oper source"
  shows "abcd_from_u64 (u64_from_be_bytes (take 8 buf)) = Returns (tl_header oper source)"
    and "u64_from_be_bytes (take 8 (drop 8 buf)) = tl_address oper"
    and "\<not> is_partial oper \<Longrightarrow> drop 16 buf = tl_payload oper"
    and "needs_pow2 oper \<Longrightarrow> 2 ^ unat (abcd_size (tl_header oper source)) = tl_bytes oper"
proof -
  note pre = pack_operation_prefix [OF assms(1,2)]
  have "take 8 buf = u64_to_be_bytes (u64_from_abcd (tl_header oper source))"
    using arg_cong [OF pre, of "take 8"] by simp
  then show "abcd_from_u64 (u64_from_be_bytes (take 8 buf)) = Returns (tl_header oper source)"
    using tl_header_fits [OF assms(3,2)] by (simp add: abcd_decode_encode_fits)
  have "take 8 (drop 8 buf) = u64_to_be_bytes (tl_address oper)"
    using arg_cong [OF pre, of "drop 8"] by (simp add: drop_take)
  then show "u64_from_be_bytes (take 8 (drop 8 buf)) = tl_address oper" by simp
  show "drop 16 buf = tl_payload oper" if "\<not> is_partial oper"
    using assms(1) pack_operation_layout [OF assms(2) that, of source] by (auto split: if_splits)
  assume n: "needs_pow2 oper"
  then have "\<not> is_partial oper" by (cases oper) simp_all
  then have "log2_fract_zero (tl_bytes oper)"
    using assms(1) pack_operation_layout [OF assms(2), of source] n by (auto split: if_splits)
  moreover have "abcd_size (tl_header oper source) = log2_as_u8 (tl_bytes oper)"
    using n by (cases oper) (simp_all add: tl_header_def)
  ultimately show "2 ^ unat (abcd_size (tl_header oper source)) = tl_bytes oper"
    using assms(3) log2_as_u8_small(1) [of "tl_bytes oper"]
    by (auto simp: tl_fits_def log2_fract_zero_def)
qed

text \<open>
  C18. An encoded operation whose fields fit the header (a source or sink id of 26 bits, at most
  32768 bytes, a parameter below 16). The acknowledgement of a grant is one flit that decodes to
  its sink. For every other operation the first 16 bytes decode to its channel, opcode,
  permission parameter, size, source id and address. Behind them an operation with data other
  than a partial write carries the data itself and nothing else, and one without data carries
  nothing; a partial write carries byte \<open>i\<close> of its data in group \<open>i div 64\<close>, behind the mask
  word of the group. The size is exact wherever the code insists on a power of two.
\<close>

theorem pack_operation_decodes:
  assumes "pack_operation \<lparr>os_operation = oper, os_source = source\<rparr> = Returns (Ok buf)"
    and "tl_fits oper source"
  shows "(case oper of
      GrantAck sink \<Rightarrow> length buf = 8 \<and>
        e_from_u64 (u64_from_be_bytes buf) = Returns \<lparr>e_chan = Chan_E, e_sink = sink\<rparr>
    | _ \<Rightarrow> abcd_from_u64 (u64_from_be_bytes (take 8 buf)) = Returns (tl_header oper source) \<and>
        u64_from_be_bytes (take 8 (drop 8 buf)) = tl_address oper) \<and>
    (case oper of
      GrantAck sink \<Rightarrow> True
    | WritePartial r \<Rightarrow> \<forall>i < length (partial_data r).
        buf ! (24 + 72 * (i div 64) + i mod 64) = partial_data r ! i
    | _ \<Rightarrow> drop 16 buf = tl_payload oper) \<and>
    (needs_pow2 oper \<longrightarrow> 2 ^ unat (abcd_size (tl_header oper source)) = tl_bytes oper)"
proof (cases "is_grant_ack oper")
  case True
  with assms show ?thesis
    by (cases oper) (auto simp: pack_grant_ack_bytes tl_fits_def e_decode_encode_fits)
next
  case False
  note d = pack_operation_abcd [OF assms(1) False assms(2)]
  show ?thesis
    using d False assms(1) pack_write_partial_data
    by (cases oper) (auto simp: pack_operation_def)
qed

definition sample_write :: TLOperations where
  "sample_write = Write \<lparr>write_address = 4096, write_data = 42\<rparr>"

lemma sample_write_packed:
  "pack_operation \<lparr>os_operation = sample_write, os_source = 3\<rparr> = Returns (Ok
     [0x10, 3, 0, 0, 0, 0, 0, 3, 0, 0, 0, 0, 0, 0, 0x10, 0, 42, 0, 0, 0, 0, 0, 0, 0])"
  by code_simp

theorem pack_operation_decodes_witness:
  "abcd_from_u64 (u64_from_be_bytes [0x10, 3, 0, 0, 0, 0, 0, 3]) = Returns (tl_header sample_write 3) \<and>
   u64_from_be_bytes [0, 0, 0, 0, 0, 0, 0x10, 0] = 4096"
  using pack_operation_decodes [OF sample_write_packed]
  by (simp add: sample_write_def tl_fits_def tl_header_def)

lemma unat_two_plus: "k < 536870912 \<Longrightarrow> unat (2 + of_nat k :: u64) = 2 + k"
  using unat_of_nat [of "2 + k", where 'a = 64] by simp

lemma pow2_whole_flits: "log2_fract_zero n \<Longrightarrow> 8 dvd n \<longleftrightarrow> n \<notin> {1, 2, 4}"
proof -
  assume "log2_fract_zero n"
  then obtain k where n: "n = 2 ^ k" by (auto simp: log2_fract_zero_iff)
  show ?thesis
  proof (cases "3 \<le> k")
    case True
    then have "(2 :: nat) ^ 3 dvd 2 ^ k" by (rule le_imp_power_dvd)
    moreover have "(2 :: nat) ^ 3 \<le> 2 ^ k" using True by (rule power_increasing) simp
    ultimately show ?thesis using True by (auto simp: n)
  next
    case False
    then have "k = 0 \<or> k = 1 \<or> k = 2" by linarith
    then show ?thesis by (auto simp: n)
  qed
qed

text \<open>
  C19. Every operation that is encoded is charged on the channel it is sent on, one credit for
  each whole flit it occupies. That is its exact length in flits unless it carries one, two or
  four bytes of data; then the last flit, which these bytes begin, is not charged. Operations
  are shorter than \<open>2 ^ 32\<close> bytes.
\<close>

theorem pack_length_is_credit_cost:
  assumes "pack_operation \<lparr>os_operation = oper, os_source = source\<rparr> = Returns (Ok buf)"
    and "tl_bytes oper < 2 ^ 32"
  shows "fst (op_credits oper) = fst (tl_opcode oper) \<and>
    unat (snd (op_credits oper)) = length buf div 8 \<and>
    (8 dvd length buf \<longleftrightarrow> length (tl_payload oper) \<notin> {1, 2, 4})"
proof (cases oper)
  case (GrantAck sink)
  with assms(1) show ?thesis by (auto simp: pack_grant_ack_bytes)
next
  case (WritePartial r)
  let ?p = "next_power_of_two (length (partial_data r))"
  have p: "?p < 2 ^ 32" using assms(2) WritePartial by simp
  have "partial_mask_len ?p \<le> Suc (?p div 64)" by (simp add: partial_mask_len_def Let_def)
  also have "\<dots> \<le> 2 ^ 32" using p div_le_dividend [of ?p 64] by linarith
  finally have "partial_mask_len ?p \<le> 2 ^ 32" .
  with p have "2 + partial_mask_len ?p + ?p div 8 < 2 ^ 64" by simp
  then have "unat (of_nat (2 + partial_mask_len ?p + ?p div 8) :: u64) = 2 + partial_mask_len ?p + ?p div 8"
    by (simp only: unat_of_nat) simp
  with WritePartial assms(1) show ?thesis
    using pack_write_partial_prefix(1) [of r source buf]
    by (simp add: pack_operation_def Let_def partial_total_def del: of_nat_add)
qed (use assms pack_operation_layout [of oper source] pow2_whole_flits [of "tl_bytes oper"] in
    \<open>auto simp: unat_two_plus Let_def split: if_splits\<close>)

text \<open>The operation with which \<^verbatim>\<open>bitload\<close> sends a last chunk of four bytes: 20 bytes for two credits.\<close>

definition sample_tail :: TLOperations where
  "sample_tail = WriteLen \<lparr>writelen_address = 1024, writelen_data = [1, 2, 3, 4]\<rparr>"

lemma sample_tail_packed:
  "pack_operation \<lparr>os_operation = sample_tail, os_source = 3\<rparr> = Returns (Ok
     [0x10, 2, 0, 0, 0, 0, 0, 3, 0, 0, 0, 0, 0, 0, 4, 0, 1, 2, 3, 4])"
  by code_simp

theorem pack_length_is_credit_cost_witness:
  "op_credits sample_write = (Chan_A, 3) \<and> unat (snd (op_credits sample_write)) = 24 div 8 \<and>
   unat (snd (op_credits sample_tail)) = 20 div 8 \<and> \<not> 8 dvd (20 :: nat)"
  using pack_length_is_credit_cost [OF sample_write_packed] pack_length_is_credit_cost [OF sample_tail_packed]
  by (simp add: sample_write_def sample_tail_def)

section \<open>Findings on partial writes\<close>

lemma group_end: "n = 64 * g + l \<Longrightarrow> l < (64 :: nat) \<Longrightarrow>
  l \<le> j \<longleftrightarrow> 64 * (g + 1) \<le> n \<or> n \<le> 64 * g + j"
  by auto

text \<open>The mask flit of group \<open>g\<close> of an encoded partial write.\<close>

definition partial_mask_at :: "bytes \<Rightarrow> nat \<Rightarrow> u64" where
  "partial_mask_at buf g = u64_from_ne_bytes (take 8 (drop (16 + 72 * g) buf))"

lemma partial_mask_at_eq:
  assumes "pack_write_partial r source = Returns (Ok buf)" "5 \<le> length (partial_data r)"
    and "64 * g < length (partial_data r)"
  shows "partial_mask_at buf g = partial_masks (length (partial_data r)) ! g"
    and "g < partial_mask_len (next_power_of_two (length (partial_data r)))"
proof -
  let ?d = "partial_data r" and ?m = "partial_masks (length (partial_data r))"
  have g8: "8 * g < length (chunkize_packet ?d)" using assms(3) by (simp add: length_chunkize)
  then have "g < groups 0 (length (chunkize_packet ?d))" by (simp add: groups_eq)
  also have "\<dots> \<le> length ?m"
    using partial_room(2) [OF assms(2)] by (simp add: groups_eq length_chunkize)
  finally have g: "g < length ?m" .
  then show "g < partial_mask_len (next_power_of_two (length ?d))" by simp
  have "9 * g < length (partial_flits r)"
    using g8 by (simp add: partial_flits_def length_interleave groups_eq)
  then have "take 8 (drop (8 * (9 * g)) (concat (map u64_to_ne_bytes (partial_flits r)) @ z)) =
      u64_to_ne_bytes (partial_flits r ! (9 * g))" for z
    by (rule take_concat_u64)
  note flit = this
  obtain h z where buf: "buf = h @ concat (map u64_to_ne_bytes (partial_flits r)) @ z" "length h = 16"
    using assms(1) pack_write_partial_layout [OF assms(2), of source]
    by (metis append_assoc length_append length_u64_to_bytes(2) outcome.inject result.inject(1)
        numeral_Bit0)
  have "take 8 (drop (16 + 72 * g) buf) = u64_to_ne_bytes (partial_flits r ! (9 * g))"
    using flit [of z] by (simp add: buf del: drop_append take_append) (simp add: buf)
  then show "partial_mask_at buf g = ?m ! g"
    using interleave_mask_nth [OF g8 g] by (simp add: partial_mask_at_def partial_flits_def)
qed

lemma partial_mask_bit:
  assumes "pack_write_partial r source = Returns (Ok buf)" and "5 \<le> length (partial_data r)"
    and "64 * g < length (partial_data r)" and "j < 64"
  shows "bit (partial_mask_at buf g) j \<longleftrightarrow>
    64 * (g + 1) \<le> length (partial_data r) \<or> length (partial_data r) \<le> 64 * g + j"
proof -
  let ?n = "length (partial_data r)"
  have n: "?n = 64 * (?n div 64) + ?n mod 64" by simp
  have m: "partial_mask_at buf g =
    (if g < ?n div 64 then - 1 else if g = ?n div 64 \<and> ?n mod 64 \<noteq> 0
     then - 1 - (push_bit (?n mod 64) 1 - 1) else 0)"
    using partial_mask_at_eq [OF assms(1-3)] nth_partial_masks by simp
  show ?thesis
  proof (cases "g < ?n div 64")
    case True
    then have "64 * (g + 1) \<le> ?n" by (simp add: less_eq_div_iff_mult_less_eq Suc_le_eq)
    with True m show ?thesis using assms(4) by simp
  next
    case False
    then have g: "g = ?n div 64" "?n mod 64 \<noteq> 0" using assms(3) n by linarith+
    have "bit (partial_mask_at buf g) j \<longleftrightarrow> ?n mod 64 \<le> j"
      unfolding m if_not_P [OF False] using g assms(4) bit_complement_low by simp
    also have "\<dots> \<longleftrightarrow> 64 * (g + 1) \<le> ?n \<or> ?n \<le> 64 * g + j"
      using group_end [of ?n "?n div 64" "?n mod 64" j] n g(1) by simp
    finally show ?thesis .
  qed
qed

text \<open>
  C34. The mask words of a partial write. A group of 64 bytes that the data fills has all mask
  bits set; in the group in which the data ends, the mask bits of the bytes that carry data
  are clear and those of the bytes behind the data are set.
\<close>

theorem partial_write_mask_bits:
  assumes "pack_write_partial r source = Returns (Ok buf)" and "5 \<le> length (partial_data r)"
    and "64 * g < length (partial_data r)" and "j < 64"
  shows "bit (partial_mask_at buf g) j \<longleftrightarrow>
    64 * (g + 1) \<le> length (partial_data r) \<or> length (partial_data r) \<le> 64 * g + j"
  using assms by (rule partial_mask_bit)

text \<open>Five bytes: the mask of the only group is set for the bytes behind the data.\<close>

definition sample_partial :: WriteOpPartial where
  "sample_partial = \<lparr>partial_address = 0, partial_data = [1, 2, 3, 4, 5]\<rparr>"

lemma sample_partial_packed:
  "\<exists>buf. pack_write_partial sample_partial 0 = Returns (Ok buf)"
  using pack_write_partial_layout [of sample_partial 0] by (auto simp: sample_partial_def)

theorem partial_write_mask_bits_witness:
  "\<exists>buf. pack_write_partial sample_partial 0 = Returns (Ok buf) \<and>
     \<not> bit (partial_mask_at buf 0) 4 \<and> bit (partial_mask_at buf 0) 5"
proof -
  obtain buf where buf: "pack_write_partial sample_partial 0 = Returns (Ok buf)"
    using sample_partial_packed by blast
  with partial_write_mask_bits [OF buf, of 0 4] partial_write_mask_bits [OF buf, of 0 5]
  show ?thesis by (simp add: sample_partial_def)
qed

end
