(* ===== verification/Channels.thy ===== *)
theory Channels
  imports Tl_Operations "HOL-Library.Monad_Syntax"
begin

text \<open>
  \<^verbatim>\<open>omnixtend-rs/src/channels.rs\<close>: the parser for the TileLink messages of a received
  packet. The loop of \<^verbatim>\<open>process_messages\<close> need not end, so it is a
  \<open>partial_function (option)\<close> whose value \<open>None\<close> means that it runs forever. The lemmas
  characterise the payloads on which it does so, and show that every sequence of well-formed
  responder messages is parsed completely, in order, and returns as many credits as the
  messages have flits.
\<close>

section \<open>Handlers\<close>

type_synonym Probe = "ChanABCDTilelinkMessage \<times> u64"
type_synonym credit = "OmnixtendChannel \<times> usize"
type_synonym response = "u32 \<times> u32 \<times> (bytes, op_error) result"

datatype channel_error = ShortPayload usize

text \<open>The position in the payload is passed in and returned. It stays below the length of
  the payload plus the largest message, so it is a natural number.\<close>

definition handle_chan_a :: "ChanABCDTilelinkMessage \<Rightarrow> bytes \<Rightarrow> nat \<Rightarrow> (credit option \<times> nat) outcome" where
  "handle_chan_a msg payload pos = Panics UnexpectedChannel"

definition handle_chan_b ::
    "ChanABCDTilelinkMessage \<Rightarrow> bytes \<Rightarrow> nat \<Rightarrow> ((Probe option \<times> credit option) \<times> nat) outcome" where
  "handle_chan_b msg payload pos =
     (if abcd_opcode msg = 6 \<or> abcd_opcode msg = 7 then
        let pos = pos + 8 in
        and_then (slice_range payload pos (pos + 8)) (\<lambda>s.
        and_then (try_u64_be s) (\<lambda>addr.
        let pos = pos + 8 in
        Returns ((Some (msg, addr), Some (abcd_chan msg, 2)), pos)))
      else Returns ((None, None), pos))"

definition handle_chan_c :: "ChanABCDTilelinkMessage \<Rightarrow> bytes \<Rightarrow> nat \<Rightarrow> (credit option \<times> nat) outcome" where
  "handle_chan_c msg payload pos = Panics UnexpectedChannel"

text \<open>\<^verbatim>\<open>1 << msg.size\<close> on \<^verbatim>\<open>usize\<close> uses the low six bits of the shift amount.\<close>

definition handle_read :: "ChanABCDTilelinkMessage \<Rightarrow> bytes \<Rightarrow> nat \<Rightarrow> (nat \<times> bytes) outcome" where
  "handle_read msg payload pos =
     (let read_bytes = 2 ^ unat (abcd_size msg AND 63);
          read_flits = max (read_bytes div 8) 1
      in and_then (slice_range payload pos (pos + read_bytes)) (\<lambda>s.
         and_then (copy_into (replicate read_bytes 0) 0 read_bytes s) (\<lambda>v.
         Returns (read_flits, v))))"

definition handle_chan_d ::
    "ChanABCDTilelinkMessage \<Rightarrow> bytes \<Rightarrow> nat \<Rightarrow> ((response option \<times> credit option) \<times> nat) outcome" where
  "handle_chan_d msg payload pos =
     (let denied = (drop_bit 1 (abcd_err msg) AND 1 = 1) in
      if abcd_opcode msg = 0 then
        let pos = pos + 8;
            v = if denied then Err UnalignedAccess else Ok []
        in Returns ((Some (abcd_source msg, 0, v), Some (abcd_chan msg, 1)), pos)
      else if abcd_opcode msg = 1 then
        let pos = pos + 8 in
        and_then (handle_read msg payload pos) (\<lambda>(read_flits, v).
        let pos = pos + read_flits * 8;
            v = if denied then Err UnalignedAccess else Ok v
        in Returns ((Some (abcd_source msg, 0, v), Some (abcd_chan msg, of_nat (1 + read_flits))), pos))
      else if abcd_opcode msg = 4 then
        let v = if denied then Err UnalignedAccess else Ok [];
            pos = pos + 8
        in and_then (slice_range payload pos (pos + 8)) (\<lambda>s.
           and_then (try_u64_be s) (\<lambda>sink.
           let pos = pos + 8 in
           Returns ((Some (abcd_source msg, ucast (sink AND (push_bit 26 1 - 1)), v),
                     Some (abcd_chan msg, 2)), pos)))
      else if abcd_opcode msg = 5 then
        let pos = pos + 8 in
        and_then (slice_range payload pos (pos + 8)) (\<lambda>s.
        and_then (try_u64_be s) (\<lambda>sink.
        let pos = pos + 8 in
        and_then (handle_read msg payload pos) (\<lambda>(read_flits, v).
        let pos = pos + read_flits * 8;
            v = if denied then Err UnalignedAccess else Ok v
        in Returns ((Some (abcd_source msg, ucast (sink AND (push_bit 26 1 - 1)), v),
                     Some (abcd_chan msg, of_nat (2 + read_flits))), pos))))
      else if abcd_opcode msg = 6 then
        let pos = pos + 8 in
        Returns ((Some (abcd_source msg, 0, Ok []), Some (abcd_chan msg, 1)), pos)
      else Panics (UnhandledOpcode (abcd_opcode msg)))"

definition handle_chan_e :: "ChanABCDTilelinkMessage \<Rightarrow> bytes \<Rightarrow> nat \<Rightarrow> (credit option \<times> nat) outcome" where
  "handle_chan_e msg payload pos = Panics UnexpectedChannel"

section \<open>The loop\<close>

type_synonym parsed = "credit list \<times> Probe list \<times> response list"

fun push_opt :: "'a list \<Rightarrow> 'a option \<Rightarrow> 'a list" where
  "push_opt xs None = xs"
| "push_opt xs (Some x) = xs @ [x]"

text \<open>One iteration: the header at \<open>pos\<close> is decoded and dispatched to its handler.\<close>

definition process_message :: "bytes \<Rightarrow> nat \<Rightarrow> parsed \<Rightarrow> (nat \<times> parsed) outcome" where
  "process_message payload pos acc =
     (case acc of (credits, probes, responses) \<Rightarrow>
      and_then (slice_range payload pos (pos + 8)) (\<lambda>s.
      and_then (try_u64_be s) (\<lambda>w.
      and_then (abcd_from_u64 w) (\<lambda>msg.
      case abcd_chan msg of
        Chan_A \<Rightarrow> and_then (handle_chan_a msg payload pos) (\<lambda>(c, pos).
          Returns (pos, push_opt credits c, probes, responses))
      | Chan_B \<Rightarrow> and_then (handle_chan_b msg payload pos) (\<lambda>((p, c), pos).
          Returns (pos, push_opt credits c, push_opt probes p, responses))
      | Chan_C \<Rightarrow> and_then (handle_chan_c msg payload pos) (\<lambda>(c, pos).
          Returns (pos, push_opt credits c, probes, responses))
      | Chan_D \<Rightarrow> and_then (handle_chan_d msg payload pos) (\<lambda>((r, c), pos).
          Returns (pos, push_opt credits c, probes, push_opt responses r))
      | Chan_E \<Rightarrow> and_then (handle_chan_e msg payload pos) (\<lambda>(c, pos).
          Returns (pos, push_opt credits c, probes, responses))
      | Chan_INVALID \<Rightarrow> Returns (pos + 8, credits, probes, responses)))))"

partial_function (option) process_loop ::
    "bytes \<Rightarrow> nat \<Rightarrow> parsed \<Rightarrow> parsed outcome option" where
  "process_loop payload pos acc =
     (if pos < length payload - 8 then
        (case process_message payload pos acc of
           Returns st \<Rightarrow> process_loop payload (fst st) (snd st)
         | Panics p \<Rightarrow> Some (Panics p)
         | Waits \<Rightarrow> Some Waits)
      else Some (Returns acc))"

declare process_loop.simps [code]

definition process_messages :: "bytes \<Rightarrow> (parsed, channel_error) result outcome option" where
  "process_messages payload =
     (if length payload < 8 then Some (Returns (Err (ShortPayload (of_nat (length payload)))))
      else map_option (\<lambda>m. and_then m (\<lambda>r. Returns (Ok r))) (process_loop payload 0 ([], [], [])))"

section \<open>When the loop ends\<close>

text \<open>The header word at a position and the payloads on which an iteration does not move.\<close>

definition header_at :: "bytes \<Rightarrow> nat \<Rightarrow> ChanABCDTilelinkMessage outcome" where
  "header_at payload pos =
     and_then (slice_range payload pos (pos + 8)) (\<lambda>s. and_then (try_u64_be s) abcd_from_u64)"

definition stalls_at :: "bytes \<Rightarrow> nat \<Rightarrow> bool" where
  "stalls_at payload pos \<longleftrightarrow> pos < length payload - 8 \<and>
     (case header_at payload pos of
        Returns msg \<Rightarrow> abcd_chan msg = Chan_B \<and> abcd_opcode msg \<notin> {6, 7}
      | _ \<Rightarrow> False)"

lemma process_message_header:
  "process_message payload pos (credits, probes, responses) =
     and_then (header_at payload pos) (\<lambda>msg.
      case abcd_chan msg of
        Chan_A \<Rightarrow> Panics UnexpectedChannel
      | Chan_B \<Rightarrow> and_then (handle_chan_b msg payload pos) (\<lambda>((p, c), pos).
          Returns (pos, push_opt credits c, push_opt probes p, responses))
      | Chan_C \<Rightarrow> Panics UnexpectedChannel
      | Chan_D \<Rightarrow> and_then (handle_chan_d msg payload pos) (\<lambda>((r, c), pos).
          Returns (pos, push_opt credits c, probes, push_opt responses r))
      | Chan_E \<Rightarrow> Panics UnexpectedChannel
      | Chan_INVALID \<Rightarrow> Returns (pos + 8, credits, probes, responses))"
  by (simp add: process_message_def header_at_def and_then_assoc handle_chan_a_def
      handle_chan_c_def handle_chan_e_def cong: OmnixtendChannel.case_cong)

lemma handle_chan_b_advances:
  "handle_chan_b msg payload pos = Returns (r, pos') \<Longrightarrow>
     pos < pos' \<or> (abcd_opcode msg \<notin> {6, 7} \<and> r = (None, None) \<and> pos' = pos)"
  by (auto simp: handle_chan_b_def Let_def and_then_Returns_iff split: if_splits)

lemma handle_chan_d_advances:
  "handle_chan_d msg payload pos = Returns (r, pos') \<Longrightarrow> pos < pos'"
  by (auto simp: handle_chan_d_def Let_def and_then_Returns_iff split: if_splits)

lemma process_message_stalls:
  "stalls_at payload pos \<Longrightarrow> process_message payload pos acc = Returns (pos, acc)"
  by (cases acc) (auto simp: process_message_header stalls_at_def handle_chan_b_def
      split: outcome.splits)

lemma process_message_advances:
  assumes "process_message payload pos acc = Returns (pos', acc')" "\<not> stalls_at payload pos"
    and "pos < length payload - 8"
  shows "pos < pos'"
proof -
  obtain credits probes responses where acc: "acc = (credits, probes, responses)"
    by (cases acc) auto
  from assms(1) obtain msg where msg: "header_at payload pos = Returns msg"
    unfolding acc process_message_header by (auto simp: and_then_Returns_iff)
  show ?thesis
  proof (cases "abcd_chan msg")
    case Chan_B
    with assms msg show ?thesis unfolding acc process_message_header
      by (auto simp: and_then_Returns_iff stalls_at_def dest!: handle_chan_b_advances)
  next
    case Chan_D
    with assms msg show ?thesis unfolding acc process_message_header
      by (auto simp: and_then_Returns_iff dest!: handle_chan_d_advances)
  qed (use assms msg in \<open>auto simp: acc process_message_header\<close>)
qed

text \<open>The position of the next iteration, which does not depend on what the loop has
  accumulated, and the positions the loop visits.\<close>

definition next_pos :: "bytes \<Rightarrow> nat \<Rightarrow> nat option" where
  "next_pos payload pos =
     (if pos < length payload - 8 then
        (case process_message payload pos ([], [], []) of Returns st \<Rightarrow> Some (fst st) | _ \<Rightarrow> None)
      else None)"

inductive visits :: "bytes \<Rightarrow> nat \<Rightarrow> nat \<Rightarrow> bool" for payload where
  visits_here: "visits payload pos pos"
| visits_step: "\<lbrakk>next_pos payload pos = Some pos'; visits payload pos' q\<rbrakk> \<Longrightarrow> visits payload pos q"

lemma visits_iff:
  "visits payload pos q \<longleftrightarrow>
     q = pos \<or> (\<exists>pos'. next_pos payload pos = Some pos' \<and> visits payload pos' q)"
  by (subst visits.simps) blast

lemma process_message_acc:
  assumes "process_message payload pos acc = Returns (pos', acc')"
  shows "\<exists>a. process_message payload pos acc0 = Returns (pos', a)"
proof -
  obtain cs ps rs cs' ps' rs' where acc: "acc = (cs, ps, rs)" "acc0 = (cs', ps', rs')"
    by (cases acc; cases acc0)
  from assms obtain msg where "header_at payload pos = Returns msg"
    unfolding acc process_message_header by (auto simp: and_then_Returns_iff)
  with assms show ?thesis unfolding acc process_message_header
    by (cases "abcd_chan msg") (auto simp: and_then_Returns_iff)
qed

lemma next_pos_Some_iff:
  "next_pos payload pos = Some pos' \<longleftrightarrow> pos < length payload - 8 \<and>
     (\<exists>a. process_message payload pos acc = Returns (pos', a))"
  using process_message_acc [of payload pos acc pos' _ "([], [], [])"]
    process_message_acc [of payload pos "([], [], [])" pos' _ acc]
  by (auto simp: next_pos_def split: outcome.splits)

lemma process_loop_stalled:
  assumes "process_loop payload pos acc = Some y"
  shows "\<not> stalls_at payload pos"
proof (rule process_loop.raw_induct [OF _ assms, where P = "\<lambda>payload pos acc y. \<not> stalls_at payload pos"])
  fix f and payload :: bytes and pos :: nat and acc :: parsed and y
  assume IH: "\<And>payload pos acc y. f payload pos acc = Some y \<Longrightarrow> \<not> stalls_at payload pos"
    and body: "(if pos < length payload - 8
      then case process_message payload pos acc of Returns st \<Rightarrow> f payload (fst st) (snd st)
        | Panics p \<Rightarrow> Some (Panics p) | Waits \<Rightarrow> Some Waits
      else Some (Returns acc)) = Some y"
  show "\<not> stalls_at payload pos"
  proof
    assume st: "stalls_at payload pos"
    then have "pos < length payload - 8" by (simp add: stalls_at_def)
    with body process_message_stalls [OF st, of acc] have "f payload pos acc = Some y" by simp
    from IH [OF this] st show False by simp
  qed
qed

lemma process_loop_ends:
  "(\<exists>y. process_loop payload pos acc = Some y) \<longleftrightarrow>
     \<not> (\<exists>q. visits payload pos q \<and> stalls_at payload q)"
proof (induction "length payload - pos" arbitrary: pos acc rule: less_induct)
  case less
  show ?case
  proof (cases "stalls_at payload pos")
    case True
    then show ?thesis using process_loop_stalled visits_here by blast
  next
    case ns: False
    show ?thesis
    proof (cases "next_pos payload pos")
      case (Some pos')
      then obtain acc' where st: "pos < length payload - 8"
        "process_message payload pos acc = Returns (pos', acc')"
        by (auto simp: next_pos_Some_iff [of _ _ _ acc])
      with process_message_advances [OF st(2) ns st(1)]
      have "length payload - pos' < length payload - pos" by linarith
      from less [OF this, of acc'] have
        "(\<exists>y. process_loop payload pos acc = Some y) \<longleftrightarrow>
          \<not> (\<exists>q. visits payload pos' q \<and> stalls_at payload q)"
        using st by (subst process_loop.simps) simp
      with ns Some visits_iff [of payload pos] show ?thesis by auto
    next
      case None
      have "\<exists>y. process_loop payload pos acc = Some y"
      proof (cases "process_message payload pos acc")
        case (Returns st)
        then have "\<not> pos < length payload - 8"
          using None next_pos_Some_iff [of payload pos "fst st" acc] by (cases st) auto
        then show ?thesis by (subst process_loop.simps) simp
      qed (subst process_loop.simps, simp)+
      moreover have "visits payload pos q \<Longrightarrow> q = pos" for q
        using None visits_iff [of payload pos q] by simp
      ultimately show ?thesis using ns by blast
    qed
  qed
qed

text \<open>
  C29. \<^verbatim>\<open>process_messages\<close> returns (or panics) if and only if its loop never visits a
  channel-B header whose opcode is neither 6 (ProbeBlock) nor 7 (ProbePerm); on such a header
  the loop spins forever without moving.
\<close>

theorem process_messages_terminates_iff:
  "(\<exists>y. process_messages payload = Some y) \<longleftrightarrow>
     length payload < 8 \<or> \<not> (\<exists>q. visits payload 0 q \<and> stalls_at payload q)"
  using process_loop_ends [of payload 0 "([], [], [])"]
  by (auto simp: process_messages_def)

text \<open>A channel-B message with opcode 0, followed by the mask.\<close>

definition stalling_payload :: bytes where
  "stalling_payload = 0x20 # replicate 15 0"

theorem process_messages_terminates_iff_witness: "process_messages stalling_payload = None"
proof -
  have "stalls_at stalling_payload 0" by code_simp
  moreover have "\<not> length stalling_payload < 8" by (simp add: stalling_payload_def)
  ultimately show ?thesis
    using process_messages_terminates_iff [of stalling_payload] visits_here by fastforce
qed

section \<open>Parsing what a responder sends\<close>

text \<open>The messages a responder sends, with their layout on the wire: a header, for a grant
  the sink, for a probe the address, and the data padded to a whole flit.\<close>

datatype incoming =
    In_pad
  | In_probe ChanABCDTilelinkMessage u64
  | In_access_ack ChanABCDTilelinkMessage
  | In_access_ack_data ChanABCDTilelinkMessage bytes
  | In_grant ChanABCDTilelinkMessage u64
  | In_grant_data ChanABCDTilelinkMessage u64 bytes
  | In_release_ack ChanABCDTilelinkMessage

definition header_bytes :: "ChanABCDTilelinkMessage \<Rightarrow> bytes" where
  "header_bytes h = u64_to_be_bytes (u64_from_abcd h)"

definition flit_data :: "bytes \<Rightarrow> bytes" where
  "flit_data d = d @ replicate (8 - length d) 0"

fun encode_incoming :: "incoming \<Rightarrow> bytes" where
  "encode_incoming In_pad = replicate 8 0"
| "encode_incoming (In_probe h addr) = header_bytes h @ u64_to_be_bytes addr"
| "encode_incoming (In_access_ack h) = header_bytes h"
| "encode_incoming (In_access_ack_data h d) = header_bytes h @ flit_data d"
| "encode_incoming (In_grant h sink) = header_bytes h @ u64_to_be_bytes sink"
| "encode_incoming (In_grant_data h sink d) = header_bytes h @ u64_to_be_bytes sink @ flit_data d"
| "encode_incoming (In_release_ack h) = header_bytes h"

definition header_ok :: "OmnixtendChannel \<Rightarrow> u8 set \<Rightarrow> ChanABCDTilelinkMessage \<Rightarrow> bool" where
  "header_ok c ops h \<longleftrightarrow> abcd_fits h \<and> abcd_chan h = c \<and> abcd_opcode h \<in> ops"

fun incoming_ok :: "incoming \<Rightarrow> bool" where
  "incoming_ok In_pad = True"
| "incoming_ok (In_probe h addr) = header_ok Chan_B {6, 7} h"
| "incoming_ok (In_access_ack h) = header_ok Chan_D {0} h"
| "incoming_ok (In_access_ack_data h d) = (header_ok Chan_D {1} h \<and> length d = 2 ^ unat (abcd_size h))"
| "incoming_ok (In_grant h sink) = header_ok Chan_D {4} h"
| "incoming_ok (In_grant_data h sink d) = (header_ok Chan_D {5} h \<and> length d = 2 ^ unat (abcd_size h))"
| "incoming_ok (In_release_ack h) = header_ok Chan_D {6} h"

text \<open>What the requester must learn from a message.\<close>

definition answer :: "ChanABCDTilelinkMessage \<Rightarrow> bytes \<Rightarrow> (bytes, op_error) result" where
  "answer h d = (if bit (abcd_err h) 1 then Err UnalignedAccess else Ok d)"

fun incoming_response :: "incoming \<Rightarrow> response option" where
  "incoming_response (In_access_ack h) = Some (abcd_source h, 0, answer h [])"
| "incoming_response (In_access_ack_data h d) = Some (abcd_source h, 0, answer h d)"
| "incoming_response (In_grant h sink) = Some (abcd_source h, ucast (take_bit 26 sink), answer h [])"
| "incoming_response (In_grant_data h sink d) = Some (abcd_source h, ucast (take_bit 26 sink), answer h d)"
| "incoming_response (In_release_ack h) = Some (abcd_source h, 0, Ok [])"
| "incoming_response _ = None"

fun incoming_probe :: "incoming \<Rightarrow> Probe option" where
  "incoming_probe (In_probe h addr) = Some (h, addr)"
| "incoming_probe _ = None"

fun incoming_channel :: "incoming \<Rightarrow> OmnixtendChannel option" where
  "incoming_channel In_pad = None"
| "incoming_channel (In_probe _ _) = Some Chan_B"
| "incoming_channel _ = Some Chan_D"

text \<open>The receiver returns one credit per flit of the message.\<close>

definition incoming_credit :: "incoming \<Rightarrow> credit option" where
  "incoming_credit m =
     map_option (\<lambda>c. (c, of_nat (length (encode_incoming m) div 8))) (incoming_channel m)"

lemma length_header_bytes [simp]: "length (header_bytes h) = 8"
  by (simp add: header_bytes_def)

lemma header_at_encoded:
  "abcd_fits h \<Longrightarrow> header_at (pre @ header_bytes h @ rest) (length pre) = Returns h"
  by (simp add: header_at_def header_bytes_def abcd_decode_encode_fits)

lemma header_at_zero:
  "header_at (pre @ replicate 8 0 @ rest) (length pre) = Returns
     \<lparr>abcd_chan = Chan_INVALID, abcd_opcode = 0, abcd_param = 0, abcd_size = 0, abcd_domain = 0,
      abcd_err = 0, abcd_source = 0\<rparr>"
  by (simp add: header_at_def try_u64_be_def abcd_from_u64_def channel_from_u64_def
      extract_bits_shift_def)

lemma length_flit_data:
  assumes "length d = 2 ^ k"
  shows "length (flit_data d) = 8 * max (2 ^ k div 8) 1"
proof (cases "k < 3")
  case True
  then have "k = 0 \<or> k = 1 \<or> k = 2" by auto
  then show ?thesis using assms by (auto simp: flit_data_def)
next
  case False
  then obtain j where "k = j + 3" by (metis add.commute le_iff_add not_less)
  moreover have "(1 :: nat) \<le> 2 ^ j" by simp
  ultimately show ?thesis using assms by (simp add: flit_data_def power_add max_absorb1)
qed

lemma size_and_63: "abcd_fits h \<Longrightarrow> abcd_size h AND 63 = abcd_size h"
proof -
  assume "abcd_fits h"
  then have "abcd_size h < 2 ^ 6" by (auto simp: abcd_fits_def intro: less_trans)
  then show ?thesis
    using take_bit_less_exp [of "abcd_size h" 6] by (simp add: take_bit_eq_mask mask_eq_exp_minus_1)
qed

lemma handle_read_encoded:
  assumes "abcd_fits h" "length d = 2 ^ unat (abcd_size h)" "pos = length pre"
  shows "handle_read h (pre @ flit_data d @ rest) pos = Returns (length (flit_data d) div 8, d)"
proof -
  have "slice_range (pre @ flit_data d @ rest) pos (pos + 2 ^ unat (abcd_size h)) = Returns d"
    using assms(2,3) by (simp add: flit_data_def)
  then show ?thesis
    using assms length_flit_data [OF assms(2)]
    by (simp add: handle_read_def size_and_63 copy_into_def)
qed

lemma denied_iff: "drop_bit (Suc 0) (e :: u8) AND 1 = 1 \<longleftrightarrow> bit e (Suc 0)"
  by (simp add: and_one_eq odd_iff_mod_2_eq_one bit_iff_odd_drop_bit)

lemma sink_bits: "(sink :: u64) AND (push_bit 26 1 - 1) = take_bit 26 sink"
  by (simp add: take_bit_eq_mask mask_eq_exp_minus_1)

lemma second_flit:
  "hi = length pre + 16 \<Longrightarrow>
     slice_range (pre @ header_bytes h @ u64_to_be_bytes w @ rest) (length pre + 8) hi
       = Returns (u64_to_be_bytes w)"
  using slice_range_append [of "length pre + 8" "pre @ header_bytes h" hi
      "u64_to_be_bytes w" rest] by simp

lemma handle_chan_b_encoded:
  assumes "header_ok Chan_B {6, 7} h"
  shows "handle_chan_b h (pre @ header_bytes h @ u64_to_be_bytes addr @ rest) (length pre) =
    Returns ((Some (h, addr), Some (Chan_B, 2)), length pre + 16)"
  using assms by (auto simp: handle_chan_b_def header_ok_def Let_def second_flit)

lemma handle_chan_d_ack:
  assumes "header_ok Chan_D {0} h"
  shows "handle_chan_d h p pos = Returns ((Some (abcd_source h, 0, answer h []), Some (Chan_D, 1)), pos + 8)"
  using assms by (simp add: handle_chan_d_def header_ok_def denied_iff answer_def)

lemma handle_chan_d_release_ack:
  assumes "header_ok Chan_D {6} h"
  shows "handle_chan_d h p pos = Returns ((Some (abcd_source h, 0, Ok []), Some (Chan_D, 1)), pos + 8)"
  using assms by (simp add: handle_chan_d_def header_ok_def)

lemma handle_chan_d_ack_data:
  assumes "header_ok Chan_D {1} h" "length d = 2 ^ unat (abcd_size h)"
  shows "handle_chan_d h (pre @ header_bytes h @ flit_data d @ rest) (length pre) =
    Returns ((Some (abcd_source h, 0, answer h d), Some (Chan_D, of_nat (1 + length (flit_data d) div 8))),
      length pre + 8 + length (flit_data d))"
  using assms handle_read_encoded [of h d "length pre + 8" "pre @ header_bytes h" rest]
    length_flit_data [OF assms(2)]
  by (simp add: handle_chan_d_def header_ok_def denied_iff answer_def)

lemma handle_chan_d_grant:
  assumes "header_ok Chan_D {4} h"
  shows "handle_chan_d h (pre @ header_bytes h @ u64_to_be_bytes sink @ rest) (length pre) =
    Returns ((Some (abcd_source h, ucast (take_bit 26 sink), answer h []), Some (Chan_D, 2)),
      length pre + 16)"
  using assms by (simp add: handle_chan_d_def header_ok_def denied_iff answer_def
      second_flit sink_bits del: push_bit_of_1)

lemma handle_chan_d_grant_data:
  assumes "header_ok Chan_D {5} h" "length d = 2 ^ unat (abcd_size h)"
  shows "handle_chan_d h (pre @ header_bytes h @ u64_to_be_bytes sink @ flit_data d @ rest) (length pre) =
    Returns ((Some (abcd_source h, ucast (take_bit 26 sink), answer h d),
      Some (Chan_D, of_nat (2 + length (flit_data d) div 8))),
      length pre + 16 + length (flit_data d))"
  using assms handle_read_encoded [of h d "16 + length pre" "pre @ header_bytes h @ u64_to_be_bytes sink" rest]
    length_flit_data [OF assms(2)]
  by (simp add: handle_chan_d_def header_ok_def denied_iff answer_def
      second_flit sink_bits Let_def del: push_bit_of_1)

lemma flits_after_header: "(8 + n) div 8 = 1 + n div 8" "(16 + n) div 8 = 2 + n div (8 :: nat)"
  by simp_all

lemma process_message_encoded:
  assumes "incoming_ok m"
  shows "process_message (pre @ encode_incoming m @ rest) (length pre) (cs, ps, rs) =
    Returns (length pre + length (encode_incoming m), push_opt cs (incoming_credit m),
      push_opt ps (incoming_probe m), push_opt rs (incoming_response m))"
proof (cases m)
  case In_pad
  then show ?thesis using header_at_zero [of pre rest]
    by (simp add: process_message_header incoming_credit_def)
next
  case (In_probe h addr)
  then show ?thesis using assms header_at_encoded [of h pre "u64_to_be_bytes addr @ rest"]
      handle_chan_b_encoded [of h pre addr rest]
    by (simp add: process_message_header incoming_credit_def header_ok_def flits_after_header)
next
  case (In_access_ack_data h d)
  then show ?thesis using assms header_at_encoded [of h pre "flit_data d @ rest"]
      handle_chan_d_ack_data [of h d pre rest]
    by (simp add: process_message_header incoming_credit_def header_ok_def flits_after_header)
next
  case (In_grant h sink)
  then show ?thesis using assms header_at_encoded [of h pre "u64_to_be_bytes sink @ rest"]
      handle_chan_d_grant [of h pre sink rest]
    by (simp add: process_message_header incoming_credit_def header_ok_def flits_after_header)
next
  case (In_grant_data h sink d)
  then show ?thesis using assms header_at_encoded [of h pre "u64_to_be_bytes sink @ flit_data d @ rest"]
      handle_chan_d_grant_data [of h d pre sink rest]
    by (simp add: process_message_header incoming_credit_def header_ok_def flits_after_header)
qed (use assms header_at_encoded [of _ pre rest] in
    \<open>simp_all add: process_message_header incoming_credit_def header_ok_def
      handle_chan_d_ack handle_chan_d_release_ack\<close>)

text \<open>The loop on a suffix of a payload that consists of whole messages and eight final bytes.\<close>

lemma encode_incoming_nonempty: "8 \<le> length (encode_incoming m)"
  by (cases m) auto

lemma process_loop_encoded:
  assumes "\<forall>m \<in> set ms. incoming_ok m" "length msk = 8"
  shows "process_loop (pre @ concat (map encode_incoming ms) @ msk) (length pre) (cs, ps, rs) =
    Some (Returns (cs @ List.map_filter incoming_credit ms, ps @ List.map_filter incoming_probe ms,
      rs @ List.map_filter incoming_response ms))"
  using assms(1)
proof (induction ms arbitrary: pre cs ps rs)
  case Nil
  then show ?case using assms(2) by (subst process_loop.simps) simp
next
  case (Cons m ms)
  let ?rest = "concat (map encode_incoming ms) @ msk"
  have step: "process_message (pre @ encode_incoming m @ ?rest) (length pre) (cs, ps, rs) =
      Returns (length (pre @ encode_incoming m), push_opt cs (incoming_credit m),
        push_opt ps (incoming_probe m), push_opt rs (incoming_response m))"
    using process_message_encoded [of m pre ?rest] Cons.prems by simp
  have "length pre < length (pre @ encode_incoming m @ ?rest) - 8"
    using encode_incoming_nonempty [of m] assms(2) by auto
  then have "process_loop (pre @ concat (map encode_incoming (m # ms)) @ msk) (length pre) (cs, ps, rs) =
      process_loop ((pre @ encode_incoming m) @ ?rest) (length (pre @ encode_incoming m))
        (push_opt cs (incoming_credit m), push_opt ps (incoming_probe m), push_opt rs (incoming_response m))"
    using step by (subst process_loop.simps) simp
  also have "\<dots> = Some (Returns (push_opt cs (incoming_credit m) @ List.map_filter incoming_credit ms,
      push_opt ps (incoming_probe m) @ List.map_filter incoming_probe ms,
      push_opt rs (incoming_response m) @ List.map_filter incoming_response ms))"
    using Cons.prems by (intro Cons.IH) simp
  finally show ?case
    by (cases "incoming_credit m"; cases "incoming_probe m"; cases "incoming_response m")
      simp_all
qed

text \<open>
  C11. A payload that consists of well-formed responder messages (probes, acknowledgements,
  read data, grants with or without data, release acknowledgements) and padding, followed by
  the eight mask bytes, is parsed completely and without a panic: every probe and every
  response is reported once, in order, with its source, sink, denial flag and data, and every
  message returns as many credits on its channel as it has flits.
\<close>

theorem process_messages_parses:
  assumes "\<forall>m \<in> set ms. incoming_ok m" and "length msk = 8"
  shows "process_messages (concat (map encode_incoming ms) @ msk) = Some (Returns (Ok
    (List.map_filter incoming_credit ms, List.map_filter incoming_probe ms,
     List.map_filter incoming_response ms)))"
  using process_loop_encoded [OF assms, of "[]"] assms(2) by (simp add: process_messages_def)

definition sample_incoming :: "incoming list" where
  "sample_incoming =
     [In_access_ack_data \<lparr>abcd_chan = Chan_D, abcd_opcode = 1, abcd_param = 0, abcd_size = 3,
        abcd_domain = 0, abcd_err = 0, abcd_source = 5\<rparr> [1, 2, 3, 4, 5, 6, 7, 8],
      In_pad,
      In_probe \<lparr>abcd_chan = Chan_B, abcd_opcode = 6, abcd_param = 2, abcd_size = 6,
        abcd_domain = 0, abcd_err = 0, abcd_source = 0\<rparr> 4096]"

theorem process_messages_parses_witness:
  "process_messages (concat (map encode_incoming sample_incoming) @ replicate 8 0) =
     Some (Returns (Ok ([(Chan_D, 2), (Chan_B, 2)],
       [(\<lparr>abcd_chan = Chan_B, abcd_opcode = 6, abcd_param = 2, abcd_size = 6,
         abcd_domain = 0, abcd_err = 0, abcd_source = 0\<rparr>, 4096)],
       [(5, 0, Ok [1, 2, 3, 4, 5, 6, 7, 8])])))"
  using process_messages_parses [of sample_incoming "replicate 8 0"]
  by (simp add: sample_incoming_def header_ok_def abcd_fits_def incoming_credit_def
      flit_data_def answer_def)

end
