(* ===== verification/Ox_Packet.thy ===== *)
theory Ox_Packet
  imports Ox_Prelude
begin

text \<open>
  The packet formats. \<^verbatim>\<open>omnixtend-rs/src/omnixtend.rs\<close> declares the OmniXtend header as a
  struct of bit fields, from which the third-party macro \<^verbatim>\<open>pnet_macros::Packet\<close> generates
  accessors; the Ethernet accessors come from the crate \<^verbatim>\<open>pnet\<close>. Both sets of accessors are
  a parameter of the definitions that use them (the record \<open>pnet\<close>), and the locale
  \<open>pnet_laws\<close> states their documented behaviour. The last section implements the parameter
  on a big-endian 64-bit header word and discharges the laws.
\<close>

section \<open>Addresses and the header struct\<close>

datatype MacAddr = MacAddr u8 u8 u8 u8 u8 u8

type_synonym EtherType = u16

text \<open>\<^verbatim>\<open>struct Omnixtend\<close>: its fields with their widths in bits, in declaration order; the
  payload follows.\<close>

datatype Omnixtend_field =
    F_vc | F_message_type | F_res1 | F_sequence_number | F_sequence_number_ack | F_ack
  | F_res2 | F_chan | F_credit

fun field_width :: "Omnixtend_field \<Rightarrow> nat" where
  "field_width F_vc = 3"
| "field_width F_message_type = 4"
| "field_width F_res1 = 3"
| "field_width F_sequence_number = 22"
| "field_width F_sequence_number_ack = 22"
| "field_width F_ack = 1"
| "field_width F_res2 = 1"
| "field_width F_chan = 3"
| "field_width F_credit = 5"

definition Omnixtend_fields :: "Omnixtend_field list" where
  "Omnixtend_fields = [F_vc, F_message_type, F_res1, F_sequence_number, F_sequence_number_ack,
     F_ack, F_res2, F_chan, F_credit]"

section \<open>The accessors\<close>

text \<open>\<open>eth_new\<close> and \<open>ox_new\<close> say whether the constructor returns \<^verbatim>\<open>Some\<close>. The setters write
  into the buffer; \<open>eth_on_payload f\<close> applies \<open>f\<close> to the part of the buffer that
  \<^verbatim>\<open>payload_mut\<close> borrows.\<close>

record pnet =
  eth_new :: "bytes \<Rightarrow> bool"
  eth_get_destination :: "bytes \<Rightarrow> MacAddr"
  eth_get_source :: "bytes \<Rightarrow> MacAddr"
  eth_get_ethertype :: "bytes \<Rightarrow> EtherType"
  eth_set_destination :: "MacAddr \<Rightarrow> bytes \<Rightarrow> bytes"
  eth_set_source :: "MacAddr \<Rightarrow> bytes \<Rightarrow> bytes"
  eth_set_ethertype :: "EtherType \<Rightarrow> bytes \<Rightarrow> bytes"
  eth_payload :: "bytes \<Rightarrow> bytes"
  eth_on_payload :: "(bytes \<Rightarrow> bytes) \<Rightarrow> bytes \<Rightarrow> bytes"
  ox_new :: "bytes \<Rightarrow> bool"
  ox_get :: "Omnixtend_field \<Rightarrow> bytes \<Rightarrow> u32"
  ox_set :: "Omnixtend_field \<Rightarrow> u32 \<Rightarrow> bytes \<Rightarrow> bytes"
  ox_payload :: "bytes \<Rightarrow> bytes"

locale pnet_laws =
  fixes P :: pnet
  assumes eth_new_iff: "eth_new P b \<longleftrightarrow> 14 \<le> length b"
    and eth_destination: "14 \<le> length b \<Longrightarrow> eth_get_destination P (eth_set_destination P m b) = m"
    and eth_destination_source: "14 \<le> length b \<Longrightarrow>
      eth_get_destination P (eth_set_source P m b) = eth_get_destination P b"
    and eth_destination_type: "14 \<le> length b \<Longrightarrow>
      eth_get_destination P (eth_set_ethertype P t b) = eth_get_destination P b"
    and eth_source: "14 \<le> length b \<Longrightarrow> eth_get_source P (eth_set_source P m b) = m"
    and eth_source_destination: "14 \<le> length b \<Longrightarrow>
      eth_get_source P (eth_set_destination P m b) = eth_get_source P b"
    and eth_source_type: "14 \<le> length b \<Longrightarrow>
      eth_get_source P (eth_set_ethertype P t b) = eth_get_source P b"
    and eth_type: "14 \<le> length b \<Longrightarrow> eth_get_ethertype P (eth_set_ethertype P t b) = t"
    and eth_length:
      "14 \<le> length b \<Longrightarrow> length (eth_set_destination P m b) = length b"
      "14 \<le> length b \<Longrightarrow> length (eth_set_source P m b) = length b"
      "14 \<le> length b \<Longrightarrow> length (eth_set_ethertype P t b) = length b"
    and eth_payload_is: "14 \<le> length b \<Longrightarrow> eth_payload P b = drop 14 b"
    and eth_payload_frame:
      "14 \<le> length b \<Longrightarrow> drop 14 (eth_set_destination P m b) = drop 14 b"
      "14 \<le> length b \<Longrightarrow> drop 14 (eth_set_source P m b) = drop 14 b"
      "14 \<le> length b \<Longrightarrow> drop 14 (eth_set_ethertype P t b) = drop 14 b"
    and eth_on_payload_is: "14 \<le> length b \<Longrightarrow> length (u (drop 14 b)) = length (drop 14 b) \<Longrightarrow>
      eth_on_payload P u b = take 14 b @ u (drop 14 b)"
    and eth_header_only: "14 \<le> length b \<Longrightarrow>
      eth_get_destination P (take 14 b @ c) = eth_get_destination P b \<and>
      eth_get_source P (take 14 b @ c) = eth_get_source P b \<and>
      eth_get_ethertype P (take 14 b @ c) = eth_get_ethertype P b"
    and ox_new_iff: "ox_new P b \<longleftrightarrow> 8 \<le> length b"
    and ox_get_range: "8 \<le> length b \<Longrightarrow> ox_get P f b < 2 ^ field_width f"
    and ox_get_set: "8 \<le> length b \<Longrightarrow> v < 2 ^ field_width f \<Longrightarrow>
      ox_get P g (ox_set P f v b) = (if g = f then v else ox_get P g b)"
    and ox_set_length: "8 \<le> length b \<Longrightarrow> length (ox_set P f v b) = length b"
    and ox_set_payload: "8 \<le> length b \<Longrightarrow> drop 8 (ox_set P f v b) = drop 8 b"
    and ox_get_zero: "ox_get P f (replicate 8 0 @ b) = 0"
    and ox_payload_is: "8 \<le> length b \<Longrightarrow> ox_payload P b = drop 8 b"

section \<open>Accessors that meet the laws\<close>

text \<open>The position of a field: the widths of the fields declared after it.\<close>

definition field_shift :: "Omnixtend_field \<Rightarrow> nat" where
  "field_shift f = sum_list (map field_width (tl (dropWhile (\<lambda>g. g \<noteq> f) Omnixtend_fields)))"

definition ox_word :: "bytes \<Rightarrow> u64" where
  "ox_word b = u64_from_be_bytes (take 8 b)"

definition put_field :: "Omnixtend_field \<Rightarrow> u64 \<Rightarrow> u64 \<Rightarrow> u64" where
  "put_field f v w = (w AND NOT (push_bit (field_shift f) (mask (field_width f))))
     OR push_bit (field_shift f) v"

definition get_field :: "Omnixtend_field \<Rightarrow> u64 \<Rightarrow> u64" where
  "get_field f w = take_bit (field_width f) (drop_bit (field_shift f) w)"

fun mac_bytes :: "MacAddr \<Rightarrow> bytes" where
  "mac_bytes (MacAddr a b c d e f) = [a, b, c, d, e, f]"

definition mac_of :: "bytes \<Rightarrow> MacAddr" where
  "mac_of b = MacAddr (b ! 0) (b ! 1) (b ! 2) (b ! 3) (b ! 4) (b ! 5)"

definition std_pnet :: pnet where
  "std_pnet =
     \<lparr>eth_new = (\<lambda>b. 14 \<le> length b),
      eth_get_destination = mac_of,
      eth_get_source = (\<lambda>b. mac_of (drop 6 b)),
      eth_get_ethertype = (\<lambda>b. push_bit 8 (ucast (b ! 12)) OR ucast (b ! 13)),
      eth_set_destination = (\<lambda>m b. mac_bytes m @ drop 6 b),
      eth_set_source = (\<lambda>m b. take 6 b @ mac_bytes m @ drop 12 b),
      eth_set_ethertype = (\<lambda>t b. take 12 b @ [ucast (drop_bit 8 t), ucast t] @ drop 14 b),
      eth_payload = drop 14,
      eth_on_payload = (\<lambda>f b. take 14 b @ f (drop 14 b)),
      ox_new = (\<lambda>b. 8 \<le> length b),
      ox_get = (\<lambda>f b. ucast (get_field f (ox_word b))),
      ox_set = (\<lambda>f v b. u64_to_be_bytes (put_field f (ucast v) (ox_word b)) @ drop 8 b),
      ox_payload = drop 8\<rparr>"

lemma fields_disjoint:
  "f \<noteq> g \<Longrightarrow> field_shift f + field_width f \<le> field_shift g \<or> field_shift g + field_width g \<le> field_shift f"
  by (cases f; cases g) (simp_all add: field_shift_def Omnixtend_fields_def)

lemma field_range: "field_shift f + field_width f \<le> 64 \<and> field_width f \<le> 22"
  by (cases f) (simp_all add: field_shift_def Omnixtend_fields_def)

lemma get_put_field:
  assumes "v < 2 ^ field_width f"
  shows "get_field g (put_field f v w) = (if g = f then v else get_field g w)"
proof -
  have v: "bit v i \<Longrightarrow> i < field_width f" for i
    using take_bit_less_exp [OF assms] by (metis bit_take_bit_iff)
  then have "bit v i \<Longrightarrow> field_shift f + i < 64" for i
    using field_range [of f] by fastforce
  note v = this v
  show ?thesis
  proof (cases "g = f")
    case True
    then show ?thesis using v field_range [of f]
      by (auto intro!: bit_eqI simp: get_field_def put_field_def bit_simps)
  next
    case False
    have "get_field g (put_field f v w) = get_field g w"
      by (rule bit_eqI) (use fields_disjoint [OF False] field_range [of g] in
          \<open>auto simp: get_field_def put_field_def bit_simps dest: v\<close>)
    with False show ?thesis by simp
  qed
qed

lemma get_field_less: "get_field f w < 2 ^ field_width f"
  using field_range [of f] by (simp add: get_field_def take_bit_eq_mask and_mask_less')

lemma ucast_get_field: "(ucast (ucast (get_field f w) :: u32) :: u64) = get_field f w"
proof -
  have "bit (get_field f w) i \<Longrightarrow> i < 32" for i
    using field_range [of f] by (simp add: get_field_def bit_take_bit_iff)
  then show ?thesis by (intro bit_eqI) (auto simp: bit_ucast_iff)
qed

lemma get_field_u32_less: "(ucast (get_field f w) :: u32) < 2 ^ field_width f"
proof -
  have "take_bit (field_width f) (ucast (get_field f w) :: u32) = ucast (get_field f w)"
    by (rule bit_eqI) (auto simp: get_field_def bit_simps)
  then show ?thesis
    using field_range [of f] and_mask_less' [of "field_width f" "ucast (get_field f w) :: u32"]
    by (simp add: take_bit_eq_mask)
qed

lemma unat_widen: "unat (ucast (v :: u32) :: u64) = unat v"
  using unsigned_less [of v, where 'a = nat] by (simp add: unsigned_ucast_eq take_bit_nat_eq_self)

lemma ucast_less_width:
  assumes "(v :: u32) < 2 ^ field_width f"
  shows "(ucast v :: u64) < 2 ^ field_width f"
proof -
  have "unat v < 2 ^ field_width f"
    using assms field_range [of f] by (simp add: word_less_nat_alt unat_exp)
  then show ?thesis
    using field_range [of f] by (simp add: word_less_nat_alt unat_exp unat_widen)
qed

lemma ox_word_append [simp]: "ox_word (u64_to_be_bytes w @ b) = w"
  by (simp add: ox_word_def)

lemma mac_of_bytes [simp]: "mac_of (mac_bytes m @ b) = m"
  by (cases m) (simp add: mac_of_def)

lemma length_mac_bytes [simp]: "length (mac_bytes m) = 6"
  by (cases m) simp

lemma ethertype_bytes:
  "push_bit 8 (ucast (ucast (drop_bit 8 t) :: u8)) OR ucast (ucast t :: u8) = (t :: u16)"
  by (rule bit_eqI) (auto simp: bit_simps)

lemma mac_of_cong: "take 6 a = take 6 b \<Longrightarrow> 6 \<le> length a \<Longrightarrow> 6 \<le> length b \<Longrightarrow> mac_of a = mac_of b"
proof -
  assume *: "take 6 a = take 6 b" "6 \<le> length a" "6 \<le> length b"
  then have "a ! i = b ! i" if "i < 6" for i using that by (metis nth_take)
  then show ?thesis by (simp add: mac_of_def)
qed

interpretation sp: pnet_laws std_pnet
proof unfold_locales
  fix b c :: bytes and m t f g v u
  show "eth_new std_pnet b \<longleftrightarrow> 14 \<le> length b" by (simp add: std_pnet_def)
  show "ox_new std_pnet b \<longleftrightarrow> 8 \<le> length b" by (simp add: std_pnet_def)
  show "ox_get std_pnet f (replicate 8 0 @ b) = 0"
    by (simp add: std_pnet_def ox_word_def get_field_def)
  assume b: "8 \<le> length b"
  show "ox_get std_pnet f b < 2 ^ field_width f"
    using get_field_u32_less [of f "ox_word b"] by (simp add: std_pnet_def)
  show "v < 2 ^ field_width f \<Longrightarrow>
      ox_get std_pnet g (ox_set std_pnet f v b) = (if g = f then v else ox_get std_pnet g b)"
    using ucast_less_width [of v f] get_put_field by (simp add: std_pnet_def)
  show "length (ox_set std_pnet f v b) = length b" "drop 8 (ox_set std_pnet f v b) = drop 8 b"
    "ox_payload std_pnet b = drop 8 b"
    using b by (simp_all add: std_pnet_def)
next
  fix b c :: bytes and m :: MacAddr and t :: EtherType and u :: "bytes \<Rightarrow> bytes"
  assume b: "14 \<le> length b"
  show "eth_get_destination std_pnet (eth_set_destination std_pnet m b) = m"
    "eth_get_destination std_pnet (eth_set_source std_pnet m b) = eth_get_destination std_pnet b"
    "eth_get_destination std_pnet (eth_set_ethertype std_pnet t b) = eth_get_destination std_pnet b"
    "eth_get_source std_pnet (eth_set_source std_pnet m b) = m"
    "eth_get_source std_pnet (eth_set_destination std_pnet m b) = eth_get_source std_pnet b"
    "eth_get_source std_pnet (eth_set_ethertype std_pnet t b) = eth_get_source std_pnet b"
    using b by (cases m; simp add: std_pnet_def mac_of_def nth_append)+
  show "eth_get_ethertype std_pnet (eth_set_ethertype std_pnet t b) = t"
    using b by (simp add: std_pnet_def nth_append ethertype_bytes)
  show "length (eth_set_destination std_pnet m b) = length b"
    "length (eth_set_source std_pnet m b) = length b"
    "length (eth_set_ethertype std_pnet t b) = length b"
    "drop 14 (eth_set_destination std_pnet m b) = drop 14 b"
    "drop 14 (eth_set_source std_pnet m b) = drop 14 b"
    "drop 14 (eth_set_ethertype std_pnet t b) = drop 14 b"
    "eth_payload std_pnet b = drop 14 b"
    using b by (simp_all add: std_pnet_def)
  show "eth_on_payload std_pnet u b = take 14 b @ u (drop 14 b)" by (simp add: std_pnet_def)
  show "eth_get_destination std_pnet (take 14 b @ c) = eth_get_destination std_pnet b \<and>
      eth_get_source std_pnet (take 14 b @ c) = eth_get_source std_pnet b \<and>
      eth_get_ethertype std_pnet (take 14 b @ c) = eth_get_ethertype std_pnet b"
    using b by (simp add: std_pnet_def mac_of_def nth_append)
qed

end
