(* ===== verification/Sequence_Number.thy ===== *)
theory Sequence_Number
  imports Ox_Prelude
begin

text \<open>
  \<^verbatim>\<open>omnixtend-rs/src/sequence_number.rs\<close>: the 22-bit sequence numbers. The residue
  arithmetic itself is the third-party crate \<^verbatim>\<open>modular\<close>; it is a parameter of every
  definition (a record of its four operations), and the locale \<open>modular_arith\<close> states the
  behaviour the code relies on. The locale \<open>sequence_counter\<close> is the interface the
  connection uses; every \<open>modular_arith\<close> provides it.
\<close>

section \<open>The crate \<^verbatim>\<open>modular\<close>\<close>

record 'm modular =
  to_modulo :: "int \<Rightarrow> nat \<Rightarrow> 'm"
  mod_add :: "'m \<Rightarrow> 'm \<Rightarrow> 'm"
  mod_sub :: "'m \<Rightarrow> 'm \<Rightarrow> 'm"
  remainder :: "'m \<Rightarrow> int"

text \<open>
  \<open>to_modulo x n\<close> is the residue class of \<open>x\<close> modulo \<open>n\<close>, \<open>remainder\<close> its least
  non-negative member, sums and differences are those of the classes. The code only uses
  non-negative \<^verbatim>\<open>i32\<close> arguments and one modulus.
\<close>

locale modular_arith =
  fixes L :: "'m modular"
  assumes remainder_to_modulo:
    "\<lbrakk>0 < n; n \<le> 2 ^ 30; 0 \<le> x; x < 2 ^ 31\<rbrakk> \<Longrightarrow> remainder L (to_modulo L x n) = x mod int n"
  and to_modulo_mod:
    "\<lbrakk>0 < n; n \<le> 2 ^ 30; 0 \<le> x; x < 2 ^ 31\<rbrakk> \<Longrightarrow> to_modulo L (x mod int n) n = to_modulo L x n"
  and mod_add_to_modulo:
    "\<lbrakk>0 < n; n \<le> 2 ^ 30; 0 \<le> x; x < int n; 0 \<le> y; y < int n\<rbrakk> \<Longrightarrow>
       mod_add L (to_modulo L x n) (to_modulo L y n) = to_modulo L ((x + y) mod int n) n"
  and mod_sub_to_modulo:
    "\<lbrakk>0 < n; n \<le> 2 ^ 30; 0 \<le> x; x < int n; 0 \<le> y; y < int n\<rbrakk> \<Longrightarrow>
       mod_sub L (to_modulo L x n) (to_modulo L y n) = to_modulo L ((x - y) mod int n) n"

section \<open>\<^verbatim>\<open>SequenceNumber\<close>\<close>

text \<open>The struct holds one residue behind a lock; the model passes the residue.\<close>

definition sn_modulus :: nat where
  "sn_modulus = 2 ^ 22"

definition sn_max :: int where
  "sn_max = 2 ^ 22 - 1"

definition sn_new :: "'m modular \<Rightarrow> int \<Rightarrow> 'm" where
  "sn_new L start = to_modulo L start sn_modulus"

definition sn_set :: "'m modular \<Rightarrow> int \<Rightarrow> 'm" where
  "sn_set L v = to_modulo L v sn_modulus"

definition sn_incr :: "'m modular \<Rightarrow> 'm \<Rightarrow> 'm" where
  "sn_incr L s = mod_add L s (to_modulo L 1 sn_modulus)"

definition sn_decr :: "'m modular \<Rightarrow> 'm \<Rightarrow> 'm" where
  "sn_decr L s = mod_sub L s (to_modulo L 1 sn_modulus)"

definition sn_get_last :: "'m modular \<Rightarrow> 'm \<Rightarrow> u32" where
  "sn_get_last L s = word_of_int (remainder L (mod_sub L s (to_modulo L 1 sn_modulus)))"

definition sn_val :: "'m modular \<Rightarrow> 'm \<Rightarrow> int" where
  "sn_val L s = remainder L s"

definition sn_cmp :: "'m modular \<Rightarrow> 'm \<Rightarrow> u32 \<Rightarrow> bool" where
  "sn_cmp L s v \<longleftrightarrow> remainder L (mod_sub L s (to_modulo L (sint v) sn_modulus)) < 2 ^ 21"

definition sn_diff :: "'m modular \<Rightarrow> 'm \<Rightarrow> 'm \<Rightarrow> 'm" where
  "sn_diff L s t = mod_sub L s t"

section \<open>Distances on the 22-bit circle\<close>

text \<open>How many increments lead from \<open>a\<close> to \<open>b\<close>.\<close>

definition seq_dist :: "int \<Rightarrow> int \<Rightarrow> nat" where
  "seq_dist a b = nat ((b - a) mod 2 ^ 22)"

lemma int_seq_dist: "int (seq_dist a b) = (b - a) mod 2 ^ 22"
  by (simp add: seq_dist_def)

lemma seq_dist_less: "seq_dist a b < 2 ^ 22"
  by (simp add: seq_dist_def nat_less_iff)

lemma seq_dist_0_iff:
  assumes "0 \<le> a" "a < 2 ^ 22" "0 \<le> b" "b < 2 ^ 22"
  shows "seq_dist a b = 0 \<longleftrightarrow> a = b"
proof
  assume "seq_dist a b = 0"
  then have "(b - a) mod 2 ^ 22 = 0" using int_seq_dist [of a b] by simp
  then have "(2 ^ 22 :: int) dvd b - a" by (simp add: mod_eq_0_iff_dvd)
  moreover have "\<bar>b - a\<bar> < 2 ^ 22" using assms by linarith
  ultimately show "a = b" using dvd_imp_le_int [of "b - a" "2 ^ 22"] by fastforce
qed (simp add: seq_dist_def)

lemma seq_dist_self [simp]: "seq_dist a a = 0"
  by (simp add: seq_dist_def)

lemma seq_dist_step_left:
  assumes "seq_dist a b = Suc k"
  shows "seq_dist ((a + 1) mod 2 ^ 22) b = k"
proof -
  have ab: "(b - a) mod 2 ^ 22 = int k + 1"
    using int_seq_dist [of a b] assms by simp
  have "(b - (a + 1) mod 2 ^ 22) mod 2 ^ 22 = ((b - a) mod 2 ^ 22 - 1) mod 2 ^ 22"
    by (simp add: mod_simps algebra_simps)
  also have "\<dots> = int k mod 2 ^ 22" using ab by simp
  also have "\<dots> = int k" using seq_dist_less [of a b] assms by simp
  finally show ?thesis by (simp add: seq_dist_def)
qed

lemma seq_dist_step_right:
  assumes "Suc (seq_dist a b) < 2 ^ 22"
  shows "seq_dist a ((b + 1) mod 2 ^ 22) = Suc (seq_dist a b)"
proof -
  have "((b + 1) mod 2 ^ 22 - a) mod 2 ^ 22 = ((b - a) mod 2 ^ 22 + 1) mod 2 ^ 22"
    by (simp add: mod_simps algebra_simps)
  also have "\<dots> = (int (seq_dist a b) + 1) mod 2 ^ 22" by (simp add: int_seq_dist)
  also have "\<dots> = int (Suc (seq_dist a b))" using assms by simp
  finally show ?thesis unfolding seq_dist_def by simp
qed

lemma seq_dist_advance:
  assumes "0 \<le> b" "b < 2 ^ 22"
  shows "(a + int (seq_dist a b)) mod 2 ^ 22 = b"
  using assms by (simp add: int_seq_dist mod_simps)

section \<open>The interface the connection relies on\<close>

text \<open>A stored residue is canonical when it is the class of its own remainder.\<close>

definition sn_ok :: "'m modular \<Rightarrow> 'm \<Rightarrow> bool" where
  "sn_ok L s \<longleftrightarrow> 0 \<le> sn_val L s \<and> sn_val L s < 2 ^ 22 \<and> s = sn_set L (sn_val L s)"

locale sequence_counter =
  fixes ok :: "'s \<Rightarrow> bool"
    and val :: "'s \<Rightarrow> int"
    and make :: "int \<Rightarrow> 's"
    and incr :: "'s \<Rightarrow> 's"
    and behind :: "'s \<Rightarrow> u32 \<Rightarrow> bool"
  assumes val_range: "ok s \<Longrightarrow> 0 \<le> val s \<and> val s < 2 ^ 22"
    and val_inject: "\<lbrakk>ok s; ok t; val s = val t\<rbrakk> \<Longrightarrow> s = t"
    and make_ok: "\<lbrakk>0 \<le> x; x < 2 ^ 22\<rbrakk> \<Longrightarrow> ok (make x) \<and> val (make x) = x"
    and incr_ok: "ok s \<Longrightarrow> ok (incr s) \<and> val (incr s) = (val s + 1) mod 2 ^ 22"
    and behind_iff:
      "\<lbrakk>ok s; v < 2 ^ 22\<rbrakk> \<Longrightarrow> behind s v \<longleftrightarrow> (val s - uint v) mod 2 ^ 22 < 2 ^ 21"
begin

lemma seq_dist_val_0_iff: "\<lbrakk>ok s; ok t\<rbrakk> \<Longrightarrow> seq_dist (val s) (val t) = 0 \<longleftrightarrow> s = t"
  using seq_dist_0_iff [of "val s" "val t"] val_range [of s] val_range [of t] val_inject [of s t]
  by auto

lemma incr_iter: "ok s \<Longrightarrow> ok ((incr ^^ k) s) \<and> val ((incr ^^ k) s) = (val s + int k) mod 2 ^ 22"
proof (induction k)
  case 0
  then show ?case using val_range [of s] by simp
next
  case (Suc k)
  then show ?case by (simp add: incr_ok mod_simps algebra_simps)
qed

text \<open>A number at most half the circle behind the counter counts as already seen; one at
  most half the circle ahead of it does not.\<close>

lemma behind_past:
  assumes "ok s" "v < 2 ^ 22" "seq_dist (uint v) (val s) < 2 ^ 21"
  shows "behind s v"
  using assms by (simp add: behind_iff seq_dist_def nat_less_iff)

lemma not_behind_future:
  assumes "ok s" "v < 2 ^ 22" "0 < seq_dist (val s) (uint v)" "seq_dist (val s) (uint v) \<le> 2 ^ 21"
  shows "\<not> behind s v"
proof -
  let ?d = "int (seq_dist (val s) (uint v))"
  have "(val s - uint v) mod 2 ^ 22 = (- ?d) mod 2 ^ 22"
    by (simp add: int_seq_dist mod_simps algebra_simps)
  also have "\<dots> = 2 ^ 22 - ?d"
    using assms(3) seq_dist_less [of "val s" "uint v"] by (simp add: zmod_zminus1_eq_if)
  finally show ?thesis using assms by (simp add: behind_iff)
qed

end

section \<open>\<^verbatim>\<open>SequenceNumber\<close> provides the interface\<close>

context modular_arith
begin

lemma sn_set_ok: "\<lbrakk>0 \<le> x; x < 2 ^ 22\<rbrakk> \<Longrightarrow> sn_ok L (sn_set L x) \<and> sn_val L (sn_set L x) = x"
  by (simp add: sn_ok_def sn_val_def sn_set_def sn_modulus_def remainder_to_modulo)

lemma sn_okE:
  assumes "sn_ok L s"
  obtains x where "0 \<le> x" "x < 2 ^ 22" "s = to_modulo L x sn_modulus" "sn_val L s = x"
  using assms by (auto simp: sn_ok_def sn_set_def)

lemma sn_val_to_modulo:
  "\<lbrakk>0 \<le> x; x < 2 ^ 31\<rbrakk> \<Longrightarrow> sn_val L (to_modulo L x sn_modulus) = x mod 2 ^ 22"
  by (simp add: sn_val_def sn_modulus_def remainder_to_modulo)

lemma sn_incr_ok: "sn_ok L s \<Longrightarrow> sn_ok L (sn_incr L s) \<and> sn_val L (sn_incr L s) = (sn_val L s + 1) mod 2 ^ 22"
proof (elim sn_okE)
  fix x assume x: "0 \<le> x" "x < 2 ^ 22" "s = to_modulo L x sn_modulus" "sn_val L s = x"
  have "sn_incr L s = sn_set L ((x + 1) mod 2 ^ 22)"
    using x mod_add_to_modulo [of sn_modulus x 1]
    by (simp add: sn_incr_def sn_set_def sn_modulus_def)
  then show ?thesis using sn_set_ok [of "(x + 1) mod 2 ^ 22"] x by simp
qed

lemma sn_diff_val:
  assumes "sn_ok L s" "sn_ok L t"
  shows "sn_ok L (sn_diff L s t)" "sn_val L (sn_diff L s t) = (sn_val L s - sn_val L t) mod 2 ^ 22"
proof -
  from assms(1) obtain x where x: "0 \<le> x" "x < 2 ^ 22" "s = to_modulo L x sn_modulus" "sn_val L s = x"
    by (rule sn_okE)
  from assms(2) obtain y where y: "0 \<le> y" "y < 2 ^ 22" "t = to_modulo L y sn_modulus" "sn_val L t = y"
    by (rule sn_okE)
  have "sn_diff L s t = sn_set L ((x - y) mod 2 ^ 22)"
    using x y mod_sub_to_modulo [of sn_modulus x y]
    by (simp add: sn_diff_def sn_set_def sn_modulus_def)
  then show "sn_ok L (sn_diff L s t)"
    and "sn_val L (sn_diff L s t) = (sn_val L s - sn_val L t) mod 2 ^ 22"
    using sn_set_ok [of "(x - y) mod 2 ^ 22"] x y by simp_all
qed

lemma sn_decr_ok:
  assumes "sn_ok L s"
  shows "sn_ok L (sn_decr L s)" "sn_val L (sn_decr L s) = (sn_val L s - 1) mod 2 ^ 22"
  using sn_diff_val [OF assms, of "sn_set L 1"] sn_set_ok [of 1]
  by (simp_all add: sn_diff_def sn_decr_def sn_set_def)

lemma sn_decr_incr:
  assumes s: "sn_ok L s"
  shows "sn_decr L (sn_incr L s) = s"
proof -
  have i: "sn_ok L (sn_incr L s)" using sn_incr_ok [OF s] ..
  have "sn_val L (sn_decr L (sn_incr L s)) = sn_val L s mod 2 ^ 22"
    using sn_incr_ok [OF s] by (simp add: sn_decr_ok(2) [OF i] mod_simps)
  also have "\<dots> = sn_val L s" using s by (simp add: sn_ok_def)
  finally show ?thesis using s sn_decr_ok(1) [OF i] by (metis sn_ok_def)
qed

lemma sint_22_bits:
  assumes "v < 2 ^ 22"
  shows "sint (v :: u32) = uint v"
proof -
  have "- (2 ^ 31) \<le> uint v" by (rule order_trans [of _ 0]) simp_all
  moreover have "uint v < 2 ^ 31" using assms by (simp add: word_less_def)
  ultimately show ?thesis by (simp add: sint_uint signed_take_bit_int_eq_self)
qed

lemma sn_get_last_val: "sn_ok L s \<Longrightarrow> uint (sn_get_last L s) = (sn_val L s - 1) mod 2 ^ 22"
proof -
  assume s: "sn_ok L s"
  have "sn_get_last L s = word_of_int ((sn_val L s - 1) mod 2 ^ 22)"
    using sn_decr_ok(2) [OF s] by (simp add: sn_get_last_def sn_decr_def sn_val_def)
  moreover have "0 \<le> (sn_val L s - 1) mod 2 ^ 22" "(sn_val L s - 1) mod 2 ^ 22 < 2 ^ 22" by simp_all
  ultimately show ?thesis by (simp add: uint_word_of_int)
qed

lemma sn_cmp_iff:
  assumes s: "sn_ok L s" and v: "v < 2 ^ 22"
  shows "sn_cmp L s v \<longleftrightarrow> (sn_val L s - uint v) mod 2 ^ 22 < 2 ^ 21"
proof -
  have u: "0 \<le> uint v" "uint v < 2 ^ 22" using v by (simp_all add: word_less_def)
  have "sn_cmp L s v \<longleftrightarrow> sn_val L (sn_diff L s (sn_set L (uint v))) < 2 ^ 21"
    using sint_22_bits [OF v] by (simp add: sn_cmp_def sn_val_def sn_diff_def sn_set_def)
  also have "\<dots> \<longleftrightarrow> (sn_val L s - uint v) mod 2 ^ 22 < 2 ^ 21"
    using sn_diff_val(2) [OF s, of "sn_set L (uint v)"] sn_set_ok [OF u] by simp
  finally show ?thesis .
qed

end

sublocale modular_arith \<subseteq>
  seq: sequence_counter "sn_ok L" "sn_val L" "sn_set L" "sn_incr L" "sn_cmp L"
proof unfold_locales
  fix s t :: 'm and x and v :: u32
  show "sn_ok L s \<Longrightarrow> 0 \<le> sn_val L s \<and> sn_val L s < 2 ^ 22" by (simp add: sn_ok_def)
  show "\<lbrakk>sn_ok L s; sn_ok L t; sn_val L s = sn_val L t\<rbrakk> \<Longrightarrow> s = t" by (metis sn_ok_def)
  show "\<lbrakk>0 \<le> x; x < 2 ^ 22\<rbrakk> \<Longrightarrow> sn_ok L (sn_set L x) \<and> sn_val L (sn_set L x) = x"
    by (rule sn_set_ok)
  show "sn_ok L s \<Longrightarrow> sn_ok L (sn_incr L s) \<and> sn_val L (sn_incr L s) = (sn_val L s + 1) mod 2 ^ 22"
    by (rule sn_incr_ok)
  show "\<lbrakk>sn_ok L s; v < 2 ^ 22\<rbrakk> \<Longrightarrow> sn_cmp L s v \<longleftrightarrow> (sn_val L s - uint v) mod 2 ^ 22 < 2 ^ 21"
    by (rule sn_cmp_iff)
qed

section \<open>A residue arithmetic that meets the laws\<close>

text \<open>Pairs of a remainder and its modulus.\<close>

definition std_modular :: "(int \<times> nat) modular" where
  "std_modular =
     \<lparr>to_modulo = (\<lambda>x n. (x mod int n, n)),
      mod_add = (\<lambda>a b. ((fst a + fst b) mod int (snd a), snd a)),
      mod_sub = (\<lambda>a b. ((fst a - fst b) mod int (snd a), snd a)),
      remainder = fst\<rparr>"

interpretation std: modular_arith std_modular
  by unfold_locales (auto simp: std_modular_def mod_simps)

section \<open>Properties\<close>

text \<open>
  Sequence numbers are the residues modulo \<open>2 ^ 22\<close>: incrementing wraps around, decrementing
  undoes it, and the comparison of \<^verbatim>\<open>cmp\<close> holds exactly for the numbers that lie less than half
  the circle behind.
\<close>

lemma sequence_numbers_wrap:
  assumes "modular_arith L" and "sn_ok L s" and "v < 2 ^ 22"
  shows "sn_ok L (sn_incr L s) \<and> sn_val L (sn_incr L s) = (sn_val L s + 1) mod 2 ^ 22 \<and>
    sn_decr L (sn_incr L s) = s \<and> uint (sn_get_last L (sn_incr L s)) = sn_val L s \<and>
    (sn_cmp L s v \<longleftrightarrow> seq_dist (uint v) (sn_val L s) < 2 ^ 21)"
proof -
  note incr = modular_arith.sn_incr_ok [OF assms(1,2)]
  then have "uint (sn_get_last L (sn_incr L s)) = sn_val L s mod 2 ^ 22"
    using modular_arith.sn_get_last_val [OF assms(1), of "sn_incr L s"] by (simp add: mod_simps)
  moreover have "sn_val L s mod 2 ^ 22 = sn_val L s" using assms(2) by (simp add: sn_ok_def)
  ultimately show ?thesis
    using incr modular_arith.sn_decr_incr [OF assms(1,2)] modular_arith.sn_cmp_iff [OF assms]
    by (simp add: seq_dist_def nat_less_iff)
qed

lemma sequence_numbers_wrap_witness:
  "sn_val std_modular (sn_incr std_modular (sn_new std_modular sn_max)) = 0 \<and>
   sn_cmp std_modular (sn_new std_modular sn_max) 4194302"
proof -
  have "sn_ok std_modular (sn_new std_modular sn_max)" "(4194302 :: u32) < 2 ^ 22"
    by (simp_all add: sn_ok_def sn_val_def sn_set_def sn_new_def sn_max_def sn_modulus_def std_modular_def)
  from sequence_numbers_wrap [OF std.modular_arith_axioms this] show ?thesis
    by (simp add: seq_dist_def) (simp add: sn_val_def sn_new_def sn_max_def sn_modulus_def std_modular_def)
qed

end
