(* ===== verification/Connection.thy ===== *)
theory Connection
  imports Ox_Packet Sequence_Number Credits
begin

text \<open>
  \<^verbatim>\<open>omnixtend-rs/src/connection.rs\<close>: one OmniXtend connection. Locks and atomics are plain
  fields (every method is one step), a queue is a list with its front first, an \<^verbatim>\<open>Instant\<close>
  is a number of nanoseconds and reading the clock is an argument. Formatting of log messages
  has no effect on the state and is left out.
\<close>

section \<open>State\<close>

type_synonym instant = nat
type_synonym duration = nat

datatype conn_error =
    CompatModeClose
  | ParseMacError MacAddr
  | ParseEthType EtherType
  | OutOfOrder usize usize
  | SendOnIdle
  | PacketNotSent
  | NoResendData
  | ResendInProgress
  | NotEthernetPacket
  | ConnectionCloseTimeout duration

datatype ConnectionState =
    Idle | Active | Enabled | Opened | ClosedByHost | ClosedByHostIndicated | ClosedByClient

record ConnectionStatus =
  st_rx_seq :: int
  st_tx_seq :: int
  st_they_acked :: int
  st_we_acked :: int
  st_last_msg_in_micros :: duration
  st_last_msg_out_micros :: duration

record 'm Connection =
  packet_data :: "bytes option"
  resend_data :: "bytes list"
  resend_buffer :: "bytes list"
  next_rx_seq :: 'm
  last_rx_seq :: 'm
  next_tx_seq :: 'm
  they_acked :: 'm
  we_acked :: 'm
  first_in_resend :: 'm
  credits_send :: credits
  credits_receive :: credits
  connection_state :: ConnectionState
  conn_id :: u8
  compat_mode :: bool
  my_mac :: MacAddr
  other_mac :: MacAddr
  last_message_received_at :: instant
  last_message_sent_at :: instant
  ticks :: u64
  last_ack_status :: bool
  send_outstanding :: bool
  resend_outstanding :: bool
  naks :: u64

section \<open>Opening and closing\<close>

text \<open>\<^verbatim>\<open>now\<close> and \<^verbatim>\<open>now'\<close> are the two readings of the clock.\<close>

definition conn_new ::
    "'m modular \<Rightarrow> instant \<Rightarrow> instant \<Rightarrow> bool \<Rightarrow> u8 \<Rightarrow> MacAddr \<Rightarrow> MacAddr \<Rightarrow> 'm Connection" where
  "conn_new L now now' compat0 cid mine other =
     (let default_credits = if compat0 then 0 else 128;
          default_credits_receive = push_bit 28 1
      in \<lparr>packet_data = None, resend_data = [], resend_buffer = [],
          next_rx_seq = sn_new L 0, last_rx_seq = sn_new L sn_max, next_tx_seq = sn_new L 0,
          they_acked = sn_new L sn_max, we_acked = sn_new L sn_max,
          first_in_resend = sn_new L sn_max,
          credits_send = credits_new default_credits,
          credits_receive = credits_new default_credits_receive,
          connection_state = Idle, conn_id = cid, compat_mode = compat0,
          my_mac = mine, other_mac = other,
          last_message_received_at = now, last_message_sent_at = now', ticks = 0,
          last_ack_status = False, send_outstanding = True, resend_outstanding = False,
          naks = 0\<rparr>)"

definition establish_connection :: "'m Connection \<Rightarrow> 'm Connection" where
  "establish_connection c =
     (if connection_state c = Idle then
        (if compat_mode c then c\<lparr>connection_state := Active\<rparr>
         else c\<lparr>connection_state := Enabled\<rparr>)
      else c)"

definition is_active :: "'m Connection \<Rightarrow> bool" where
  "is_active c \<longleftrightarrow> connection_state c = Active"

definition initiate_close_connection :: "'m Connection \<Rightarrow> (unit, conn_error) result \<times> 'm Connection" where
  "initiate_close_connection c =
     (if connection_state c = Active \<or> connection_state c = Opened
      then (Ok (), c\<lparr>connection_state := ClosedByHost, send_outstanding := True\<rparr>)
      else (Ok (), c))"

definition check_timeout :: "duration option \<Rightarrow> instant \<Rightarrow> instant \<Rightarrow> (unit, conn_error) result" where
  "check_timeout timeout start now =
     (case timeout of
        Some t \<Rightarrow> if now - start \<ge> t then Err (ConnectionCloseTimeout t) else Ok ()
      | None \<Rightarrow> Ok ())"

text \<open>
  \<^verbatim>\<open>close_connection\<close> waits twice for a condition that other threads establish. The phases
  are the points at which it can be interrupted; a poll at time \<open>now\<close> runs it to the next
  \<^verbatim>\<open>snooze\<close> (\<open>Inl\<close> the phase in which it waits) or to its return (\<open>Inr\<close> the result).
  The clock readings of one poll coincide.
\<close>

datatype close_phase = Close_start | Wait_acked instant | Wait_idle instant

definition close_refused :: "'m modular \<Rightarrow> 'm Connection \<Rightarrow> bool" where
  "close_refused L c \<longleftrightarrow> compat_mode c \<or> connection_state c = Idle \<or>
     (connection_state c = Opened \<and> sn_val L (last_rx_seq c) = sn_max) \<or>
     connection_state c = Enabled"

definition close_wait_idle ::
    "duration option \<Rightarrow> instant \<Rightarrow> instant \<Rightarrow> 'm Connection \<Rightarrow>
     (close_phase + (unit, conn_error) result) \<times> 'm Connection" where
  "close_wait_idle timeout now start c =
     (if connection_state c \<noteq> Idle then
        (case check_timeout timeout start now of
           Err e \<Rightarrow> (Inr (Err e), c) | Ok _ \<Rightarrow> (Inl (Wait_idle start), c))
      else (Inr (Ok ()), c))"

definition close_wait_acked ::
    "'m modular \<Rightarrow> duration option \<Rightarrow> instant \<Rightarrow> instant \<Rightarrow> 'm Connection \<Rightarrow>
     (close_phase + (unit, conn_error) result) \<times> 'm Connection" where
  "close_wait_acked L timeout now start c =
     (if sn_val L (first_in_resend c) = sn_max then
        (case check_timeout timeout start now of
           Err e \<Rightarrow> (Inr (Err e), c) | Ok _ \<Rightarrow> (Inl (Wait_acked start), c))
      else let (r, c) = initiate_close_connection c in close_wait_idle timeout now now c)"

fun close_connection ::
    "'m modular \<Rightarrow> duration option \<Rightarrow> instant \<Rightarrow> close_phase \<Rightarrow> 'm Connection \<Rightarrow>
     (close_phase + (unit, conn_error) result) \<times> 'm Connection" where
  "close_connection L timeout now Close_start c =
     (if close_refused L c then (Inr (Err CompatModeClose), c)
      else close_wait_acked L timeout now now c)"
| "close_connection L timeout now (Wait_acked start) c = close_wait_acked L timeout now start c"
| "close_connection L timeout now (Wait_idle start) c = close_wait_idle timeout now start c"

section \<open>Sending\<close>

text \<open>Lengths are natural numbers: \<open>space_in_packet\<close> bounds the packet by 9000 bytes, and a
  slice is shorter than \<open>2 ^ 63\<close>.\<close>

definition space_in_packet ::
    "nat \<Rightarrow> bytes \<Rightarrow> nat \<Rightarrow> nat \<Rightarrow> u64 \<Rightarrow> bool \<times> nat \<times> nat \<times> u64" where
  "space_in_packet packet_len p mask_cntr ethernet_max msk =
     (let packet_len_new = packet_len + length p in
      if mask_cntr < 64 \<and> packet_len_new < ethernet_max
      then (True, packet_len_new, mask_cntr + length p div 8, msk OR push_bit mask_cntr 1)
      else (False, packet_len, mask_cntr, msk))"

text \<open>The iterator chain of \<^verbatim>\<open>put_messages\<close>: the state is the payload and the captured
  variables; the result carries the messages that remain after \<^verbatim>\<open>drain(0..put_in)\<close>.\<close>

record put_state =
  ps_payload :: bytes
  ps_packet_len :: nat
  ps_mask_cntr :: nat
  ps_mask :: u64
  ps_some_data :: bool

fun put_loop :: "nat \<Rightarrow> put_state \<Rightarrow> bytes list \<Rightarrow> put_state \<times> bytes list" where
  "put_loop ethernet_max ps [] = (ps, [])"
| "put_loop ethernet_max ps (p # ops) =
     (case space_in_packet (ps_packet_len ps) p (ps_mask_cntr ps) ethernet_max (ps_mask ps) of
        (fits, packet_len, mask_cntr, msk) \<Rightarrow>
          let ps = ps\<lparr>ps_packet_len := packet_len, ps_mask_cntr := mask_cntr, ps_mask := msk\<rparr> in
          if fits then
            put_loop ethernet_max (ps\<lparr>ps_payload := ps_payload ps @ p, ps_some_data := True\<rparr>) ops
          else (ps, p # ops))"

definition put_messages :: "bytes \<Rightarrow> bytes list option \<Rightarrow> bytes \<times> bool \<times> bytes list option" where
  "put_messages payload operations =
     (let ethernet_max = 9000; ethernet_min = 70;
          ps = \<lparr>ps_payload = payload, ps_packet_len = length payload + 8, ps_mask_cntr = 0,
                ps_mask = 0, ps_some_data = False\<rparr>;
          (ps, operations) = (case operations of
             Some ops \<Rightarrow> let (ps, rest) = put_loop ethernet_max ps ops in (ps, Some rest)
           | None \<Rightarrow> (ps, None));
          payload = (if ps_packet_len ps < ethernet_min
             then ps_payload ps @ replicate (ethernet_min - ps_packet_len ps) 0
             else ps_payload ps)
      in (payload @ u64_to_be_bytes (ps_mask ps), ps_some_data ps, operations))"

definition create_eth_header :: "pnet \<Rightarrow> 'm Connection \<Rightarrow> bytes \<Rightarrow> bytes outcome" where
  "create_eth_header P c buf =
     (if eth_new P buf then
        let buf = eth_set_source P (my_mac c) buf;
            buf = eth_set_destination P (other_mac c) buf
        in Returns (eth_set_ethertype P 0xAAAA buf)
      else Panics UnwrapOnNone)"

text \<open>The OmniXtend header lies in the payload of the Ethernet packet; the functions below
  take and return that payload.\<close>

definition create_ox_header :: "'m modular \<Rightarrow> pnet \<Rightarrow> 'm Connection \<Rightarrow> bytes \<Rightarrow> bytes outcome" where
  "create_ox_header L P c payload =
     (if ox_new P payload then
        let omni = ox_set P F_sequence_number_ack (word_of_int (sn_val L (last_rx_seq c))) payload
        in Returns (ox_set P F_ack (if last_ack_status c then 1 else 0) omni)
      else Panics UnwrapOnNone)"

definition set_message_type :: "pnet \<Rightarrow> OmnixtendMessageType \<Rightarrow> bytes \<Rightarrow> bytes" where
  "set_message_type P t omni = ox_set P F_message_type (ucast (message_type_as_u8 t)) omni"

definition determine_connection_state ::
    "pnet \<Rightarrow> 'm Connection \<Rightarrow> bytes \<Rightarrow> bool \<Rightarrow> 'm Connection \<times> bytes" where
  "determine_connection_state P c omni outstanding_requests =
     (let cstate = connection_state c in
      if \<not> compat_mode c then
        if cstate = Enabled then
          (c\<lparr>connection_state := Opened\<rparr>, set_message_type P OpenConnection omni)
        else if cstate = ClosedByHost \<and> \<not> outstanding_requests then
          (c\<lparr>connection_state := ClosedByHostIndicated\<rparr>, set_message_type P CloseConnection omni)
        else if cstate = ClosedByClient \<and> \<not> outstanding_requests then
          (c\<lparr>connection_state := Idle\<rparr>, set_message_type P CloseConnection omni)
        else (c, omni)
      else (c, omni))"

definition set_tx_sequence ::
    "'m modular \<Rightarrow> pnet \<Rightarrow> 'm Connection \<Rightarrow> bytes \<Rightarrow> 'm Connection \<times> bytes" where
  "set_tx_sequence L P c omni =
     (c\<lparr>next_tx_seq := sn_incr L (next_tx_seq c)\<rparr>,
      ox_set P F_sequence_number (word_of_int (sn_val L (next_tx_seq c))) omni)"

definition set_credit_field :: "pnet \<Rightarrow> 'm Connection \<Rightarrow> bytes \<Rightarrow> 'm Connection \<times> bytes" where
  "set_credit_field P c omni =
     (let ((i, v), cr) = get_highest (credits_receive c);
          c = c\<lparr>credits_receive := cr\<rparr>
      in if i \<noteq> 0 then
           let omni = ox_set P F_chan (ucast (ucast i :: u8)) omni
           in (c, ox_set P F_credit (ucast (ucast v :: u8)) omni)
         else (c, omni))"

definition send_packet ::
    "'m modular \<Rightarrow> pnet \<Rightarrow> 'm Connection \<Rightarrow> bytes list option \<Rightarrow> bool \<Rightarrow>
     ((unit, conn_error) result \<times> bytes list option \<times> 'm Connection) outcome" where
  "send_packet L P c operations outstanding_requests =
     (if connection_state c = Idle then Returns (Err SendOnIdle, operations, c)
      else if packet_data c \<noteq> None then Returns (Err PacketNotSent, operations, c)
      else
        let c = c\<lparr>send_outstanding := False\<rparr>;
            (buf, contains_data, operations) = put_messages (replicate (14 + 8) 0) operations
        in and_then (create_eth_header P c buf) (\<lambda>buf.
           and_then (create_ox_header L P c (eth_payload P buf)) (\<lambda>omni.
           let omni = set_message_type P NORMAL omni;
               (c, omni) = determine_connection_state P c omni outstanding_requests;
               (c, omni) = set_tx_sequence L P c omni;
               (c, omni) = set_credit_field P c omni;
               buf = eth_on_payload P (\<lambda>_. omni) buf
           in Returns (Ok (), operations,
                c\<lparr>packet_data := Some buf,
                  we_acked := sn_set L (sn_val L (last_rx_seq c)),
                  resend_buffer := resend_buffer c @ [buf]\<rparr>))))"

definition add_receive_credits :: "'m Connection \<Rightarrow> OmnixtendChannel \<Rightarrow> usize \<Rightarrow> 'm Connection" where
  "add_receive_credits c chan n = c\<lparr>credits_receive := credits_add (credits_receive c) chan n\<rparr>"

definition get_packet :: "instant \<Rightarrow> 'm Connection \<Rightarrow> bytes option \<times> 'm Connection" where
  "get_packet now c =
     (case resend_data c of
        p # rest \<Rightarrow> (Some p, c\<lparr>resend_data := rest, last_message_sent_at := now\<rparr>)
      | [] \<Rightarrow>
          (case packet_data c of
             Some p \<Rightarrow> (Some p, c\<lparr>packet_data := None, last_message_sent_at := now\<rparr>)
           | None \<Rightarrow> (None, c)))"

definition resend :: "'m Connection \<Rightarrow> (unit, conn_error) result \<times> 'm Connection" where
  "resend c =
     (if resend_buffer c = [] then (Err NoResendData, c)
      else if resend_data c \<noteq> [] then (Err ResendInProgress, c)
      else (Ok (), c\<lparr>resend_data := resend_data c @ resend_buffer c, resend_outstanding := False\<rparr>))"

section \<open>Receiving\<close>

text \<open>
  The arguments of a log message are evaluated only when its level is enabled. That matters in
  one place: \<^verbatim>\<open>update_send_credits\<close> converts the channel of the frame for a \<^verbatim>\<open>trace!\<close> message with
  \<^verbatim>\<open>From<u64>\<close>, which panics for the channels 6 and 7, before it converts it with \<^verbatim>\<open>From<u8>\<close>,
  which maps them to the invalid channel. \<open>trace\<close> says whether that level is enabled.
\<close>

definition update_send_credits :: "bool \<Rightarrow> pnet \<Rightarrow> 'm Connection \<Rightarrow> bytes \<Rightarrow> 'm Connection outcome" where
  "update_send_credits trace P c omni =
     and_then (if trace then channel_from_u64 (ucast (ox_get P F_chan omni)) else Returns Chan_INVALID) (\<lambda>_.
       Returns (c\<lparr>credits_send := credits_add (credits_send c)
         (channel_from_u8 (ucast (ox_get P F_chan omni)))
         (2 ^ unat (ox_get P F_credit omni))\<rparr>))"

text \<open>The loop pops one packet per increment, so it ends after at most as many iterations as
  the buffer has packets: with the numbers equal, or with the panic of \<^verbatim>\<open>expect\<close>.\<close>

fun remove_loop :: "'m modular \<Rightarrow> 'm \<Rightarrow> 'm \<Rightarrow> bytes list \<Rightarrow> ('m \<times> bytes list) outcome" where
  "remove_loop L acked first [] =
     (if sn_val L acked \<noteq> sn_val L first then Panics ResendBufferEmpty else Returns (first, []))"
| "remove_loop L acked first (p # buf) =
     (if sn_val L acked \<noteq> sn_val L first then remove_loop L acked (sn_incr L first) buf
      else Returns (first, p # buf))"

definition remove_from_resend :: "'m modular \<Rightarrow> 'm Connection \<Rightarrow> 'm Connection outcome" where
  "remove_from_resend L c =
     and_then (remove_loop L (they_acked c) (first_in_resend c) (resend_buffer c))
       (\<lambda>(first, buf). Returns (c\<lparr>first_in_resend := first, resend_buffer := buf\<rparr>))"

definition indicate_nak :: "'m Connection \<Rightarrow> 'm Connection" where
  "indicate_nak c = c\<lparr>resend_outstanding := True\<rparr>"

definition process_replicated ::
    "'m modular \<Rightarrow> pnet \<Rightarrow> 'm Connection \<Rightarrow> bool \<Rightarrow> bytes \<Rightarrow> (bytes, conn_error) result \<times> 'm Connection" where
  "process_replicated L P c ack_only omni =
     (if \<not> ack_only then
        (Err (OutOfOrder (ucast (ox_get P F_sequence_number omni))
            (word_of_int (sn_val L (next_rx_seq c)))),
         c\<lparr>naks := naks c + 1, last_ack_status := False, send_outstanding := True\<rparr>)
      else (Ok [], c))"

definition deny_wrong_mac :: "pnet \<Rightarrow> 'm Connection \<Rightarrow> bytes \<Rightarrow> (unit, conn_error) result" where
  "deny_wrong_mac P c packet =
     (if my_mac c \<noteq> eth_get_destination P packet
      then Err (ParseMacError (eth_get_destination P packet)) else Ok ())"

definition deny_wrong_ethertype :: "pnet \<Rightarrow> bytes \<Rightarrow> (unit, conn_error) result" where
  "deny_wrong_ethertype P packet =
     (if eth_get_ethertype P packet \<noteq> 0xAAAA
      then Err (ParseEthType (eth_get_ethertype P packet)) else Ok ())"

definition has_message_type :: "pnet \<Rightarrow> OmnixtendMessageType \<Rightarrow> bytes \<Rightarrow> bool" where
  "has_message_type P t omni \<longleftrightarrow> ox_get P F_message_type omni = ucast (message_type_as_u8 t)"

definition set_connection_state_receive :: "pnet \<Rightarrow> 'm Connection \<Rightarrow> bytes \<Rightarrow> 'm Connection" where
  "set_connection_state_receive P c omni =
     (let cstate = connection_state c in
      if \<not> compat_mode c then
        let c = (if cstate = Opened then c\<lparr>connection_state := Active\<rparr> else c);
            is_open_connection = has_message_type P OpenConnection omni;
            is_close_connection = has_message_type P CloseConnection omni
        in if is_open_connection \<and> cstate = Idle then c\<lparr>connection_state := Active\<rparr>
           else if is_close_connection \<and> cstate = ClosedByHostIndicated then
             c\<lparr>connection_state := Idle\<rparr>
           else if is_close_connection then
             c\<lparr>connection_state := ClosedByClient, send_outstanding := True\<rparr>
           else c
      else c)"

definition extract_payload :: "pnet \<Rightarrow> bytes \<Rightarrow> bytes outcome" where
  "extract_payload P omni =
     copy_into (replicate (length (ox_payload P omni)) 0) 0 (length (ox_payload P omni)) (ox_payload P omni)"

definition process_out_of_sequence :: "bytes \<Rightarrow> (bytes, conn_error) result" where
  "process_out_of_sequence omni = Ok []"

text \<open>The branch of \<^verbatim>\<open>process_packets\<close> for the expected sequence number.\<close>

definition process_expected ::
    "bool \<Rightarrow> 'm modular \<Rightarrow> pnet \<Rightarrow> instant \<Rightarrow> 'm Connection \<Rightarrow> bytes \<Rightarrow> bool \<Rightarrow>
     ((bytes, conn_error) result \<times> 'm Connection) outcome" where
  "process_expected trace L P now c omni ack_only =
     (let c = c\<lparr>last_message_received_at := now\<rparr>;
          c = c\<lparr>last_rx_seq := sn_set L (sint (ox_get P F_sequence_number omni))\<rparr>;
          c = c\<lparr>they_acked := sn_set L (sint (ox_get P F_sequence_number_ack omni))\<rparr>
      in and_then (remove_from_resend L c) (\<lambda>c.
         let c = (if ox_get P F_ack omni = 1 then c else indicate_nak c) in
         if \<not> ack_only then
           and_then (if ox_get P F_chan omni > 0 then update_send_credits trace P c omni else Returns c) (\<lambda>c.
             let c = c\<lparr>last_ack_status := True\<rparr>;
                 c = c\<lparr>next_rx_seq := sn_incr L (next_rx_seq c)\<rparr>
             in and_then (extract_payload P omni) (\<lambda>payload.
                Returns (Ok payload, set_connection_state_receive P c omni)))
         else Returns (Ok [], c)))"

definition process_packets_logged ::
    "bool \<Rightarrow> 'm modular \<Rightarrow> pnet \<Rightarrow> instant \<Rightarrow> 'm Connection \<Rightarrow> bytes \<Rightarrow>
     ((bytes, conn_error) result \<times> 'm Connection) outcome" where
  "process_packets_logged trace L P now c v =
     (if \<not> eth_new P v then Returns (Err NotEthernetPacket, c)
      else case deny_wrong_mac P c v of
        Err e \<Rightarrow> Returns (Err e, c)
      | Ok _ \<Rightarrow>
          (case deny_wrong_ethertype P v of
             Err e \<Rightarrow> Returns (Err e, c)
           | Ok _ \<Rightarrow>
               let omni = eth_payload P v in
               if \<not> ox_new P omni then Panics UnwrapOnNone
               else
                 let ack_only = has_message_type P AckOnly omni in
                 if sint (ox_get P F_sequence_number omni) = sn_val L (next_rx_seq c) then
                   process_expected trace L P now c omni ack_only
                 else if \<not> sn_cmp L (next_rx_seq c) (ox_get P F_sequence_number omni) then
                   Returns (process_replicated L P c ack_only omni)
                 else Returns (process_out_of_sequence omni, c)))"

text \<open>With trace messages off, as everywhere in the development but where \<open>trace\<close> is an argument.\<close>

definition process_packets ::
    "'m modular \<Rightarrow> pnet \<Rightarrow> instant \<Rightarrow> 'm Connection \<Rightarrow> bytes \<Rightarrow>
     ((bytes, conn_error) result \<times> 'm Connection) outcome" where
  "process_packets = process_packets_logged False"

section \<open>Observers\<close>

definition conn_send_outstanding :: "'m Connection \<Rightarrow> bool" where
  "conn_send_outstanding c \<longleftrightarrow> send_outstanding c \<or> credits_any (credits_receive c)"

definition ack_outstanding :: "'m modular \<Rightarrow> 'm Connection \<Rightarrow> bool" where
  "ack_outstanding L c \<longleftrightarrow> sn_val L (we_acked c) \<noteq> sn_val L (last_rx_seq c)"

definition conn_status :: "'m modular \<Rightarrow> instant \<Rightarrow> instant \<Rightarrow> 'm Connection \<Rightarrow> ConnectionStatus" where
  "conn_status L now now' c =
     \<lparr>st_rx_seq = sn_val L (next_rx_seq c), st_tx_seq = sn_val L (next_tx_seq c),
      st_they_acked = sn_val L (they_acked c), st_we_acked = sn_val L (we_acked c),
      st_last_msg_in_micros = now - last_message_received_at c,
      st_last_msg_out_micros = now' - last_message_sent_at c\<rparr>"

end
