(* ===== verification/Connection_Frames.thy ===== *)
theory Connection_Frames
  imports Connection
begin

text \<open>
  What \<^verbatim>\<open>connection.rs\<close> puts on the wire: which messages a packet takes, which bits of the
  message mask are set, how long a frame is, and what its Ethernet and OmniXtend headers say.
  The lemmas hold for every residue arithmetic and every set of packet accessors that meet the
  laws of \<open>modular_arith\<close> and \<open>pnet_laws\<close> (the locale \<open>ox_link\<close>).
\<close>

section \<open>Packing messages\<close>

text \<open>The flit at which each of a sequence of messages starts.\<close>

fun start_flits :: "nat \<Rightarrow> bytes list \<Rightarrow> nat list" where
  "start_flits s [] = []"
| "start_flits s (p # ps) = s # start_flits (s + length p div 8) ps"

definition flits :: "bytes list \<Rightarrow> nat" where
  "flits ps = sum_list (map (\<lambda>p. length p div 8) ps)"

lemma flits_simps [simp]: "flits [] = 0" "flits (p # ps) = length p div 8 + flits ps"
  by (simp_all add: flits_def)

lemma set_start_flits_subset: "j \<in> set (start_flits s ps) \<Longrightarrow> s \<le> j"
  by (induction ps arbitrary: s) fastforce+

lemma put_loop_spec:
  assumes "put_loop M ps ops = (ps', rest)"
  obtains n where "n \<le> length ops" "rest = drop n ops"
    "ps_payload ps' = ps_payload ps @ concat (take n ops)"
    "ps_packet_len ps' = ps_packet_len ps + length (concat (take n ops))"
    "ps_mask_cntr ps' = ps_mask_cntr ps + flits (take n ops)"
    "\<And>j. bit (ps_mask ps') j \<longleftrightarrow> bit (ps_mask ps) j \<or> j \<in> set (start_flits (ps_mask_cntr ps) (take n ops))"
    "\<forall>j \<in> set (start_flits (ps_mask_cntr ps) (take n ops)). j < 64"
    "0 < n \<Longrightarrow> ps_packet_len ps' < M"
    "n < length ops \<Longrightarrow> 64 \<le> ps_mask_cntr ps' \<or> M \<le> ps_packet_len ps' + length (ops ! n)"
    "ps_some_data ps' \<longleftrightarrow> ps_some_data ps \<or> 0 < n"
  using assms
proof (induction ops arbitrary: ps thesis)
  case Nil
  from Nil.prems(2) show ?case by (intro Nil.prems(1) [of 0]) auto
next
  case (Cons p ops)
  let ?fits = "ps_mask_cntr ps < 64 \<and> ps_packet_len ps + length p < M"
  show ?case
  proof (cases ?fits)
    case False
    then have "ps' = ps" "rest = p # ops"
      using Cons.prems(2) by (auto simp: space_in_packet_def Let_def split: if_splits)
    with False show ?thesis by (intro Cons.prems(1) [of 0]) auto
  next
    case True
    define ps1 where "ps1 = ps\<lparr>ps_packet_len := ps_packet_len ps + length p,
      ps_mask_cntr := ps_mask_cntr ps + length p div 8,
      ps_mask := ps_mask ps OR push_bit (ps_mask_cntr ps) 1,
      ps_payload := ps_payload ps @ p, ps_some_data := True\<rparr>"
    have "put_loop M ps1 ops = (ps', rest)"
      using Cons.prems(2) True by (simp add: space_in_packet_def ps1_def)
    from Cons.IH [OF _ this] obtain n where n: "n \<le> length ops" "rest = drop n ops"
      "ps_payload ps' = ps_payload ps1 @ concat (take n ops)"
      "ps_packet_len ps' = ps_packet_len ps1 + length (concat (take n ops))"
      "ps_mask_cntr ps' = ps_mask_cntr ps1 + flits (take n ops)"
      "\<And>j. bit (ps_mask ps') j \<longleftrightarrow> bit (ps_mask ps1) j \<or> j \<in> set (start_flits (ps_mask_cntr ps1) (take n ops))"
      "\<forall>j \<in> set (start_flits (ps_mask_cntr ps1) (take n ops)). j < 64"
      "0 < n \<Longrightarrow> ps_packet_len ps' < M"
      "n < length ops \<Longrightarrow> 64 \<le> ps_mask_cntr ps' \<or> M \<le> ps_packet_len ps' + length (ops ! n)"
      "ps_some_data ps' \<longleftrightarrow> ps_some_data ps1 \<or> 0 < n" by blast
    show ?thesis
    proof (rule Cons.prems(1) [of "Suc n"])
      show "bit (ps_mask ps') j \<longleftrightarrow> bit (ps_mask ps) j \<or>
          j \<in> set (start_flits (ps_mask_cntr ps) (take (Suc n) (p # ops)))" for j
        using n(6) [of j] True by (auto simp: ps1_def bit_or_iff bit_exp_iff)
      show "ps_packet_len ps' < M" using n(4,8) True by (cases n) (auto simp: ps1_def)
    qed (use n True in \<open>auto simp: ps1_def\<close>)
  qed
qed

text \<open>The part of a frame that follows the headers: the messages, zero padding up to the
  minimum frame length, and the mask.\<close>

definition body_of :: "bytes list \<Rightarrow> bytes" where
  "body_of ms = concat ms @ replicate (40 - length (concat ms)) 0"

lemma put_messages_spec:
  assumes "length h = 22"
  obtains n m where "n \<le> length ops"
    "put_messages h (Some ops) = (h @ body_of (take n ops) @ u64_to_be_bytes m, 0 < n, Some (drop n ops))"
    "\<And>j. bit m j \<longleftrightarrow> j \<in> set (start_flits 0 (take n ops))"
    "\<forall>j \<in> set (start_flits 0 (take n ops)). j < 64"
    "30 + length (concat (take n ops)) < 9000"
    "n < length ops \<Longrightarrow> 64 \<le> flits (take n ops) \<or> 9000 \<le> 30 + length (concat (take n ops)) + length (ops ! n)"
proof -
  define ps where "ps = \<lparr>ps_payload = h, ps_packet_len = length h + 8, ps_mask_cntr = 0,
    ps_mask = 0, ps_some_data = False\<rparr>"
  obtain ps' rest where loop: "put_loop 9000 ps ops = (ps', rest)" by fastforce
  from put_loop_spec [OF loop] obtain n where n: "n \<le> length ops" "rest = drop n ops"
    "ps_payload ps' = h @ concat (take n ops)"
    "ps_packet_len ps' = 30 + length (concat (take n ops))"
    "ps_mask_cntr ps' = flits (take n ops)"
    "\<And>j. bit (ps_mask ps') j \<longleftrightarrow> j \<in> set (start_flits 0 (take n ops))"
    "\<forall>j \<in> set (start_flits 0 (take n ops)). j < 64"
    "0 < n \<Longrightarrow> ps_packet_len ps' < 9000"
    "n < length ops \<Longrightarrow> 64 \<le> ps_mask_cntr ps' \<or> 9000 \<le> ps_packet_len ps' + length (ops ! n)"
    "ps_some_data ps' \<longleftrightarrow> 0 < n"
    using assms by (simp add: ps_def) blast
  have "put_messages h (Some ops) =
      (h @ body_of (take n ops) @ u64_to_be_bytes (ps_mask ps'), 0 < n, Some (drop n ops))"
    unfolding put_messages_def Let_def ps_def [symmetric]
    by (simp add: loop n(2,3,4,10) body_of_def)
  moreover have "30 + length (concat (take n ops)) < 9000" using n(4,8) by (cases n) auto
  ultimately show thesis using that [of n "ps_mask ps'"] n by (metis add.assoc)
qed

lemma put_messages_None:
  "length h = 22 \<Longrightarrow> put_messages h None = (h @ body_of [] @ u64_to_be_bytes 0, False, None)"
  by (simp add: put_messages_def body_of_def)

text \<open>How many of the queued messages a packet takes: the longest prefix in which every message
  starts within the 64 flits the mask can describe and the frame stays below 9000 bytes.\<close>

definition takes_prefix :: "bytes list \<Rightarrow> nat \<Rightarrow> u64 \<Rightarrow> bool" where
  "takes_prefix ops n m \<longleftrightarrow> n \<le> length ops \<and>
     (\<forall>j. bit m j \<longleftrightarrow> j \<in> set (start_flits 0 (take n ops))) \<and>
     (\<forall>j \<in> set (start_flits 0 (take n ops)). j < 64) \<and>
     30 + length (concat (take n ops)) < 9000 \<and>
     (n < length ops \<longrightarrow> 64 \<le> flits (take n ops) \<or>
        9000 \<le> 30 + length (concat (take n ops)) + length (ops ! n))"

lemma put_messages_takes:
  assumes "length h = 22"
  obtains n m where "takes_prefix (case_option [] id operations) n m"
    "put_messages h operations =
       (h @ body_of (take n (case_option [] id operations)) @ u64_to_be_bytes m, 0 < n,
        map_option (drop n) operations)"
proof (cases operations)
  case None
  then show thesis
    using that [of 0 0] put_messages_None [OF assms] by (simp add: takes_prefix_def)
next
  case (Some ops)
  from assms show thesis
  proof (rule put_messages_spec [of h ops])
    fix n m assume "n \<le> length ops"
      "put_messages h (Some ops) = (h @ body_of (take n ops) @ u64_to_be_bytes m, 0 < n, Some (drop n ops))"
      "\<And>j. bit m j \<longleftrightarrow> j \<in> set (start_flits 0 (take n ops))"
      "\<forall>j \<in> set (start_flits 0 (take n ops)). j < 64"
      "30 + length (concat (take n ops)) < 9000"
      "n < length ops \<Longrightarrow> 64 \<le> flits (take n ops) \<or> 9000 \<le> 30 + length (concat (take n ops)) + length (ops ! n)"
    then show thesis using Some by (intro that [of n m]) (simp_all add: takes_prefix_def)
  qed
qed

lemma length_body_of: "length (body_of ms) = max 40 (length (concat ms))"
  by (simp add: body_of_def max_def)

section \<open>Headers\<close>

definition frame_field :: "pnet \<Rightarrow> Omnixtend_field \<Rightarrow> bytes \<Rightarrow> u32" where
  "frame_field P f frame = ox_get P f (eth_payload P frame)"

text \<open>The message type a packet announces, given the state in which it is sent, and the state
  after sending.\<close>

definition announced_type :: "'m Connection \<Rightarrow> bool \<Rightarrow> OmnixtendMessageType" where
  "announced_type c busy =
     (if compat_mode c then NORMAL
      else if connection_state c = Enabled then OpenConnection
      else if connection_state c \<in> {ClosedByHost, ClosedByClient} \<and> \<not> busy then CloseConnection
      else NORMAL)"

definition state_after_send :: "'m Connection \<Rightarrow> bool \<Rightarrow> ConnectionState" where
  "state_after_send c busy =
     (if compat_mode c then connection_state c
      else case connection_state c of
        Enabled \<Rightarrow> Opened
      | ClosedByHost \<Rightarrow> if busy then ClosedByHost else ClosedByHostIndicated
      | ClosedByClient \<Rightarrow> if busy then ClosedByClient else Idle
      | s \<Rightarrow> s)"

text \<open>The state after sending, and the frame. \<open>body\<close> is what follows the two headers.\<close>

definition sent_state :: "'m modular \<Rightarrow> 'm Connection \<Rightarrow> bool \<Rightarrow> bytes \<Rightarrow> 'm Connection" where
  "sent_state L c busy frame =
     c\<lparr>packet_data := Some frame, resend_buffer := resend_buffer c @ [frame],
       next_tx_seq := sn_incr L (next_tx_seq c), we_acked := sn_set L (sn_val L (last_rx_seq c)),
       credits_receive := snd (get_highest (credits_receive c)),
       connection_state := state_after_send c busy, send_outstanding := False\<rparr>"

definition frame_for :: "'m modular \<Rightarrow> pnet \<Rightarrow> 'm Connection \<Rightarrow> bool \<Rightarrow> bytes \<Rightarrow> bytes \<Rightarrow> bool" where
  "frame_for L P c busy body frame \<longleftrightarrow>
     length frame = 22 + length body \<and> drop 22 frame = body \<and>
     eth_get_destination P frame = other_mac c \<and> eth_get_source P frame = my_mac c \<and>
     eth_get_ethertype P frame = 0xAAAA \<and>
     frame_field P F_sequence_number frame = word_of_int (sn_val L (next_tx_seq c)) \<and>
     frame_field P F_sequence_number_ack frame = word_of_int (sn_val L (last_rx_seq c)) \<and>
     frame_field P F_ack frame = (if last_ack_status c then 1 else 0) \<and>
     frame_field P F_message_type frame = ucast (message_type_as_u8 (announced_type c busy)) \<and>
     frame_field P F_chan frame = fst (fst (get_highest (credits_receive c))) \<and>
     frame_field P F_credit frame =
       (if fst (fst (get_highest (credits_receive c))) = 0 then 0
        else snd (fst (get_highest (credits_receive c))))"

text \<open>The credit counters that \<^verbatim>\<open>set_credit_field\<close> can announce.\<close>

definition credits_small :: "credits \<Rightarrow> bool" where
  "credits_small cs \<longleftrightarrow> length cs = 5 \<and> (\<forall>x \<in> set cs. x < 2 ^ 32)"

lemma get_highest_range:
  assumes "credits_small cs" "get_highest cs = ((i, v), cs')"
  shows "i < 6 \<and> v < 32 \<and> credits_small cs'"
proof (cases "\<forall>x \<in> set cs. x = 0")
  case True
  with get_highest_none [OF True] assms show ?thesis by simp
next
  case False
  then obtain k m where k: "k < length cs" "m < 32"
    "get_highest cs = ((of_nat (k + 1), of_nat m), cs[k := unset_bit m (cs ! k)])"
    using assms(1) get_highest_some [of cs] by (metis credits_small_def)
  then have iv: "i = of_nat (k + 1)" "v = of_nat m" "cs' = cs[k := unset_bit m (cs ! k)]"
    using assms(2) by auto
  have "unset_bit m (cs ! k) \<le> cs ! k"
    by (simp add: unset_bit_eq_and_not word_and_le2)
  then have "unset_bit m (cs ! k) < 2 ^ 32"
    using k(1) assms(1) by (meson credits_small_def nth_mem order.strict_trans1)
  then have "\<forall>x \<in> set cs'. x < 2 ^ 32"
    using assms(1) k(1) set_update_subset_insert [of cs k] unfolding iv credits_small_def by blast
  moreover have "unat (of_nat (k + 1) :: u32) = k + 1"
    using k(1) assms(1) unfolding unat_of_nat by (simp add: credits_small_def)
  ultimately show ?thesis
    using iv k assms(1) by (simp add: credits_small_def word_less_nat_alt unat_of_nat)
qed

lemma unat_small_byte: "(v :: u32) < 256 \<Longrightarrow> ucast (ucast v :: u8) = v"
proof -
  assume "v < 256"
  then have "take_bit 8 v = v" using take_bit_less_exp [of v 8] by simp
  moreover have "(ucast (ucast v :: u8) :: u32) = take_bit 8 v"
    by (rule bit_eqI) (auto simp: bit_simps)
  ultimately show ?thesis by simp
qed

text \<open>The fields that the header of an outgoing packet has.\<close>

definition written_field :: "'m modular \<Rightarrow> 'm Connection \<Rightarrow> bool \<Rightarrow> Omnixtend_field \<Rightarrow> u32" where
  "written_field L c busy fld =
     (let ((i, v), _) = get_highest (credits_receive c) in
      if i \<noteq> 0 \<and> fld = F_chan then i else if i \<noteq> 0 \<and> fld = F_credit then v
      else if fld = F_sequence_number then word_of_int (sn_val L (next_tx_seq c))
      else if fld = F_message_type then ucast (message_type_as_u8 (announced_type c busy))
      else if fld = F_ack then (if last_ack_status c then 1 else 0)
      else if fld = F_sequence_number_ack then word_of_int (sn_val L (last_rx_seq c)) else 0)"

locale ox_link = modular_arith L + pnet_laws P
  for L :: "'m modular" and P :: pnet
begin

lemma create_eth_header_returns:
  assumes "14 \<le> length buf"
  obtains f where "create_eth_header P c buf = Returns f" "length f = length buf"
    "drop 14 f = drop 14 buf" "eth_get_destination P f = other_mac c"
    "eth_get_source P f = my_mac c" "eth_get_ethertype P f = 0xAAAA"
  using assms
  by (simp add: create_eth_header_def eth_new_iff Let_def eth_length eth_payload_frame eth_type
      eth_destination eth_destination_type eth_source eth_source_type eth_source_destination)

lemma sn_word:
  assumes "sn_ok L s"
  shows "(word_of_int (sn_val L s) :: u32) < 2 ^ 22" "uint (word_of_int (sn_val L s) :: u32) = sn_val L s"
    "sint (word_of_int (sn_val L s) :: u32) = sn_val L s"
proof -
  have r: "0 \<le> sn_val L s" "sn_val L s < 2 ^ 22" using assms by (simp_all add: sn_ok_def)
  then show u: "uint (word_of_int (sn_val L s) :: u32) = sn_val L s"
    by (simp add: uint_word_of_int)
  then show lt: "(word_of_int (sn_val L s) :: u32) < 2 ^ 22" using r by (simp add: word_less_def)
  show "sint (word_of_int (sn_val L s) :: u32) = sn_val L s"
    using sint_22_bits [OF lt] u by simp
qed

text \<open>The OmniXtend header of an outgoing packet, as the composition of the header functions
  leaves it.\<close>

lemma set_message_type_fields:
  assumes "8 \<le> length omni"
  shows "length (set_message_type P t omni) = length omni"
    and "drop 8 (set_message_type P t omni) = drop 8 omni"
    and "ox_get P f (set_message_type P t omni) =
      (if f = F_message_type then ucast (message_type_as_u8 t) else ox_get P f omni)"
proof -
  have "(ucast (message_type_as_u8 t) :: u32) < 2 ^ field_width F_message_type" by (cases t) simp_all
  then show "ox_get P f (set_message_type P t omni) =
      (if f = F_message_type then ucast (message_type_as_u8 t) else ox_get P f omni)"
    using assms by (simp add: set_message_type_def ox_get_set)
qed (use assms in \<open>simp_all add: set_message_type_def ox_set_length ox_set_payload\<close>)

lemma determine_connection_state_spec:
  assumes "8 \<le> length omni" "ox_get P F_message_type omni = ucast (message_type_as_u8 NORMAL)"
    and "determine_connection_state P c omni busy = (c', omni')"
  shows "c' = c\<lparr>connection_state := state_after_send c busy\<rparr>" "length omni' = length omni"
    "drop 8 omni' = drop 8 omni"
    "ox_get P f omni' =
      (if f = F_message_type then ucast (message_type_as_u8 (announced_type c busy)) else ox_get P f omni)"
proof -
  have "c' = c\<lparr>connection_state := state_after_send c busy\<rparr> \<and> length omni' = length omni \<and>
    drop 8 omni' = drop 8 omni \<and> ox_get P f omni' =
      (if f = F_message_type then ucast (message_type_as_u8 (announced_type c busy)) else ox_get P f omni)"
    using assms set_message_type_fields [OF assms(1)]
    by (cases "connection_state c"; cases "compat_mode c"; cases busy)
      (auto simp: determine_connection_state_def Let_def state_after_send_def announced_type_def)
  then show "c' = c\<lparr>connection_state := state_after_send c busy\<rparr>" "length omni' = length omni"
    "drop 8 omni' = drop 8 omni"
    "ox_get P f omni' =
      (if f = F_message_type then ucast (message_type_as_u8 (announced_type c busy)) else ox_get P f omni)"
    by blast+
qed

lemma set_credit_field_spec:
  assumes "8 \<le> length omni" "credits_small (credits_receive c)"
    and "get_highest (credits_receive c) = ((i, v), cr)"
    and "set_credit_field P c omni = (c', omni')"
  shows "c' = c\<lparr>credits_receive := cr\<rparr>" "length omni' = length omni" "drop 8 omni' = drop 8 omni"
    "ox_get P f omni' = (if i \<noteq> 0 \<and> f = F_chan then i else if i \<noteq> 0 \<and> f = F_credit then v
      else ox_get P f omni)"
proof -
  note r = get_highest_range [OF assms(2,3)]
  have narrow: "(ucast (ucast i :: u8) :: u32) = i" "(ucast (ucast v :: u8) :: u32) = v"
    using r by (simp_all add: unat_small_byte word_less_nat_alt)
  have i8: "i < 8" using r by (simp add: word_less_nat_alt)
  show "c' = c\<lparr>credits_receive := cr\<rparr>" "length omni' = length omni" "drop 8 omni' = drop 8 omni"
    "ox_get P f omni' = (if i \<noteq> 0 \<and> f = F_chan then i else if i \<noteq> 0 \<and> f = F_credit then v
      else ox_get P f omni)"
    using assms r i8 by (auto simp: set_credit_field_def Let_def narrow ox_set_length ox_set_payload
        ox_get_set split: if_splits)
qed

text \<open>The chain of header functions, on a header that is still zero.\<close>

lemma create_ox_header_returns:
  assumes "8 \<le> length w" "\<And>fld. ox_get P fld w = 0" "sn_ok L (last_rx_seq c)"
  obtains omni where "create_ox_header L P c w = Returns omni" "length omni = length w" "drop 8 omni = drop 8 w"
    "\<And>fld. ox_get P fld omni = (if fld = F_ack then (if last_ack_status c then 1 else 0)
       else if fld = F_sequence_number_ack then word_of_int (sn_val L (last_rx_seq c)) else 0)"
  using that assms(1,2) sn_word(1) [OF assms(3)]
  by (simp add: create_ox_header_def ox_new_iff ox_set_length ox_set_payload ox_get_set)

lemma set_tx_sequence_spec:
  assumes "8 \<le> length omni" "sn_ok L (next_tx_seq c)"
  obtains omni' where "set_tx_sequence L P c omni = (c\<lparr>next_tx_seq := sn_incr L (next_tx_seq c)\<rparr>, omni')"
    "length omni' = length omni" "drop 8 omni' = drop 8 omni"
    "\<And>fld. ox_get P fld omni' =
       (if fld = F_sequence_number then word_of_int (sn_val L (next_tx_seq c)) else ox_get P fld omni)"
  using that assms(1) sn_word(1) [OF assms(2)]
  by (simp add: set_tx_sequence_def ox_set_length ox_set_payload ox_get_set)

lemma ox_header_written:
  assumes w: "8 \<le> length w" "\<And>fld. ox_get P fld w = 0"
    and c: "sn_ok L (last_rx_seq c)" "sn_ok L (next_tx_seq c)" "credits_small (credits_receive c)"
  obtains o1 c3 o3 c4 o4 c5 o5 where "create_ox_header L P c w = Returns o1"
    "determine_connection_state P c (set_message_type P NORMAL o1) busy = (c3, o3)"
    "set_tx_sequence L P c3 o3 = (c4, o4)" "set_credit_field P c4 o4 = (c5, o5)"
    "c5 = c\<lparr>connection_state := state_after_send c busy, next_tx_seq := sn_incr L (next_tx_seq c),
       credits_receive := snd (get_highest (credits_receive c))\<rparr>"
    "length o5 = length w" "drop 8 o5 = drop 8 w" "\<And>fld. ox_get P fld o5 = written_field L c busy fld"
proof -
  obtain o1 where o1: "create_ox_header L P c w = Returns o1" "length o1 = length w" "drop 8 o1 = drop 8 w"
    "\<And>fld. ox_get P fld o1 = (if fld = F_ack then (if last_ack_status c then 1 else 0)
       else if fld = F_sequence_number_ack then word_of_int (sn_val L (last_rx_seq c)) else 0)"
    using create_ox_header_returns [OF w c(1)] by blast
  note o2 = set_message_type_fields [where omni = o1 and t = NORMAL]
  obtain c3 o3 where d: "determine_connection_state P c (set_message_type P NORMAL o1) busy = (c3, o3)" by fastforce
  have "8 \<le> length (set_message_type P NORMAL o1)"
    "ox_get P F_message_type (set_message_type P NORMAL o1) = ucast (message_type_as_u8 NORMAL)"
    using o2 o1(2) w(1) by simp_all
  note o3 = determine_connection_state_spec [OF this d]
  have len: "8 \<le> length o3" "length o3 = length w" "drop 8 o3 = drop 8 w"
    using o3(2,3) o2(1,2) o1(2,3) w(1) by simp_all
  have tx: "next_tx_seq c3 = next_tx_seq c" by (simp add: o3(1))
  obtain o4 where t: "set_tx_sequence L P c3 o3 = (c3\<lparr>next_tx_seq := sn_incr L (next_tx_seq c)\<rparr>, o4)"
    "length o4 = length o3" "drop 8 o4 = drop 8 o3"
    "\<And>fld. ox_get P fld o4 =
       (if fld = F_sequence_number then word_of_int (sn_val L (next_tx_seq c)) else ox_get P fld o3)"
    using set_tx_sequence_spec [OF len(1), of c3, unfolded tx, OF c(2)] by blast
  let ?c4 = "c3\<lparr>next_tx_seq := sn_incr L (next_tx_seq c)\<rparr>"
  obtain i v cr where gh: "get_highest (credits_receive c) = ((i, v), cr)" by (metis surj_pair)
  obtain c5 o5 where s: "set_credit_field P ?c4 o4 = (c5, o5)" by fastforce
  have c4: "credits_receive ?c4 = credits_receive c" by (simp add: o3(1))
  have l4: "8 \<le> length o4" using t(2) len(1) by simp
  note o5 = set_credit_field_spec [OF l4 _ _ s, unfolded c4, OF c(3) gh]
  have "ox_get P fld o5 = written_field L c busy fld" for fld
    using o5(4) [of fld] t(4) [of fld] o3(4) [of fld] o2(3) [of fld] o1(2,4) w(1)
    by (auto simp: written_field_def gh)
  with that [OF o1(1) d t(1) s] o5 o3(1) t(2,3) len gh show thesis by simp
qed

text \<open>Any buffer of at least 22 bytes gets its headers without a panic.\<close>

lemma headers_written:
  assumes buf: "22 \<le> length buf" "take 8 (drop 14 buf) = replicate 8 0"
    and c: "sn_ok L (last_rx_seq c)" "sn_ok L (next_tx_seq c)" "credits_small (credits_receive c)"
  obtains f frame where "create_eth_header P c buf = Returns f"
    "and_then (create_ox_header L P c (eth_payload P f)) (\<lambda>omni.
       let omni = set_message_type P NORMAL omni;
           (c, omni) = determine_connection_state P c omni busy;
           (c, omni) = set_tx_sequence L P c omni;
           (c, omni) = set_credit_field P c omni;
           buf = eth_on_payload P (\<lambda>_. omni) f
       in Returns (Ok () :: (unit, conn_error) result, rest,
            c\<lparr>packet_data := Some buf, we_acked := sn_set L (sn_val L (last_rx_seq c)),
              resend_buffer := resend_buffer c @ [buf]\<rparr>)) =
     Returns (Ok (), rest, sent_state L c busy frame\<lparr>send_outstanding := send_outstanding c\<rparr>)"
    "frame_for L P c busy (drop 22 buf) frame"
proof -
  obtain f where f: "create_eth_header P c buf = Returns f" "length f = length buf"
    "drop 14 f = drop 14 buf" "eth_get_destination P f = other_mac c"
    "eth_get_source P f = my_mac c" "eth_get_ethertype P f = 0xAAAA"
    using create_eth_header_returns [of buf c] buf(1) by auto
  have w: "eth_payload P f = drop 14 buf" "8 \<le> length (drop 14 buf)"
    using f buf(1) by (simp_all add: eth_payload_is)
  have "ox_get P fld (drop 14 buf) = 0" for fld
    using ox_get_zero [of fld "drop 8 (drop 14 buf)"] buf(2) by (metis append_take_drop_id)
  from ox_header_written [OF w(2) this c] obtain o1 c3 o3 c4 o4 c5 o5
    where h: "create_ox_header L P c (drop 14 buf) = Returns o1"
      "determine_connection_state P c (set_message_type P NORMAL o1) busy = (c3, o3)"
      "set_tx_sequence L P c3 o3 = (c4, o4)" "set_credit_field P c4 o4 = (c5, o5)"
    and c5: "c5 = c\<lparr>connection_state := state_after_send c busy, next_tx_seq := sn_incr L (next_tx_seq c),
       credits_receive := snd (get_highest (credits_receive c))\<rparr>"
    and o5: "length o5 = length (drop 14 buf)" "drop 8 o5 = drop 8 (drop 14 buf)"
      "\<And>fld. ox_get P fld o5 = written_field L c busy fld"
    by metis
  let ?frame = "eth_on_payload P (\<lambda>_. o5) f"
  have fr: "?frame = take 14 f @ o5"
    using w o5(1) f buf(1) by (intro eth_on_payload_is) simp_all
  have pay: "eth_payload P (take 14 f @ o5) = o5"
    using f(2) buf(1) by (simp add: eth_payload_is)
  obtain i v cr where gh: "get_highest (credits_receive c) = ((i, v), cr)" by (metis surj_pair)
  have "frame_for L P c busy (drop 22 buf) ?frame"
    using eth_header_only [of f o5] f buf(1) o5(1,2)
    by (auto simp: frame_for_def fr frame_field_def pay o5(3) written_field_def gh drop_drop)
  moreover have "c5\<lparr>packet_data := Some ?frame, we_acked := sn_set L (sn_val L (last_rx_seq c5)),
      resend_buffer := resend_buffer c5 @ [?frame]\<rparr> =
    sent_state L c busy ?frame\<lparr>send_outstanding := send_outstanding c\<rparr>"
    by (simp add: c5 sent_state_def)
  ultimately show thesis
    using that [of f ?frame] f(1) h by (simp add: w(1) Let_def)
qed

lemma send_packet_sends:
  assumes "connection_state c \<noteq> Idle" "packet_data c = None"
    and "sn_ok L (last_rx_seq c)" "sn_ok L (next_tx_seq c)" "credits_small (credits_receive c)"
  obtains n m frame where "takes_prefix (case_option [] id operations) n m"
    "send_packet L P c operations busy =
       Returns (Ok (), map_option (drop n) operations, sent_state L c busy frame)"
    "frame_for L P c busy (body_of (take n (case_option [] id operations)) @ u64_to_be_bytes m) frame"
proof -
  let ?c = "c\<lparr>send_outstanding := False\<rparr>" and ?ops = "case_option [] id operations"
  obtain n m where nm: "takes_prefix ?ops n m"
    "put_messages (replicate 22 0) operations =
       (replicate 22 0 @ body_of (take n ?ops) @ u64_to_be_bytes m, 0 < n, map_option (drop n) operations)"
    using put_messages_takes [of "replicate 22 0 :: bytes" operations] by auto
  let ?body = "body_of (take n ?ops) @ u64_to_be_bytes m"
  have "22 \<le> length (replicate 22 0 @ ?body)" "take 8 (drop 14 (replicate 22 0 @ ?body)) = replicate 8 0"
    by simp_all
  from headers_written [OF this, of ?c busy "map_option (drop n) operations"] assms(3-5)
  obtain f frame where f: "create_eth_header P ?c (replicate 22 0 @ ?body) = Returns f"
    "and_then (create_ox_header L P ?c (eth_payload P f)) (\<lambda>omni.
       let omni = set_message_type P NORMAL omni;
           (c, omni) = determine_connection_state P ?c omni busy;
           (c, omni) = set_tx_sequence L P c omni;
           (c, omni) = set_credit_field P c omni;
           buf = eth_on_payload P (\<lambda>_. omni) f
       in Returns (Ok () :: (unit, conn_error) result, map_option (drop n) operations,
            c\<lparr>packet_data := Some buf, we_acked := sn_set L (sn_val L (last_rx_seq c)),
              resend_buffer := resend_buffer c @ [buf]\<rparr>)) =
     Returns (Ok (), map_option (drop n) operations,
       sent_state L ?c busy frame\<lparr>send_outstanding := send_outstanding ?c\<rparr>)"
    "frame_for L P ?c busy (drop 22 (replicate 22 0 @ ?body)) frame" by auto
  moreover have "sent_state L ?c busy frame\<lparr>send_outstanding := send_outstanding ?c\<rparr> = sent_state L c busy frame"
    by (simp add: sent_state_def state_after_send_def)
  moreover have "frame_for L P ?c busy b frame = frame_for L P c busy b frame" for b
    by (simp add: frame_for_def announced_type_def)
  ultimately have "send_packet L P c operations busy =
      Returns (Ok (), map_option (drop n) operations, sent_state L c busy frame)"
    "frame_for L P c busy ?body frame"
    using nm(2) assms(1,2) by (simp_all add: send_packet_def Let_def)
  with nm(1) show thesis by (rule that)
qed

end

section \<open>Instances and properties\<close>

interpretation lk: ox_link std_modular std_pnet
  by unfold_locales

text \<open>
  C17. Packing. Of the queued messages a packet takes the longest prefix in which every message
  starts within the first 64 flits and the frame stays below 9000 bytes; it leaves the others
  queued, in order. The payload is the taken messages followed by zero padding up to the
  minimum frame length and the mask, in which bit \<open>j\<close> is set exactly when one of the taken
  messages starts at flit \<open>j\<close>.
\<close>

theorem put_messages_packs:
  assumes "length h = 22"
  shows "\<exists>n m. takes_prefix ops n m \<and>
    put_messages h (Some ops) =
      (h @ body_of (take n ops) @ u64_to_be_bytes m, 0 < n, Some (drop n ops)) \<and>
    length (fst (put_messages h (Some ops))) = max 70 (30 + length (concat (take n ops)))"
proof -
  obtain n m where "takes_prefix ops n m" "put_messages h (Some ops) =
      (h @ body_of (take n ops) @ u64_to_be_bytes m, 0 < n, Some (drop n ops))"
    using put_messages_takes [OF assms, of "Some ops"] by auto
  moreover from this have "length (fst (put_messages h (Some ops))) = max 70 (30 + length (concat (take n ops)))"
    using assms by (simp add: length_body_of)
  ultimately show ?thesis by blast
qed

definition sample_ops :: "bytes list" where
  "sample_ops = [replicate 16 1, replicate 8 2]"

theorem put_messages_packs_witness:
  "\<exists>n m. takes_prefix sample_ops n m \<and>
    put_messages (replicate 22 0) (Some sample_ops) =
      (replicate 22 0 @ body_of (take n sample_ops) @ u64_to_be_bytes m, 0 < n, Some (drop n sample_ops)) \<and>
    length (fst (put_messages (replicate 22 0) (Some sample_ops))) =
      max 70 (30 + length (concat (take n sample_ops)))"
  by (rule put_messages_packs) simp

text \<open>
  C10. Sending. On a connection that is not idle and has no packet waiting, \<^verbatim>\<open>send_packet\<close>
  returns \<^verbatim>\<open>Ok\<close> without a panic; the frame it leaves for the network and at the end of the
  resend buffer carries the peer's and its own MAC address, the OmniXtend EtherType, the next
  transmit sequence number, the last received sequence number with the current ACK/NAK bit, the
  message type of the connection state, and the credits taken from the fullest channel; the
  frame is 70 to 8999 bytes long.
\<close>

theorem send_packet_frame:
  assumes "ox_link L P" and "connection_state c \<noteq> Idle" and "packet_data c = None"
    and "sn_ok L (last_rx_seq c)" and "sn_ok L (next_tx_seq c)" and "credits_small (credits_receive c)"
  shows "\<exists>n m frame. takes_prefix ops n m \<and>
    send_packet L P c (Some ops) busy = Returns (Ok (), Some (drop n ops), sent_state L c busy frame) \<and>
    frame_for L P c busy (body_of (take n ops) @ u64_to_be_bytes m) frame \<and>
    70 \<le> length frame \<and> length frame < 9000"
proof -
  obtain n m frame where *: "takes_prefix ops n m"
    "send_packet L P c (Some ops) busy = Returns (Ok (), Some (drop n ops), sent_state L c busy frame)"
    "frame_for L P c busy (body_of (take n ops) @ u64_to_be_bytes m) frame"
    using ox_link.send_packet_sends [OF assms, of "Some ops" busy] by auto
  from *(1,3) have "70 \<le> length frame" "length frame < 9000"
    by (auto simp: frame_for_def takes_prefix_def length_body_of)
  with * show ?thesis by blast
qed

text \<open>A freshly enabled connection, on the concrete arithmetic.\<close>

definition sample_conn :: "(int \<times> nat) Connection" where
  "sample_conn = establish_connection
     (conn_new std_modular 0 0 False 0 (MacAddr 2 0 0 0 0 1) (MacAddr 2 0 0 0 0 2))"

lemma sample_conn_fields:
  "connection_state sample_conn = Enabled" "packet_data sample_conn = None"
  "sn_ok std_modular (last_rx_seq sample_conn)" "sn_ok std_modular (next_tx_seq sample_conn)"
  "credits_small (credits_receive sample_conn)"
  by (simp_all add: sample_conn_def establish_connection_def conn_new_def sn_ok_def sn_val_def
      sn_set_def sn_new_def sn_max_def sn_modulus_def std_modular_def credits_small_def credits_new_def)

theorem send_packet_frame_witness:
  "\<exists>n m frame. takes_prefix sample_ops n m \<and>
    send_packet std_modular std_pnet sample_conn (Some sample_ops) False =
      Returns (Ok (), Some (drop n sample_ops), sent_state std_modular sample_conn False frame) \<and>
    frame_for std_modular std_pnet sample_conn False
      (body_of (take n sample_ops) @ u64_to_be_bytes m) frame \<and>
    70 \<le> length frame \<and> length frame < 9000"
  using send_packet_frame [OF lk.ox_link_axioms, of sample_conn sample_ops False] sample_conn_fields by simp

end
