(* ===== verification/Connection_Window.thy ===== *)
theory Connection_Window
  imports Connection_Frames
begin

text \<open>
  The sliding window of a connection: the resend buffer holds exactly the packets between the
  last acknowledged and the next transmit sequence number, in order. The theory describes what
  \<^verbatim>\<open>process_packets\<close> does on every branch, proves the invariant for every sequence of
  operations, and shows that a retransmission is delivered exactly once and in order.
\<close>

section \<open>Invariant\<close>

definition window_ok :: "'m modular \<Rightarrow> pnet \<Rightarrow> 'm Connection \<Rightarrow> bool" where
  "window_ok L P c \<longleftrightarrow>
     length (resend_buffer c) < 2 ^ 22 \<and>
     (sn_val L (first_in_resend c) + 1 + int (length (resend_buffer c))) mod 2 ^ 22 =
       sn_val L (next_tx_seq c) \<and>
     (\<forall>k < length (resend_buffer c). uint (frame_field P F_sequence_number (resend_buffer c ! k)) =
       (sn_val L (first_in_resend c) + 1 + int k) mod 2 ^ 22)"

definition numbers_ok :: "'m modular \<Rightarrow> 'm Connection \<Rightarrow> bool" where
  "numbers_ok L c \<longleftrightarrow> sn_ok L (next_rx_seq c) \<and> sn_ok L (last_rx_seq c) \<and>
     sn_ok L (next_tx_seq c) \<and> sn_ok L (they_acked c) \<and> sn_ok L (we_acked c) \<and>
     sn_ok L (first_in_resend c) \<and> they_acked c = first_in_resend c"

text \<open>Every packet kept for a resend is a complete OmniXtend frame for the peer that is not
  ack-only.\<close>

definition frame_is :: "pnet \<Rightarrow> OmnixtendMessageType \<Rightarrow> bytes \<Rightarrow> bool" where
  "frame_is P t v \<longleftrightarrow> frame_field P F_message_type v = ucast (message_type_as_u8 t)"

definition data_frame :: "pnet \<Rightarrow> MacAddr \<Rightarrow> bytes \<Rightarrow> bool" where
  "data_frame P mac f \<longleftrightarrow> 70 \<le> length f \<and> length f < 9000 \<and> eth_get_destination P f = mac \<and>
     eth_get_ethertype P f = 0xAAAA \<and> \<not> frame_is P AckOnly f"

definition frames_ok :: "pnet \<Rightarrow> 'm Connection \<Rightarrow> bool" where
  "frames_ok P c \<longleftrightarrow> (\<forall>f \<in> set (resend_buffer c). data_frame P (other_mac c) f)"

definition conn_inv :: "'m modular \<Rightarrow> pnet \<Rightarrow> 'm Connection \<Rightarrow> bool" where
  "conn_inv L P c \<longleftrightarrow> numbers_ok L c \<and> window_ok L P c \<and> credits_small (credits_receive c) \<and>
     length (credits_send c) = 5 \<and> frames_ok P c"

section \<open>Branches of \<open>process_packets\<close>\<close>

definition addressed :: "pnet \<Rightarrow> 'm Connection \<Rightarrow> bytes \<Rightarrow> bool" where
  "addressed P c v \<longleftrightarrow> 14 \<le> length v \<and> eth_get_destination P v = my_mac c \<and>
     eth_get_ethertype P v = 0xAAAA"

text \<open>How many packets of the resend buffer the acknowledgement of a packet covers.\<close>

definition acked_count :: "'m modular \<Rightarrow> pnet \<Rightarrow> 'm Connection \<Rightarrow> bytes \<Rightarrow> nat" where
  "acked_count L P c v =
     seq_dist (sn_val L (first_in_resend c)) (uint (frame_field P F_sequence_number_ack v))"

definition is_expected :: "'m modular \<Rightarrow> pnet \<Rightarrow> 'm Connection \<Rightarrow> bytes \<Rightarrow> bool" where
  "is_expected L P c v \<longleftrightarrow> uint (frame_field P F_sequence_number v) = sn_val L (next_rx_seq c)"

definition accepted_acks :: "'m modular \<Rightarrow> pnet \<Rightarrow> instant \<Rightarrow> 'm Connection \<Rightarrow> bytes \<Rightarrow> 'm Connection" where
  "accepted_acks L P now c v =
     c\<lparr>last_message_received_at := now, last_rx_seq := next_rx_seq c,
       they_acked := sn_set L (uint (frame_field P F_sequence_number_ack v)),
       first_in_resend := sn_set L (uint (frame_field P F_sequence_number_ack v)),
       resend_buffer := drop (acked_count L P c v) (resend_buffer c),
       resend_outstanding := (resend_outstanding c \<or> frame_field P F_ack v \<noteq> 1)\<rparr>"

definition accepted_data :: "'m modular \<Rightarrow> pnet \<Rightarrow> instant \<Rightarrow> 'm Connection \<Rightarrow> bytes \<Rightarrow> 'm Connection" where
  "accepted_data L P now c v =
     set_connection_state_receive P ((accepted_acks L P now c v)
       \<lparr>credits_send := (if 0 < frame_field P F_chan v
            then credits_add (credits_send c) (channel_from_u8 (ucast (frame_field P F_chan v)))
              (2 ^ unat (frame_field P F_credit v))
            else credits_send c),
        last_ack_status := True, next_rx_seq := sn_incr L (next_rx_seq c)\<rparr>) (eth_payload P v)"

lemma close_connection_effect:
  "snd (close_connection L timeout now ph c) = c \<or>
   snd (close_connection L timeout now ph c) = c\<lparr>connection_state := ClosedByHost, send_outstanding := True\<rparr>
     \<and> connection_state c \<in> {Active, Opened}"
proof -
  have idle: "snd (close_wait_idle timeout now start c) = c" for start and c :: "'a Connection"
    by (simp add: close_wait_idle_def split: result.split)
  have "snd (close_wait_acked L timeout now start c) = c \<or>
      snd (close_wait_acked L timeout now start c) = c\<lparr>connection_state := ClosedByHost, send_outstanding := True\<rparr>
        \<and> connection_state c \<in> {Active, Opened}" for start
    by (simp add: close_wait_acked_def initiate_close_connection_def idle split: result.split)
  then show ?thesis by (cases ph) (auto simp: idle)
qed

context ox_link
begin

lemma remove_loop_spec:
  assumes "sn_ok L acked" "sn_ok L first" "length buf < 2 ^ 22"
  shows "remove_loop L acked first buf =
    (if seq_dist (sn_val L first) (sn_val L acked) \<le> length buf
     then Returns (acked, drop (seq_dist (sn_val L first) (sn_val L acked)) buf)
     else Panics ResendBufferEmpty)"
  using assms(2,3)
proof (induction buf arbitrary: first)
  case Nil
  then show ?case
    using assms(1) seq.seq_dist_val_0_iff [of first acked] by (auto simp: sn_ok_def)
next
  case (Cons p buf)
  let ?d = "seq_dist (sn_val L first) (sn_val L acked)"
  show ?case
  proof (cases ?d)
    case 0
    then show ?thesis
      using Cons.prems assms(1) seq.seq_dist_val_0_iff [of first acked] by simp
  next
    case (Suc k)
    then have ne: "sn_val L acked \<noteq> sn_val L first" by auto
    have inc: "sn_ok L (sn_incr L first)" "sn_val L (sn_incr L first) = (sn_val L first + 1) mod 2 ^ 22"
      using sn_incr_ok [OF Cons.prems(1)] by auto
    have "seq_dist (sn_val L (sn_incr L first)) (sn_val L acked) = k"
      using seq_dist_step_left [OF Suc] inc(2) by simp
    with Cons.IH [OF inc(1)] Cons.prems(2) ne Suc show ?thesis by simp
  qed
qed

lemma field_22:
  assumes "22 \<le> length v" "f \<in> {F_sequence_number, F_sequence_number_ack}"
  shows "frame_field P f v < 2 ^ 22" "sint (frame_field P f v) = uint (frame_field P f v)"
    "0 \<le> uint (frame_field P f v)" "uint (frame_field P f v) < 2 ^ 22"
proof -
  show lt: "frame_field P f v < 2 ^ 22"
    using ox_get_range [of "eth_payload P v" f] assms
    by (auto simp: frame_field_def eth_payload_is)
  then show "sint (frame_field P f v) = uint (frame_field P f v)" by (rule sint_22_bits)
  show "uint (frame_field P f v) < 2 ^ 22" using lt by (simp add: word_less_def)
qed simp

lemma process_packets_logged_open:
  assumes "addressed P c v" "22 \<le> length v"
  shows "process_packets_logged trace L P now c v =
    (if is_expected L P c v then process_expected trace L P now c (eth_payload P v) (frame_is P AckOnly v)
     else if \<not> sn_cmp L (next_rx_seq c) (frame_field P F_sequence_number v) then
       Returns (process_replicated L P c (frame_is P AckOnly v) (eth_payload P v))
     else Returns (Ok [], c))"
proof -
  have "8 \<le> length v - 14" using assms(2) by simp
  then show ?thesis using assms field_22 [OF assms(2), of F_sequence_number]
  by (simp add: process_packets_logged_def addressed_def eth_new_iff deny_wrong_mac_def
      deny_wrong_ethertype_def eth_payload_is ox_new_iff Let_def is_expected_def frame_field_def
      frame_is_def has_message_type_def process_out_of_sequence_def)
qed

lemmas process_packets_open = process_packets_logged_open [of _ _ False, folded process_packets_def]

lemma process_packets_logged_refused:
  assumes "\<not> addressed P c v"
  shows "\<exists>e. process_packets_logged trace L P now c v = Returns (Err e, c)"
  using assms
  by (auto simp: process_packets_logged_def addressed_def eth_new_iff deny_wrong_mac_def
      deny_wrong_ethertype_def)

lemmas process_packets_refused = process_packets_logged_refused [of _ _ False, folded process_packets_def]

lemma process_packets_logged_short:
  assumes "addressed P c v" "length v < 22"
  shows "process_packets_logged trace L P now c v = Panics UnwrapOnNone"
proof -
  have "\<not> 8 \<le> length v - 14" using assms(2) by simp
  with assms show ?thesis
    by (simp add: process_packets_logged_def addressed_def eth_new_iff deny_wrong_mac_def
        deny_wrong_ethertype_def eth_payload_is ox_new_iff Let_def)
qed

lemmas process_packets_short = process_packets_logged_short [of _ _ False, folded process_packets_def]

lemma channel_from_u64_chan:
  "channel_from_u64 (ucast (w :: u32)) = (if w < 6 then Returns (channel_from_u8 (ucast w)) else Panics (UnknownChannel (ucast w)))"
  if "w < 8"
proof -
  have "w \<in> {0, 1, 2, 3, 4, 5, 6, 7}"
    using that by (auto simp: word_less_nat_alt word_unat_eq_iff)
  then show ?thesis by (auto simp: channel_from_u64_def channel_from_u8_def)
qed

lemma process_expected_logged_spec:
  assumes inv: "numbers_ok L c" "window_ok L P c" and v: "22 \<le> length v" "is_expected L P c v"
  shows "process_expected trace L P now c (eth_payload P v) ack_only =
    (if acked_count L P c v \<le> length (resend_buffer c)
     then if ack_only then Returns (Ok [], accepted_acks L P now c v)
          else if trace \<and> 6 \<le> frame_field P F_chan v then Panics (UnknownChannel (ucast (frame_field P F_chan v)))
          else Returns (Ok (drop 22 v), accepted_data L P now c v)
     else Panics ResendBufferEmpty)"
proof -
  note s = field_22 [OF v(1), of F_sequence_number] and a = field_22 [OF v(1), of F_sequence_number_ack]
  let ?acked = "sn_set L (uint (frame_field P F_sequence_number_ack v))"
  have acked: "sn_ok L ?acked" "sn_val L ?acked = uint (frame_field P F_sequence_number_ack v)"
    using sn_set_ok [of "uint (frame_field P F_sequence_number_ack v)"] a by auto
  have rx: "sn_set L (uint (frame_field P F_sequence_number v)) = next_rx_seq c"
    using v(2) inv(1) unfolding is_expected_def numbers_ok_def sn_ok_def by metis
  have loop: "remove_loop L ?acked (first_in_resend c) (resend_buffer c) =
    (if acked_count L P c v \<le> length (resend_buffer c)
     then Returns (?acked, drop (acked_count L P c v) (resend_buffer c)) else Panics ResendBufferEmpty)"
    using remove_loop_spec [OF acked(1), of "first_in_resend c" "resend_buffer c"] inv acked(2)
    by (simp add: acked_count_def numbers_ok_def window_ok_def)
  have pay: "extract_payload P (eth_payload P v) = Returns (drop 22 v)"
    using v(1) by (simp add: extract_payload_def eth_payload_is ox_payload_is copy_into_def drop_drop)
  have chan: "channel_from_u64 (ucast (frame_field P F_chan v)) =
      (if frame_field P F_chan v < 6 then Returns (channel_from_u8 (ucast (frame_field P F_chan v)))
       else Panics (UnknownChannel (ucast (frame_field P F_chan v))))"
    using ox_get_range [of "eth_payload P v" F_chan] v(1)
    by (intro channel_from_u64_chan) (simp add: frame_field_def eth_payload_is)
  show ?thesis
    using s a rx loop pay chan
    by (auto simp: process_expected_def remove_from_resend_def frame_field_def [symmetric] Let_def
        accepted_acks_def accepted_data_def indicate_nak_def update_send_credits_def not_less)
qed

lemma process_expected_spec:
  assumes "numbers_ok L c" "window_ok L P c" and "22 \<le> length v" "is_expected L P c v"
  shows "process_expected False L P now c (eth_payload P v) ack_only =
    (if acked_count L P c v \<le> length (resend_buffer c)
     then if ack_only then Returns (Ok [], accepted_acks L P now c v)
          else Returns (Ok (drop 22 v), accepted_data L P now c v)
     else Panics ResendBufferEmpty)"
  using process_expected_logged_spec [OF assms, of False] by simp

text \<open>On frames without credits for the channels 6 and 7 the log level makes no difference.\<close>

lemma process_packets_trace:
  assumes "conn_inv L P c" "frame_field P F_chan v < 6"
  shows "process_packets_logged trace L P now c v = process_packets L P now c v"
proof (cases "addressed P c v \<and> 22 \<le> length v")
  case True
  have *: "numbers_ok L c" "window_ok L P c" using assms(1) by (simp_all add: conn_inv_def)
  have "process_expected trace L P now c (eth_payload P v) a = process_expected False L P now c (eth_payload P v) a"
    if "is_expected L P c v" for a
    using process_expected_logged_spec [OF *, of v] True that assms(2) by (auto dest: leD)
  then show ?thesis
    using True process_packets_logged_open [of c v] by (simp add: process_packets_def)
next
  case False
  then show ?thesis
    using process_packets_logged_short [of c v]
    by (cases "addressed P c v") (auto simp: process_packets_def process_packets_logged_def addressed_def
        eth_new_iff deny_wrong_mac_def deny_wrong_ethertype_def)
qed

subsection \<open>Preservation\<close>

lemma window_send:
  assumes "numbers_ok L c" "window_ok L P c" "length (resend_buffer c) + 1 < 2 ^ 22"
    and "frame_field P F_sequence_number frame = word_of_int (sn_val L (next_tx_seq c))"
    and "c' = sent_state L c busy frame"
  shows "window_ok L P c'"
proof -
  have tx: "sn_ok L (next_tx_seq c)" using assms(1) by (simp add: numbers_ok_def)
  have w: "(sn_val L (first_in_resend c) + 1 + int (length (resend_buffer c))) mod 2 ^ 22 =
      sn_val L (next_tx_seq c)" using assms(2) by (simp add: window_ok_def)
  have "(sn_val L (first_in_resend c) + 1 + int (length (resend_buffer c)) + 1) mod 2 ^ 22 =
      (sn_val L (next_tx_seq c) + 1) mod 2 ^ 22"
    using w by (metis mod_add_left_eq)
  moreover have "uint (frame_field P F_sequence_number frame) = sn_val L (next_tx_seq c)"
    using sn_word(2) [OF tx] assms(4) by simp
  ultimately show ?thesis
    using assms(2,3) w sn_incr_ok [OF tx] unfolding assms(5)
    by (auto simp: window_ok_def sent_state_def nth_append algebra_simps less_Suc_eq)
qed

lemma window_ack:
  assumes "numbers_ok L c" "window_ok L P c" "22 \<le> length v"
    and "acked_count L P c v \<le> length (resend_buffer c)"
  shows "window_ok L P (accepted_acks L P now c v)"
proof -
  let ?f = "sn_val L (first_in_resend c)" and ?d = "acked_count L P c v"
    and ?a = "uint (frame_field P F_sequence_number_ack v)"
  note a = field_22 [OF assms(3), of F_sequence_number_ack]
  have adv: "(?f + int ?d) mod 2 ^ 22 = ?a"
    using seq_dist_advance [of ?a ?f] a by (simp add: acked_count_def)
  have step: "(?a + 1 + int k) mod 2 ^ 22 = (?f + 1 + int (?d + k)) mod 2 ^ 22" for k
    using mod_add_left_eq [of "?f + int ?d" "2 ^ 22" "1 + int k"] unfolding adv
    by (simp add: algebra_simps)
  have val: "sn_val L (sn_set L ?a) = ?a" using sn_set_ok [of ?a] a by simp
  have "(?a + 1 + int (length (resend_buffer c) - ?d)) mod 2 ^ 22 = sn_val L (next_tx_seq c)"
    using step [of "length (resend_buffer c) - ?d"] assms(2,4) by (simp add: window_ok_def)
  moreover have "uint (frame_field P F_sequence_number (resend_buffer c ! (?d + k))) =
      (?a + 1 + int k) mod 2 ^ 22" if "k < length (resend_buffer c) - ?d" for k
    using step [of k] assms(2) that by (simp add: window_ok_def)
  moreover have "length (resend_buffer c) - ?d < 2 ^ 22" using assms(2) by (auto simp: window_ok_def)
  ultimately show ?thesis
    using assms(2,4) val by (simp add: window_ok_def accepted_acks_def)
qed

lemma numbers_ack:
  "numbers_ok L c \<Longrightarrow> 22 \<le> length v \<Longrightarrow> numbers_ok L (accepted_acks L P now c v)"
  using sn_set_ok [of "uint (frame_field P F_sequence_number_ack v)"]
    field_22 [of v F_sequence_number_ack]
  by (simp add: numbers_ok_def accepted_acks_def)

lemma length_credits_add [simp]: "length (credits_add cs ch n) = length cs"
  by (simp add: credits_add_def)

lemma set_connection_state_receive_inv [simp]:
  "numbers_ok L (set_connection_state_receive P c v) = numbers_ok L c"
  "window_ok L P (set_connection_state_receive P c v) = window_ok L P c"
  "frames_ok P (set_connection_state_receive P c v) = frames_ok P c"
  "credits_receive (set_connection_state_receive P c v) = credits_receive c"
  "credits_send (set_connection_state_receive P c v) = credits_send c"
  by (simp_all add: set_connection_state_receive_def Let_def numbers_ok_def window_ok_def frames_ok_def)

lemma conn_inv_acks:
  assumes "conn_inv L P c" "22 \<le> length v" "acked_count L P c v \<le> length (resend_buffer c)"
  shows "conn_inv L P (accepted_acks L P now c v)"
  using assms window_ack [of c v now] numbers_ack [of c v now]
  by (simp add: conn_inv_def) (auto simp: accepted_acks_def frames_ok_def dest: in_set_dropD)

lemma conn_inv_delivered:
  assumes "conn_inv L P c" "sn_ok L s" "length cs = 5"
  shows "conn_inv L P (c\<lparr>credits_send := cs, last_ack_status := b, next_rx_seq := s\<rparr>)"
  using assms by (simp add: conn_inv_def numbers_ok_def window_ok_def frames_ok_def)

lemma conn_inv_data:
  assumes "conn_inv L P c" "22 \<le> length v" "acked_count L P c v \<le> length (resend_buffer c)"
  shows "conn_inv L P (accepted_data L P now c v)"
proof -
  let ?c = "(accepted_acks L P now c v)\<lparr>credits_send := (if 0 < frame_field P F_chan v
      then credits_add (credits_send c) (channel_from_u8 (ucast (frame_field P F_chan v)))
        (2 ^ unat (frame_field P F_credit v))
      else credits_send c), last_ack_status := True, next_rx_seq := sn_incr L (next_rx_seq c)\<rparr>"
  have "conn_inv L P ?c"
    using assms(1) sn_incr_ok [of "next_rx_seq c"]
    by (intro conn_inv_delivered conn_inv_acks assms) (auto simp: conn_inv_def numbers_ok_def)
  then show ?thesis by (simp add: accepted_data_def conn_inv_def)
qed

lemma conn_inv_receive:
  assumes "conn_inv L P c" "process_packets L P now c v = Returns (r, c')"
  shows "conn_inv L P c'"
proof (cases "addressed P c v \<and> 22 \<le> length v")
  case False
  with assms show ?thesis
    using process_packets_refused [of c v now] process_packets_short [of c v now] by force
next
  case True
  have *: "numbers_ok L c" "window_ok L P c" using assms(1) by (simp_all add: conn_inv_def)
  show ?thesis
  proof (cases "is_expected L P c v")
    case exp: True
    with True assms process_expected_spec [OF *, of v now "frame_is P AckOnly v"] show ?thesis
      using conn_inv_acks [of c v now] conn_inv_data [of c v now]
      by (auto simp: process_packets_open split: if_splits)
  next
    case False
    with True assms show ?thesis
      by (auto simp: process_packets_open process_replicated_def conn_inv_def numbers_ok_def
          window_ok_def frames_ok_def split: if_splits)
  qed
qed

lemma conn_inv_send:
  assumes inv: "conn_inv L P c" and room: "length (resend_buffer c) + 1 < 2 ^ 22"
    and send: "send_packet L P c operations busy = Returns (r, rest, c')"
  shows "conn_inv L P c'"
proof (cases "connection_state c = Idle \<or> packet_data c \<noteq> None")
  case True
  with inv send show ?thesis by (auto simp: send_packet_def split: if_splits)
next
  case False
  have *: "numbers_ok L c" "window_ok L P c" "credits_small (credits_receive c)"
    using inv by (simp_all add: conn_inv_def)
  obtain n m frame where f: "takes_prefix (case_option [] id operations) n m" "send_packet L P c operations busy =
      Returns (Ok (), map_option (drop n) operations, sent_state L c busy frame)"
    "frame_for L P c busy (body_of (take n (case_option [] id operations)) @ u64_to_be_bytes m) frame"
    by (rule send_packet_sends [of c operations busy]) (use False * in \<open>auto simp: numbers_ok_def\<close>)
  then have c': "c' = sent_state L c busy frame" using send by simp
  have "window_ok L P c'"
    using window_send [OF *(1,2) room _ c'] f(3) by (simp add: frame_for_def)
  moreover have "data_frame P (other_mac c) frame"
    using f(1,3) by (auto simp: frame_for_def takes_prefix_def length_body_of data_frame_def
        frame_is_def announced_type_def)
  then have "frames_ok P c'"
    using inv by (simp add: frames_ok_def c' sent_state_def conn_inv_def)
  moreover obtain i v cr where "get_highest (credits_receive c) = ((i, v), cr)" by (metis surj_pair)
  ultimately show ?thesis
    using inv * get_highest_range [OF *(3), of i v cr] sn_incr_ok [of "next_tx_seq c"]
      sn_set_ok [of "sn_val L (last_rx_seq c)"]
    by (simp add: conn_inv_def c' numbers_ok_def sent_state_def) (simp add: sn_ok_def)
qed

lemma conn_inv_new: "conn_inv L P (conn_new L now now' cm cid mine other)"
  using sn_set_ok [of 0] sn_set_ok [of sn_max]
  by (simp add: conn_inv_def numbers_ok_def window_ok_def conn_new_def sn_new_def sn_max_def
      credits_small_def credits_new_def sn_set_def frames_ok_def)

lemma conn_inv_neutral:
  assumes "conn_inv L P c"
  shows "conn_inv L P (establish_connection c)" "conn_inv L P (snd (get_packet now c))"
    "conn_inv L P (snd (resend c))" "conn_inv L P (snd (close_connection L timeout now ph c))"
    "conn_inv L P (c\<lparr>credits_send := snd (credits_take (credits_send c) ch n)\<rparr>)"
proof -
  note defs = conn_inv_def numbers_ok_def window_ok_def frames_ok_def
  show "conn_inv L P (establish_connection c)"
    using assms by (simp add: establish_connection_def defs)
  show "conn_inv L P (snd (get_packet now c))"
    using assms by (simp add: get_packet_def defs split: list.split option.split)
  show "conn_inv L P (snd (resend c))"
    using assms by (auto simp: resend_def defs)
  show "conn_inv L P (snd (close_connection L timeout now ph c))"
    using assms close_connection_effect [of L timeout now ph c] by (elim disjE) (simp_all add: defs)
  show "conn_inv L P (c\<lparr>credits_send := snd (credits_take (credits_send c) ch n)\<rparr>)"
    using assms by (simp add: credits_take_def defs)
qed

end

section \<open>Every run of a connection\<close>

text \<open>
  The steps other parts of the program take on a connection. A packet is only sent while the
  window has room, and returned receive credits must fit the credit field; a received packet
  is any one that satisfies \<open>A\<close>, a call of \<^verbatim>\<open>close_connection\<close> only waits after it has passed
  its guard, and a step that panics ends the run.
\<close>

inductive conn_step ::
    "'m modular \<Rightarrow> pnet \<Rightarrow> (bytes \<Rightarrow> bool) \<Rightarrow> 'm Connection \<Rightarrow> 'm Connection \<Rightarrow> bool" for L P A where
  step_establish: "conn_step L P A c (establish_connection c)"
| step_send: "\<lbrakk>length (resend_buffer c) + 1 < 2 ^ 22;
    send_packet L P c operations busy = Returns (r, rest, c')\<rbrakk> \<Longrightarrow> conn_step L P A c c'"
| step_receive: "\<lbrakk>A v; process_packets L P now c v = Returns (r, c')\<rbrakk> \<Longrightarrow> conn_step L P A c c'"
| step_get: "conn_step L P A c (snd (get_packet now c))"
| step_resend: "conn_step L P A c (snd (resend c))"
| step_close: "ph = Close_start \<or> \<not> compat_mode c \<Longrightarrow>
    conn_step L P A c (snd (close_connection L timeout now ph c))"
| step_take: "conn_step L P A c (c\<lparr>credits_send := snd (credits_take (credits_send c) ch n)\<rparr>)"
| step_credit: "credits_small (credits_receive (add_receive_credits c ch n)) \<Longrightarrow>
    conn_step L P A c (add_receive_credits c ch n)"

inductive conn_reachable ::
    "'m modular \<Rightarrow> pnet \<Rightarrow> (bytes \<Rightarrow> bool) \<Rightarrow> 'm Connection \<Rightarrow> bool" for L P A where
  reach_new: "conn_reachable L P A (conn_new L now now' cm cid mine other)"
| reach_step: "\<lbrakk>conn_reachable L P A c; conn_step L P A c c'\<rbrakk> \<Longrightarrow> conn_reachable L P A c'"

context ox_link
begin

lemma conn_inv_step: "conn_step L P A c c' \<Longrightarrow> conn_inv L P c \<Longrightarrow> conn_inv L P c'"
proof (induction rule: conn_step.induct)
  case (step_credit c ch n)
  then show ?case
    by (simp add: conn_inv_def numbers_ok_def window_ok_def frames_ok_def add_receive_credits_def)
qed (auto intro: conn_inv_neutral conn_inv_send conn_inv_receive)

end

lemma sample_conn_inv: "conn_inv std_modular std_pnet sample_conn"
  unfolding sample_conn_def by (intro lk.conn_inv_neutral lk.conn_inv_new)

text \<open>
  C4. In every state a connection can reach, by any sequence of sends, received packets,
  resends, polls of \<^verbatim>\<open>close_connection\<close> and credit updates, the resend buffer holds exactly the
  packets numbered from the one after the last acknowledged number up to the one before the
  next transmit number, in order; all six sequence numbers are canonical and the last
  acknowledged number is the one the buffer starts after.
\<close>

theorem window_invariant:
  assumes "ox_link L P" and "conn_reachable L P A c"
  shows "conn_inv L P c"
  using assms(2)
proof (induction rule: conn_reachable.induct)
  case (reach_new now now' cm cid mine other)
  show ?case using assms(1) by (rule ox_link.conn_inv_new)
next
  case (reach_step c c')
  then show ?case using ox_link.conn_inv_step [OF assms(1)] by blast
qed

theorem window_invariant_witness: "conn_inv std_modular std_pnet sample_conn"
  unfolding sample_conn_def
  by (rule window_invariant [OF lk.ox_link_axioms, where A = "\<lambda>_. True"])
    (rule reach_step [OF reach_new step_establish])

text \<open>
  C28. On a well-formed connection \<^verbatim>\<open>process_packets\<close> panics in exactly three cases, all for a
  frame with the connection's MAC address and the OmniXtend EtherType: the frame is too short
  for an OmniXtend header; or it has the expected sequence number and acknowledges a number
  that is not in the window (\<^verbatim>\<open>remove_from_resend\<close> runs out of packets); or it has the expected
  number, is not ack-only, carries credits for channel 6 or 7, and messages of level trace are
  logged.
\<close>

theorem process_packets_panics_iff:
  assumes "ox_link L P" and "conn_inv L P c"
  shows "(\<exists>p. process_packets_logged trace L P now c v = Panics p) \<longleftrightarrow>
    addressed P c v \<and> (length v < 22 \<or> is_expected L P c v \<and>
      (length (resend_buffer c) < acked_count L P c v \<or>
       trace \<and> \<not> frame_is P AckOnly v \<and> 6 \<le> frame_field P F_chan v))"
proof -
  have *: "numbers_ok L c" "window_ok L P c" using assms(2) by (simp_all add: conn_inv_def)
  note rules = ox_link.process_packets_logged_refused [OF assms(1), of c v trace now]
    ox_link.process_packets_logged_short [OF assms(1), of c v trace now]
    ox_link.process_packets_logged_open [OF assms(1), of c v trace now]
    ox_link.process_expected_logged_spec [OF assms(1) *, of v trace now]
  show ?thesis
  proof (cases "addressed P c v \<and> 22 \<le> length v")
    case False
    then show ?thesis using rules(1,2) by force
  next
    case True
    then show ?thesis using rules(3,4) by (cases "is_expected L P c v") auto
  qed
qed

text \<open>Two frames for the sample connection: one that ends after the Ethernet header, and one with
  number 0, which the connection expects, and credits for channel 6.\<close>

definition short_frame :: bytes where
  "short_frame = [2, 0, 0, 0, 0, 1, 2, 0, 0, 0, 0, 2, 0xAA, 0xAA]"

definition channel6_frame :: bytes where
  "channel6_frame = [2, 0, 0, 0, 0, 1, 2, 0, 0, 0, 0, 2, 0xAA, 0xAA,
     0, 0, 0, 0, 0xFF, 0xFF, 0xFE, 0xC0] @ replicate 48 0"

lemma channel6_frame_fields:
  "frame_field std_pnet F_sequence_number channel6_frame = 0"
  "frame_field std_pnet F_message_type channel6_frame = 0"
  "frame_field std_pnet F_chan channel6_frame = 6"
  by code_simp+

theorem process_packets_panics_iff_witness:
  "(\<exists>p. process_packets_logged False std_modular std_pnet 0 sample_conn short_frame = Panics p) \<and>
   (\<exists>p. process_packets_logged True std_modular std_pnet 0 sample_conn channel6_frame = Panics p)"
  unfolding process_packets_panics_iff [OF lk.ox_link_axioms sample_conn_inv]
  using channel6_frame_fields
  by (simp add: addressed_def is_expected_def frame_is_def short_frame_def sample_conn_def establish_connection_def
      conn_new_def sn_val_def sn_new_def std_modular_def)
    (simp add: channel6_frame_def std_pnet_def mac_of_def)

text \<open>
  C5. In-order delivery. For a frame that is addressed to the connection, long enough and, if it
  is the expected one, acknowledges a number in the window: a packet with the expected sequence
  number is accepted (its payload is returned, unless it is ack-only, its acknowledgement
  removes exactly the acknowledged packets from the resend buffer, and a NAK requests a
  resend); a packet up to half the number space behind is ignored without any effect; a packet
  further ahead is refused, changes only the NAK bookkeeping and requests a send, unless it is
  ack-only.
\<close>

theorem process_packets_in_order:
  assumes "ox_link L P" and "conn_inv L P c" and "addressed P c v" and "22 \<le> length v"
    and "is_expected L P c v \<Longrightarrow> acked_count L P c v \<le> length (resend_buffer c)"
  shows "process_packets L P now c v = Returns
    (if is_expected L P c v then
       if frame_is P AckOnly v then (Ok [], accepted_acks L P now c v)
       else (Ok (drop 22 v), accepted_data L P now c v)
     else if seq_dist (uint (frame_field P F_sequence_number v)) (sn_val L (next_rx_seq c)) < 2 ^ 21
     then (Ok [], c)
     else if frame_is P AckOnly v then (Ok [], c)
     else (Err (OutOfOrder (ucast (frame_field P F_sequence_number v))
             (word_of_int (sn_val L (next_rx_seq c)))),
           c\<lparr>naks := naks c + 1, last_ack_status := False, send_outstanding := True\<rparr>))"
proof -
  have *: "numbers_ok L c" "window_ok L P c" "sn_ok L (next_rx_seq c)"
    using assms(2) by (simp_all add: conn_inv_def numbers_ok_def)
  have "sn_cmp L (next_rx_seq c) (frame_field P F_sequence_number v) \<longleftrightarrow>
      seq_dist (uint (frame_field P F_sequence_number v)) (sn_val L (next_rx_seq c)) < 2 ^ 21"
    using modular_arith.sn_cmp_iff [OF ox_link.axioms(1) [OF assms(1)] *(3)]
      ox_link.field_22(1) [OF assms(1,4), of F_sequence_number]
    by (simp add: seq_dist_def nat_less_iff)
  then show ?thesis
    using ox_link.process_packets_open [OF assms(1,3,4), of now] assms(5)
      ox_link.process_expected_spec [OF assms(1) *(1,2) assms(4), of now]
    by (simp add: process_replicated_def frame_field_def)
qed

text \<open>A reply for the sample connection: sequence number 0, an ACK of the number before 0, no
  credits, and 48 bytes of payload.\<close>

definition reply_frame :: bytes where
  "reply_frame = [2, 0, 0, 0, 0, 1, 2, 0, 0, 0, 0, 2, 0xAA, 0xAA,
     0, 0, 0, 0, 0xFF, 0xFF, 0xFE, 0] @ replicate 48 0"

lemma reply_frame_fields:
  "frame_field std_pnet F_sequence_number reply_frame = 0"
  "frame_field std_pnet F_sequence_number_ack reply_frame = 4194303"
  "frame_field std_pnet F_message_type reply_frame = 0"
  by code_simp+

lemma reply_frame_ok:
  "addressed std_pnet sample_conn reply_frame" "22 \<le> length reply_frame"
  "is_expected std_modular std_pnet sample_conn reply_frame"
  "acked_count std_modular std_pnet sample_conn reply_frame = 0"
  "\<not> frame_is std_pnet AckOnly reply_frame"
  using reply_frame_fields
  by (simp_all add: addressed_def is_expected_def acked_count_def frame_is_def sample_conn_def
      establish_connection_def conn_new_def sn_val_def sn_new_def sn_max_def sn_modulus_def
      std_modular_def seq_dist_def)
    (simp_all add: reply_frame_def std_pnet_def mac_of_def)

theorem process_packets_in_order_witness:
  "process_packets std_modular std_pnet 7 sample_conn reply_frame =
     Returns (Ok (drop 22 reply_frame), accepted_data std_modular std_pnet 7 sample_conn reply_frame)"
  using process_packets_in_order [OF lk.ox_link_axioms sample_conn_inv reply_frame_ok(1,2), of 7]
    reply_frame_ok by simp

end
