(* ===== verification/Connection_Delivery.thy ===== *)
theory Connection_Delivery
  imports Connection_Window
begin

text \<open>
  Properties of \<^verbatim>\<open>connection.rs\<close> that span several calls: a retransmission is delivered once
  and in order, the wire order of packets, the acknowledgement of ack-only packets, and the
  state machine of opening and closing a connection.
\<close>

section \<open>Receiving a sequence of frames\<close>

definition delivered :: "(bytes, conn_error) result \<Rightarrow> bytes list" where
  "delivered r = (case r of Ok p \<Rightarrow> if p = [] then [] else [p] | Err _ \<Rightarrow> [])"

fun receive_all ::
    "'m modular \<Rightarrow> pnet \<Rightarrow> instant \<Rightarrow> 'm Connection \<Rightarrow> bytes list \<Rightarrow> (bytes list \<times> 'm Connection) outcome" where
  "receive_all L P now c [] = Returns ([], c)"
| "receive_all L P now c (v # vs) =
     and_then (process_packets L P now c v) (\<lambda>(r, c).
     and_then (receive_all L P now c vs) (\<lambda>(ds, c). Returns (delivered r @ ds, c)))"

text \<open>Consecutive sequence numbers from \<open>s\<close> on.\<close>

definition numbered_from :: "pnet \<Rightarrow> int \<Rightarrow> bytes list \<Rightarrow> bool" where
  "numbered_from P s fs \<longleftrightarrow>
     (\<forall>k < length fs. uint (frame_field P F_sequence_number (fs ! k)) = (s + int k) mod 2 ^ 22)"

text \<open>The acknowledgements in the frames stay in the window and never go back.\<close>

definition acks_ok :: "'m modular \<Rightarrow> pnet \<Rightarrow> 'm Connection \<Rightarrow> bytes list \<Rightarrow> bool" where
  "acks_ok L P c fs \<longleftrightarrow> sorted (map (acked_count L P c) fs) \<and>
     (\<forall>f \<in> set fs. acked_count L P c f \<le> length (resend_buffer c))"

lemma seq_dist_diff:
  assumes "seq_dist f x \<le> seq_dist f y"
  shows "seq_dist x y = seq_dist f y - seq_dist f x"
proof -
  have "(y - x) mod 2 ^ 22 = ((y - f) mod 2 ^ 22 - (x - f) mod 2 ^ 22) mod 2 ^ 22"
    by (simp add: mod_simps)
  also have "\<dots> = (int (seq_dist f y) - int (seq_dist f x)) mod 2 ^ 22" by (simp only: int_seq_dist)
  also have "\<dots> = int (seq_dist f y) - int (seq_dist f x)"
    using assms seq_dist_less [of f y] by simp
  finally show ?thesis using assms by (simp add: seq_dist_def [of x y])
qed

lemma numbered_from_Cons:
  "numbered_from P s (f # fs) \<longleftrightarrow> uint (frame_field P F_sequence_number f) = s mod 2 ^ 22 \<and>
     numbered_from P ((s + 1) mod 2 ^ 22) fs"
  by (simp add: numbered_from_def All_less_Suc2 mod_simps algebra_simps)

lemma sorted_map_diff: "sorted (map f xs) \<Longrightarrow> sorted (map (\<lambda>x. f x - (k :: nat)) xs)"
  by (induction xs) auto

lemma set_connection_state_receive_fields [simp]:
  "my_mac (set_connection_state_receive P c v) = my_mac c"
  "next_rx_seq (set_connection_state_receive P c v) = next_rx_seq c"
  "last_rx_seq (set_connection_state_receive P c v) = last_rx_seq c"
  "first_in_resend (set_connection_state_receive P c v) = first_in_resend c"
  "resend_buffer (set_connection_state_receive P c v) = resend_buffer c"
  by (simp_all add: set_connection_state_receive_def Let_def)

lemma accepted_data_fields [simp]:
  "my_mac (accepted_data L P now c v) = my_mac c"
  "next_rx_seq (accepted_data L P now c v) = sn_incr L (next_rx_seq c)"
  "last_rx_seq (accepted_data L P now c v) = next_rx_seq c"
  "first_in_resend (accepted_data L P now c v) = sn_set L (uint (frame_field P F_sequence_number_ack v))"
  "resend_buffer (accepted_data L P now c v) = drop (acked_count L P c v) (resend_buffer c)"
  by (simp_all add: accepted_data_def) (simp_all add: accepted_acks_def)

context ox_link
begin

lemma receive_old:
  assumes "conn_inv L P c" "addressed P c v" "22 \<le> length v"
    and "0 < seq_dist (uint (frame_field P F_sequence_number v)) (sn_val L (next_rx_seq c))"
    and "seq_dist (uint (frame_field P F_sequence_number v)) (sn_val L (next_rx_seq c)) < 2 ^ 21"
  shows "process_packets L P now c v = Returns (Ok [], c)"
proof -
  have "\<not> is_expected L P c v" using assms(4) by (auto simp: is_expected_def)
  moreover have "sn_cmp L (next_rx_seq c) (frame_field P F_sequence_number v)"
    using assms(1,5) field_22(1) [OF assms(3)] by (intro seq.behind_past) (auto simp: conn_inv_def numbers_ok_def)
  ultimately show ?thesis using process_packets_open [OF assms(2,3)] by simp
qed

lemma receive_expected:
  assumes "conn_inv L P c" "addressed P c v" "22 \<le> length v" "is_expected L P c v"
    and "acked_count L P c v \<le> length (resend_buffer c)" "\<not> frame_is P AckOnly v"
  shows "process_packets L P now c v = Returns (Ok (drop 22 v), accepted_data L P now c v)"
  using process_packets_open [OF assms(2,3)] process_expected_spec [of c v now False] assms
  by (simp add: conn_inv_def)

lemma acks_ok_tail:
  assumes "acks_ok L P c (v # fs)" "22 \<le> length v"
  shows "acks_ok L P (accepted_data L P now c v) fs"
proof -
  let ?c = "accepted_data L P now c v" and ?a = "uint (frame_field P F_sequence_number_ack v)"
  have val: "sn_val L (sn_set L ?a) = ?a"
    using sn_set_ok [of ?a] field_22 [OF assms(2), of F_sequence_number_ack] by simp
  have ac: "acked_count L P ?c f = acked_count L P c f - acked_count L P c v" if "f \<in> set fs" for f
    using seq_dist_diff [of "sn_val L (first_in_resend c)" ?a "uint (frame_field P F_sequence_number_ack f)"]
      assms(1) that val by (simp add: acks_ok_def acked_count_def)
  have "sorted (map (\<lambda>f. acked_count L P c f - acked_count L P c v) fs)"
    using assms(1) by (intro sorted_map_diff) (simp add: acks_ok_def)
  then have "sorted (map (acked_count L P ?c) fs)"
    using ac by (simp cong: map_cong)
  then show ?thesis using assms(1) ac by (auto simp: acks_ok_def)
qed

text \<open>Replayed packets are skipped, the rest is delivered.\<close>

lemma receive_all_resend:
  assumes "conn_inv L P c" "numbered_from P s fs" "length fs < 2 ^ 21" "j \<le> length fs"
    and "\<forall>f \<in> set fs. data_frame P (my_mac c) f" "acks_ok L P c (drop j fs)"
    and "sn_val L (next_rx_seq c) = (s + int j) mod 2 ^ 22"
  shows "\<exists>c'. receive_all L P now c fs = Returns (map (drop 22) (drop j fs), c') \<and> conn_inv L P c' \<and>
    sn_val L (next_rx_seq c') = (s + int (length fs)) mod 2 ^ 22"
  using assms
proof (induction fs arbitrary: c s j)
  case Nil
  then show ?case by simp
next
  case (Cons v fs)
  have v: "22 \<le> length v" "addressed P c v" "\<not> frame_is P AckOnly v" "drop 22 v \<noteq> []"
    using Cons.prems(5) by (auto simp: data_frame_def addressed_def)
  have seq: "uint (frame_field P F_sequence_number v) = s mod 2 ^ 22"
    "numbered_from P ((s + 1) mod 2 ^ 22) fs"
    using Cons.prems(2) by (simp_all add: numbered_from_Cons)
  have shift: "((s + 1) mod 2 ^ 22 + int k) mod 2 ^ 22 = (s + int (Suc k)) mod 2 ^ 22" for k
    by (simp add: mod_simps algebra_simps)
  show ?case
  proof (cases j)
    case (Suc i)
    have "seq_dist (s mod 2 ^ 22) ((s + int j) mod 2 ^ 22) = j"
      using Cons.prems(3,4) by (simp add: seq_dist_def mod_simps)
    then have "process_packets L P now c v = Returns (Ok [], c)"
      using Cons.prems(3,4) Suc by (intro receive_old Cons.prems(1) v(1,2)) (simp_all add: seq(1) Cons.prems(7))
    moreover obtain c' where "receive_all L P now c fs = Returns (map (drop 22) (drop i fs), c')"
      "conn_inv L P c'" "sn_val L (next_rx_seq c') = ((s + 1) mod 2 ^ 22 + int (length fs)) mod 2 ^ 22"
      using Cons.IH [OF Cons.prems(1) seq(2), of i] Cons.prems Suc shift [of i] by auto
    ultimately show ?thesis using Suc shift [of "length fs"] by (simp add: delivered_def)
  next
    case 0
    have e: "is_expected L P c v" using Cons.prems(7) 0 seq(1) by (simp add: is_expected_def)
    have a: "acked_count L P c v \<le> length (resend_buffer c)" using Cons.prems(6) 0 by (simp add: acks_ok_def)
    let ?c = "accepted_data L P now c v"
    have "sn_val L (next_rx_seq ?c) = ((s + 1) mod 2 ^ 22 + int 0) mod 2 ^ 22"
      using sn_incr_ok [of "next_rx_seq c"] Cons.prems(1,7) 0
      by (simp add: conn_inv_def numbers_ok_def mod_simps)
    then obtain c' where "receive_all L P now ?c fs = Returns (map (drop 22) fs, c')"
      "conn_inv L P c'" "sn_val L (next_rx_seq c') = ((s + 1) mod 2 ^ 22 + int (length fs)) mod 2 ^ 22"
      using Cons.IH [OF conn_inv_data [OF Cons.prems(1) v(1) a] seq(2), of 0] Cons.prems 0
        acks_ok_tail [OF _ v(1), of c fs now] by auto
    then show ?thesis
      using receive_expected [OF Cons.prems(1) v(2,1) e a v(3), of now] 0 v(4) shift [of "length fs"]
      by (simp add: delivered_def)
  qed
qed

end

section \<open>Retransmission\<close>

text \<open>
  C1. Go-back-N recovery. A sender \<open>a\<close> and a receiver \<open>b\<close> with well-formed connections
  have lost an arbitrary part of their traffic: \<open>b\<close> has accepted only the first \<open>j\<close> of the
  packets \<open>a\<close> still keeps. One \<^verbatim>\<open>resend\<close> of \<open>a\<close>, received in order, makes \<open>b\<close> deliver
  exactly the payloads of the other packets, each once and in order, without a panic, after
  which \<open>b\<close> expects the number \<open>a\<close> will send next.
\<close>

theorem resend_delivers_once:
  assumes "ox_link L P" and "conn_inv L P a" and "conn_inv L P b" and "other_mac a = my_mac b"
    and "resend_buffer a \<noteq> []" and "resend_data a = []" and "length (resend_buffer a) < 2 ^ 21"
    and "j \<le> length (resend_buffer a)"
    and "sn_val L (next_rx_seq b) = (sn_val L (first_in_resend a) + 1 + int j) mod 2 ^ 22"
    and "acks_ok L P b (drop j (resend_buffer a))"
  shows "fst (resend a) = Ok () \<and> (\<exists>b'.
    receive_all L P now b (resend_data (snd (resend a))) =
      Returns (map (drop 22) (drop j (resend_buffer a)), b') \<and>
    next_rx_seq b' = next_tx_seq a \<and> conn_inv L P b')"
proof -
  let ?fs = "resend_buffer a" and ?s = "sn_val L (first_in_resend a) + 1"
  have r: "fst (resend a) = Ok ()" "resend_data (snd (resend a)) = ?fs"
    using assms(5,6) by (simp_all add: resend_def)
  have a: "window_ok L P a" "frames_ok P a" "numbers_ok L a" using assms(2) by (simp_all add: conn_inv_def)
  have n: "numbered_from P ?s ?fs" using a(1) by (simp add: window_ok_def numbered_from_def)
  have d: "\<forall>f \<in> set ?fs. data_frame P (my_mac b) f" using a(2) assms(4) by (simp add: frames_ok_def)
  obtain b' where b': "receive_all L P now b ?fs = Returns (map (drop 22) (drop j ?fs), b')"
    "conn_inv L P b'" "sn_val L (next_rx_seq b') = (?s + int (length ?fs)) mod 2 ^ 22"
    using ox_link.receive_all_resend [OF assms(1,3) n assms(7,8) d assms(10,9), of now] by blast
  have "sn_val L (next_rx_seq b') = sn_val L (next_tx_seq a)" using b'(3) a(1) by (simp add: window_ok_def)
  then have "next_rx_seq b' = next_tx_seq a"
    using b'(2) a(3) unfolding conn_inv_def numbers_ok_def sn_ok_def by metis
  with r b' show ?thesis by auto
qed

text \<open>A sender with one packet in flight and its peer.\<close>

definition sample_sent :: "(int \<times> nat) Connection" where
  "sample_sent = (case send_packet std_modular std_pnet sample_conn None False of
     Returns (r, rest, c) \<Rightarrow> c | _ \<Rightarrow> sample_conn)"

definition sample_peer :: "(int \<times> nat) Connection" where
  "sample_peer = conn_new std_modular 0 0 False 1 (MacAddr 2 0 0 0 0 2) (MacAddr 2 0 0 0 0 1)"

lemma sample_sent_frame:
  obtains frame where "sample_sent = sent_state std_modular sample_conn False frame"
    "frame_for std_modular std_pnet sample_conn False (body_of [] @ u64_to_be_bytes 0) frame"
    "send_packet std_modular std_pnet sample_conn None False = Returns (Ok (), None, sample_sent)"
proof -
  obtain n m frame where f: "takes_prefix (case_option [] id None) n m"
    "send_packet std_modular std_pnet sample_conn None False =
       Returns (Ok (), map_option (drop n) None, sent_state std_modular sample_conn False frame)"
    "frame_for std_modular std_pnet sample_conn False
       (body_of (take n (case_option [] id None)) @ u64_to_be_bytes m) frame"
    by (rule lk.send_packet_sends [of sample_conn None False])
      (use sample_conn_fields in simp_all)
  have "m = 0" using f(1) by (simp add: takes_prefix_def bit_eq_iff)
  with f show thesis using that [of frame] by (simp add: sample_sent_def)
qed

lemma sample_sent_inv: "conn_inv std_modular std_pnet sample_sent"
proof -
  have "resend_buffer sample_conn = []"
    by (simp add: sample_conn_def establish_connection_def conn_new_def)
  moreover have "send_packet std_modular std_pnet sample_conn None False = Returns (Ok (), None, sample_sent)"
    using sample_sent_frame by blast
  ultimately show ?thesis by (auto intro!: lk.conn_inv_send [OF sample_conn_inv])
qed

lemma sample_sent_fields:
  "length (resend_buffer sample_sent) = 1" "resend_data sample_sent = []"
  "other_mac sample_sent = my_mac sample_peer"
  "sn_val std_modular (first_in_resend sample_sent) = 4194303"
  "sn_val std_modular (next_rx_seq sample_peer) = 0"
  "acks_ok std_modular std_pnet sample_peer (resend_buffer sample_sent)"
proof -
  obtain frame where f: "sample_sent = sent_state std_modular sample_conn False frame"
    "frame_for std_modular std_pnet sample_conn False (body_of [] @ u64_to_be_bytes 0) frame"
    using sample_sent_frame by blast
  note defs = sent_state_def sample_conn_def establish_connection_def conn_new_def sample_peer_def
    sn_val_def sn_new_def sn_max_def sn_modulus_def std_modular_def
  show "length (resend_buffer sample_sent) = 1" "resend_data sample_sent = []"
    "other_mac sample_sent = my_mac sample_peer"
    "sn_val std_modular (first_in_resend sample_sent) = 4194303"
    "sn_val std_modular (next_rx_seq sample_peer) = 0"
    unfolding f(1) by (simp_all add: defs)
  have "frame_field std_pnet F_sequence_number_ack frame = 4194303"
    using f(2) by (simp add: frame_for_def) (simp add: defs)
  then show "acks_ok std_modular std_pnet sample_peer (resend_buffer sample_sent)"
    unfolding f(1) by (simp add: acks_ok_def acked_count_def defs seq_dist_def)
qed

theorem resend_delivers_once_witness:
  "\<exists>b'. receive_all std_modular std_pnet 0 sample_peer (resend_data (snd (resend sample_sent))) =
     Returns (map (drop 22) (resend_buffer sample_sent), b') \<and>
     next_rx_seq b' = next_tx_seq sample_sent"
proof -
  have "resend_buffer sample_sent \<noteq> []" using sample_sent_fields(1) by auto
  from resend_delivers_once [OF lk.ox_link_axioms sample_sent_inv _ sample_sent_fields(3) this
      sample_sent_fields(2), of 0 0] sample_sent_fields
  show ?thesis by (auto simp: sample_peer_def intro: lk.conn_inv_new)
qed

section \<open>What an acknowledgement says\<close>

text \<open>The number a connection acknowledges is the one before the number it expects.\<close>

definition acks_honest :: "'m modular \<Rightarrow> 'm Connection \<Rightarrow> bool" where
  "acks_honest L c \<longleftrightarrow> sn_incr L (last_rx_seq c) = next_rx_seq c"

context ox_link
begin

lemma acks_honest_receive:
  assumes "conn_inv L P c" "acks_honest L c" "\<not> frame_is P AckOnly v"
    and "process_packets L P now c v = Returns (r, c')"
  shows "acks_honest L c'"
proof (cases "addressed P c v \<and> 22 \<le> length v")
  case False
  with assms show ?thesis
    using process_packets_refused [of c v now] process_packets_short [of c v now] by force
next
  case True
  have *: "numbers_ok L c" "window_ok L P c" using assms(1) by (simp_all add: conn_inv_def)
  from True assms process_expected_spec [OF *, of v now False] show ?thesis
    by (cases "is_expected L P c v")
      (auto simp: process_packets_open process_replicated_def acks_honest_def split: if_splits)
qed

lemma acks_honest_send:
  assumes "conn_inv L P c" "acks_honest L c" "send_packet L P c operations busy = Returns (r, rest, c')"
  shows "acks_honest L c'"
proof (cases "connection_state c = Idle \<or> packet_data c \<noteq> None")
  case True
  with assms show ?thesis by (auto simp: send_packet_def split: if_splits)
next
  case False
  obtain n m frame where "takes_prefix (case_option [] id operations) n m"
    "send_packet L P c operations busy =
       Returns (Ok (), map_option (drop n) operations, sent_state L c busy frame)"
    "frame_for L P c busy (body_of (take n (case_option [] id operations)) @ u64_to_be_bytes m) frame"
    by (rule send_packet_sends [of c operations busy])
      (use False assms(1) in \<open>auto simp: conn_inv_def numbers_ok_def\<close>)
  with assms show ?thesis by (auto simp: acks_honest_def sent_state_def)
qed

lemma acks_honest_step:
  assumes "conn_step L P (\<lambda>v. \<not> frame_is P AckOnly v) c c'" "conn_inv L P c" "acks_honest L c"
  shows "acks_honest L c'"
  using assms
proof (induction rule: conn_step.induct)
  case (step_close ph c timeout now)
  then show ?case using close_connection_effect [of L timeout now ph c] by (auto simp: acks_honest_def)
next
  case (step_send c operations busy r rest c')
  from acks_honest_send [OF step_send(3,4,2)] show ?case .
next
  case (step_receive v now c r c')
  from acks_honest_receive [OF step_receive(3,4,1,2)] show ?case .
qed (auto simp: acks_honest_def establish_connection_def
    get_packet_def resend_def add_receive_credits_def split: list.split option.split)

end

text \<open>
  C31. As long as no ack-only packet is received, a connection acknowledges exactly what it has
  accepted: in every reachable state the number it puts into the acknowledgement field is the
  predecessor of the sequence number it expects next.
\<close>

theorem acknowledges_only_received:
  assumes "ox_link L P" and "conn_reachable L P (\<lambda>v. \<not> frame_is P AckOnly v) c"
  shows "acks_honest L c"
proof -
  have "conn_inv L P c \<and> acks_honest L c" using assms(2)
  proof (induction rule: conn_reachable.induct)
    case (reach_new now now' cm cid mine other)
    have "sn_incr L (sn_set L sn_max) = sn_set L 0"
      using modular_arith.mod_add_to_modulo [OF ox_link.axioms(1) [OF assms(1)], of sn_modulus sn_max 1]
      by (simp add: sn_incr_def sn_set_def sn_modulus_def sn_max_def)
    then show ?case
      using ox_link.conn_inv_new [OF assms(1)]
      by (auto simp: acks_honest_def conn_new_def sn_new_def sn_set_def)
  next
    case (reach_step c c')
    then show ?case
      using ox_link.acks_honest_step [OF assms(1)] ox_link.conn_inv_step [OF assms(1)] by blast
  qed
  then show ?thesis ..
qed

theorem acknowledges_only_received_witness: "acks_honest std_modular sample_conn"
  unfolding sample_conn_def
  by (rule acknowledges_only_received [OF lk.ox_link_axioms])
    (rule reach_step [OF reach_new step_establish])

text \<open>
  C32. An ack-only packet breaks this. Received with the expected sequence number it is not
  consumed (the connection still expects the same number), yet the next packet the connection
  sends acknowledges that number as received.
\<close>

theorem ack_only_acknowledged_early:
  assumes "ox_link L P" and "conn_inv L P c" and "addressed P c v" and "22 \<le> length v"
    and "is_expected L P c v" and "acked_count L P c v \<le> length (resend_buffer c)"
    and "frame_is P AckOnly v" and "connection_state c \<noteq> Idle" and "packet_data c = None"
  shows "\<exists>c' c'' rest frame. process_packets L P now c v = Returns (Ok [], c') \<and>
    next_rx_seq c' = next_rx_seq c \<and>
    send_packet L P c' operations busy = Returns (Ok (), rest, c'') \<and> packet_data c'' = Some frame \<and>
    uint (frame_field P F_sequence_number_ack frame) = sn_val L (next_rx_seq c)"
proof -
  let ?c = "accepted_acks L P now c v"
  have *: "numbers_ok L c" "window_ok L P c" using assms(2) by (simp_all add: conn_inv_def)
  have p: "process_packets L P now c v = Returns (Ok [], ?c)"
    using ox_link.process_packets_open [OF assms(1,3,4), of now]
      ox_link.process_expected_spec [OF assms(1) * assms(4,5), of now True] assms(5-7) by simp
  have c: "connection_state ?c = connection_state c" "packet_data ?c = packet_data c"
    "last_rx_seq ?c = next_rx_seq c" "next_rx_seq ?c = next_rx_seq c" by (simp_all add: accepted_acks_def)
  have inv: "conn_inv L P ?c" using ox_link.conn_inv_acks [OF assms(1,2,4,6)] .
  obtain n m frame where f: "takes_prefix (case_option [] id operations) n m"
    "send_packet L P ?c operations busy =
       Returns (Ok (), map_option (drop n) operations, sent_state L ?c busy frame)"
    "frame_for L P ?c busy (body_of (take n (case_option [] id operations)) @ u64_to_be_bytes m) frame"
    by (rule ox_link.send_packet_sends [OF assms(1), of ?c operations busy])
      (use c inv assms(8,9) in \<open>auto simp: conn_inv_def numbers_ok_def\<close>)
  moreover have "uint (frame_field P F_sequence_number_ack frame) = sn_val L (next_rx_seq c)"
    using f(3) c(3) ox_link.sn_word(2) [OF assms(1), of "next_rx_seq c"] *(1)
    by (simp add: frame_for_def numbers_ok_def)
  ultimately show ?thesis using p c(4)
    by (intro exI [of _ ?c] exI [of _ "sent_state L ?c busy frame"]
        exI [of _ "map_option (drop n) operations"] exI [of _ frame]) (simp add: sent_state_def)
qed

text \<open>The sample reply as an ack-only packet.\<close>

definition ack_only_frame :: bytes where
  "ack_only_frame = [2, 0, 0, 0, 0, 1, 2, 0, 0, 0, 0, 2, 0xAA, 0xAA,
     2, 0, 0, 0, 0xFF, 0xFF, 0xFE, 0] @ replicate 48 0"

lemma ack_only_frame_fields:
  "frame_field std_pnet F_sequence_number ack_only_frame = 0"
  "frame_field std_pnet F_sequence_number_ack ack_only_frame = 4194303"
  "frame_field std_pnet F_message_type ack_only_frame = 1"
  by code_simp+

theorem ack_only_acknowledged_early_witness:
  "\<exists>c' c'' rest frame.
    process_packets std_modular std_pnet 0 sample_conn ack_only_frame = Returns (Ok [], c') \<and>
    next_rx_seq c' = next_rx_seq sample_conn \<and>
    send_packet std_modular std_pnet c' None False = Returns (Ok (), rest, c'') \<and>
    packet_data c'' = Some frame \<and>
    uint (frame_field std_pnet F_sequence_number_ack frame) = sn_val std_modular (next_rx_seq sample_conn)"
proof (rule ack_only_acknowledged_early [OF lk.ox_link_axioms sample_conn_inv])
  show "connection_state sample_conn \<noteq> Idle" "packet_data sample_conn = None"
    using sample_conn_fields by simp_all
qed (use ack_only_frame_fields in
    \<open>simp_all add: addressed_def is_expected_def acked_count_def frame_is_def sample_conn_def
      establish_connection_def conn_new_def sn_val_def sn_new_def sn_max_def sn_modulus_def
      std_modular_def seq_dist_def\<close>,
    simp_all add: ack_only_frame_def std_pnet_def mac_of_def)

section \<open>The state machine\<close>

text \<open>The transitions of a connection that is not in compatibility mode, by the operation that
  makes them, and the only transition in compatibility mode.\<close>

inductive state_edge :: "ConnectionState \<Rightarrow> ConnectionState \<Rightarrow> bool" where
  edge_enable: "state_edge Idle Enabled"
| edge_opened: "state_edge Enabled Opened"
| edge_active: "state_edge Opened Active"
| edge_peer_opens: "state_edge Idle Active"
| edge_close: "s = Active \<or> s = Opened \<Longrightarrow> state_edge s ClosedByHost"
| edge_indicate: "state_edge ClosedByHost ClosedByHostIndicated"
| edge_closed: "state_edge ClosedByHostIndicated Idle"
| edge_peer_closes: "s \<noteq> ClosedByHostIndicated \<Longrightarrow> state_edge s ClosedByClient"
| edge_confirm: "state_edge ClosedByClient Idle"

inductive_cases state_edge_elim: "state_edge s t"

definition allowed_edge :: "bool \<Rightarrow> ConnectionState \<Rightarrow> ConnectionState \<Rightarrow> bool" where
  "allowed_edge cm s t \<longleftrightarrow> s = t \<or> (if cm then s = Idle \<and> t = Active else state_edge s t)"

lemma allowed_edge_send: "allowed_edge (compat_mode c) (connection_state c) (state_after_send c busy)"
  by (auto simp: allowed_edge_def state_after_send_def intro: state_edge.intros
      split: ConnectionState.split)

lemma allowed_edge_receive:
  "allowed_edge (compat_mode c) (connection_state c) (connection_state (set_connection_state_receive P c v))"
  by (auto simp: allowed_edge_def set_connection_state_receive_def Let_def intro: state_edge.intros)

lemma set_connection_state_receive_cong:
  "connection_state c = connection_state d \<Longrightarrow> compat_mode c = compat_mode d \<Longrightarrow>
     connection_state (set_connection_state_receive P c v) = connection_state (set_connection_state_receive P d v)"
  by (auto simp: set_connection_state_receive_def Let_def)

context ox_link
begin

lemma allowed_edge_process:
  assumes "conn_inv L P c" "process_packets L P now c v = Returns (r, c')"
  shows "allowed_edge (compat_mode c) (connection_state c) (connection_state c')"
proof (cases "addressed P c v \<and> 22 \<le> length v")
  case False
  with assms show ?thesis
    using process_packets_refused [of c v now] process_packets_short [of c v now]
    by (force simp: allowed_edge_def)
next
  case True
  have *: "numbers_ok L c" "window_ok L P c" using assms(1) by (simp_all add: conn_inv_def)
  have "connection_state (accepted_data L P now c v) =
      connection_state (set_connection_state_receive P c (eth_payload P v))"
    unfolding accepted_data_def by (rule set_connection_state_receive_cong) (simp_all add: accepted_acks_def)
  with True assms(2) process_expected_spec [OF *, of v now] allowed_edge_receive [of c P "eth_payload P v"]
  show ?thesis
    by (cases "is_expected L P c v")
      (auto simp: process_packets_open process_replicated_def accepted_acks_def allowed_edge_def
        split: if_splits)
qed

lemma allowed_edge_sent:
  assumes "conn_inv L P c" "send_packet L P c operations busy = Returns (r, rest, c')"
  shows "allowed_edge (compat_mode c) (connection_state c) (connection_state c')"
proof (cases "connection_state c = Idle \<or> packet_data c \<noteq> None")
  case True
  with assms show ?thesis by (auto simp: send_packet_def allowed_edge_def split: if_splits)
next
  case False
  obtain n m frame where "takes_prefix (case_option [] id operations) n m"
    "send_packet L P c operations busy =
       Returns (Ok (), map_option (drop n) operations, sent_state L c busy frame)"
    "frame_for L P c busy (body_of (take n (case_option [] id operations)) @ u64_to_be_bytes m) frame"
    by (rule send_packet_sends [of c operations busy])
      (use False assms(1) in \<open>auto simp: conn_inv_def numbers_ok_def\<close>)
  with assms(2) show ?thesis using allowed_edge_send [of c busy] by (auto simp: sent_state_def)
qed

lemma allowed_edge_step:
  assumes "conn_step L P A c c'" "conn_inv L P c"
  shows "allowed_edge (compat_mode c) (connection_state c) (connection_state c')"
  using assms
proof (induction rule: conn_step.induct)
  case (step_send c operations busy r rest c')
  then show ?case by (intro allowed_edge_sent)
next
  case (step_receive v now c r c')
  then show ?case by (intro allowed_edge_process)
next
  case (step_close ph c timeout now)
  then show ?case
    using close_connection_effect [of L timeout now ph c]
    by (cases "compat_mode c")
      (auto simp: allowed_edge_def close_refused_def intro: state_edge.intros)
qed (auto simp: allowed_edge_def establish_connection_def get_packet_def resend_def
    add_receive_credits_def intro: state_edge.intros split: list.split option.split)

end

text \<open>
  C30. Every step of a reachable connection leaves its state as it is or follows an edge of the
  open/close handshake; in compatibility mode the only change is from idle to active.
\<close>

theorem state_machine_edges:
  assumes "ox_link L P" and "conn_inv L P c" and "conn_step L P A c c'"
  shows "allowed_edge (compat_mode c) (connection_state c) (connection_state c')"
  using assms(3,2) by (rule ox_link.allowed_edge_step [OF assms(1)])

theorem state_machine_edges_witness:
  "allowed_edge (compat_mode sample_conn) (connection_state sample_conn) (connection_state sample_sent)"
proof (rule state_machine_edges [OF lk.ox_link_axioms sample_conn_inv, where A = "\<lambda>_. True"])
  have "send_packet std_modular std_pnet sample_conn None False = Returns (Ok (), None, sample_sent)"
    using sample_sent_frame by blast
  then show "conn_step std_modular std_pnet (\<lambda>_. True) sample_conn sample_sent"
    by (rule step_send [rotated]) (simp add: sample_conn_def establish_connection_def conn_new_def)
qed

end
