(* ===== verification/Operations.thy ===== *)
theory Operations
  imports Tl_Encoding "HOL-Library.Multiset"
begin

text \<open>
  The second half of \<^verbatim>\<open>omnixtend-rs/src/operations.rs\<close>: the pool of source ids, the channels
  on which responses come back, and \<^verbatim>\<open>perform\<close>, which several threads run at once. A call of
  \<^verbatim>\<open>perform\<close> is cut at the points where it waits (for a source, for credits, for a response)
  and before it sends its acknowledgement; a poll runs it from one such point to the next. The
  lemmas show that no two operations in flight share a source id and what the counter of
  outstanding operations counts.
\<close>

section \<open>State\<close>

text \<open>A \<^verbatim>\<open>bounded(1)\<close> channel is an optional value. The senders live as long as the
  structure, so \<^verbatim>\<open>recv\<close> never fails.\<close>

record Operations =
  available_sources :: "u32 list"
  operation_completions :: "(u32 \<times> (bytes, op_error) result) option list"
  operations_outstanding :: "bytes list"
  outstanding_cntr :: usize

definition operations_new :: Operations where
  "operations_new =
     \<lparr>available_sources = map of_nat [0..<255], operation_completions = replicate 255 None,
      operations_outstanding = [], outstanding_cntr = 0\<rparr>"

section \<open>Parts of \<open>perform\<close>\<close>

text \<open>\<open>None\<close>: no source is free.\<close>

definition get_source :: "Operations \<Rightarrow> TLOperations \<Rightarrow> (u32 \<times> Operations) option" where
  "get_source ops oper =
     (if has_return oper then
        (case available_sources ops of
           a # rest \<Rightarrow> Some (a, ops\<lparr>available_sources := rest\<rparr>)
         | [] \<Rightarrow> None)
      else Some (0, ops))"

definition create_operation ::
    "Operations \<Rightarrow> TLOperations \<Rightarrow> u32 \<Rightarrow> ((bytes, op_error) result \<times> Operations) outcome" where
  "create_operation ops oper source =
     and_then (pack_operation \<lparr>os_operation = oper, os_source = source\<rparr>) (\<lambda>r.
       case r of
         Ok op \<Rightarrow> Returns (Ok op, ops)
       | Err e \<Rightarrow>
           let ops = (if has_return oper
                      then ops\<lparr>available_sources := available_sources ops @ [source]\<rparr> else ops);
               ops = ops\<lparr>outstanding_cntr := outstanding_cntr ops - 1\<rparr>
           in Returns (Err e, ops))"

text \<open>One try of the loop in \<^verbatim>\<open>get_credits\<close>.\<close>

definition get_credits :: "TLOperations \<Rightarrow> credits \<Rightarrow> bool \<times> credits" where
  "get_credits oper cr = (let (chan, credit) = op_credits oper in credits_take cr chan credit)"

text \<open>The inner \<open>None\<close>: no response yet.\<close>

definition wait_for_response ::
    "Operations \<Rightarrow> u32 \<Rightarrow> ((u32 \<times> (bytes, op_error) result) option \<times> Operations) outcome" where
  "wait_for_response ops source =
     (if unat source < length (operation_completions ops) then
        Returns (operation_completions ops ! unat source,
          ops\<lparr>operation_completions := (operation_completions ops)[unat source := None]\<rparr>)
      else Panics SliceOutOfRange)"

definition complete_inner :: "TLOperations \<Rightarrow> bytes \<Rightarrow> TLResult outcome" where
  "complete_inner oper ret =
     (if has_result_data oper then Returns (ResData ret)
      else if has_result_data_64 oper then and_then (try_u64_ne ret) (\<lambda>v. Returns (Data64 v))
      else Returns ResNone)"

definition extract_response ::
    "(bytes, op_error) result \<Rightarrow> TLOperations \<Rightarrow> (TLResult, op_error) result outcome" where
  "extract_response ret oper =
     (case ret of
        Ok r \<Rightarrow> and_then (complete_inner oper r) (\<lambda>v. Returns (Ok v))
      | Err e \<Rightarrow> Returns (Err e))"

text \<open>\<^verbatim>\<open>complete\<close>: the response to a source that has an unread one makes \<^verbatim>\<open>send\<close> wait.\<close>

definition op_complete ::
    "Operations \<Rightarrow> u32 \<Rightarrow> u32 \<Rightarrow> (bytes, op_error) result \<Rightarrow> Operations outcome" where
  "op_complete ops source sink r =
     (if operation_completions ops = [] then Returns ops
      else if unat source < length (operation_completions ops) then
        (case operation_completions ops ! unat source of
           None \<Rightarrow> Returns (ops\<lparr>operation_completions :=
             (operation_completions ops)[unat source := Some (sink, r)]\<rparr>)
         | Some _ \<Rightarrow> Waits)
      else Panics SliceOutOfRange)"

definition num_outstanding :: "Operations \<Rightarrow> usize" where
  "num_outstanding ops = outstanding_cntr ops"

section \<open>\<open>perform\<close>\<close>

datatype perform_phase =
    Get_source TLOperations
  | Get_credits TLOperations u32 bytes
  | Wait_response TLOperations u32
  | Send_response TLOperations u32 "(bytes, op_error) result"
  | Ack_credits TLOperations "(bytes, op_error) result" TLOperations bytes

type_synonym perform_result = "(perform_phase + (TLResult, op_error) result) \<times> Operations \<times> credits"

text \<open>The entry of \<^verbatim>\<open>perform\<close>.\<close>

definition perform_enter :: "Operations \<Rightarrow> Operations" where
  "perform_enter ops = ops\<lparr>outstanding_cntr := outstanding_cntr ops + 1\<rparr>"

definition perform_return ::
    "TLOperations \<Rightarrow> (bytes, op_error) result \<Rightarrow> Operations \<Rightarrow> credits \<Rightarrow> perform_result outcome" where
  "perform_return oper ret ops cr =
     and_then (extract_response ret oper) (\<lambda>r. Returns (Inr r, ops, cr))"

definition perform_response ::
    "TLOperations \<Rightarrow> u32 \<Rightarrow> Operations \<Rightarrow> credits \<Rightarrow> perform_result outcome" where
  "perform_response oper source ops cr =
     and_then (wait_for_response ops source) (\<lambda>(resp, ops).
       case resp of
         None \<Rightarrow> Returns (Inl (Wait_response oper source), ops, cr)
       | Some (sink, ret) \<Rightarrow>
           let ops = ops\<lparr>available_sources := available_sources ops @ [source]\<rparr>;
               ops = ops\<lparr>outstanding_cntr := outstanding_cntr ops - 1\<rparr>
           in if ret \<noteq> Err ConnectionClosed
              then Returns (Inl (Send_response oper sink ret), ops, cr)
              else perform_return oper ret ops cr)"

definition perform_credits ::
    "TLOperations \<Rightarrow> u32 \<Rightarrow> bytes \<Rightarrow> Operations \<Rightarrow> credits \<Rightarrow> perform_result outcome" where
  "perform_credits oper source op ops cr =
     (let (granted, cr) = get_credits oper cr in
      if \<not> granted then Returns (Inl (Get_credits oper source op), ops, cr)
      else
        let ops = ops\<lparr>operations_outstanding := operations_outstanding ops @ [op]\<rparr> in
        if has_return oper then perform_response oper source ops cr
        else Returns (Inr (Ok ResNone), ops\<lparr>outstanding_cntr := outstanding_cntr ops - 1\<rparr>, cr))"

text \<open>\<^verbatim>\<open>send_response\<close> calls \<^verbatim>\<open>perform\<close> for the acknowledgement of a grant, which takes no source
  and returns without a response; its errors are only logged. \<open>oper\<close> and \<open>ret\<close> belong to
  the outer call.\<close>

definition ack_credits ::
    "TLOperations \<Rightarrow> (bytes, op_error) result \<Rightarrow> TLOperations \<Rightarrow> bytes \<Rightarrow> Operations \<Rightarrow> credits \<Rightarrow>
     perform_result outcome" where
  "ack_credits oper ret ack op ops cr =
     (let (granted, cr) = get_credits ack cr in
      if \<not> granted then Returns (Inl (Ack_credits oper ret ack op), ops, cr)
      else perform_return oper ret
        (ops\<lparr>operations_outstanding := operations_outstanding ops @ [op],
            outstanding_cntr := outstanding_cntr ops - 1\<rparr>) cr)"

definition send_response ::
    "TLOperations \<Rightarrow> u32 \<Rightarrow> (bytes, op_error) result \<Rightarrow> Operations \<Rightarrow> credits \<Rightarrow> perform_result outcome" where
  "send_response oper sink ret ops cr =
     (case get_response oper sink of
        None \<Rightarrow> perform_return oper ret ops cr
      | Some ack \<Rightarrow>
          and_then (create_operation (perform_enter ops) ack 0) (\<lambda>(r, ops).
            case r of
              Ok op \<Rightarrow> ack_credits oper ret ack op ops cr
            | Err _ \<Rightarrow> perform_return oper ret ops cr))"

fun perform :: "perform_phase \<Rightarrow> Operations \<Rightarrow> credits \<Rightarrow> perform_result outcome" where
  "perform (Get_source oper) ops cr =
     (case get_source ops oper of
        None \<Rightarrow> Returns (Inl (Get_source oper), ops, cr)
      | Some (source, ops) \<Rightarrow>
          and_then (create_operation ops oper source) (\<lambda>(r, ops).
            case r of
              Err e \<Rightarrow> Returns (Inr (Err e), ops, cr)
            | Ok op \<Rightarrow> perform_credits oper source op ops cr))"
| "perform (Get_credits oper source op) ops cr = perform_credits oper source op ops cr"
| "perform (Wait_response oper source) ops cr = perform_response oper source ops cr"
| "perform (Send_response oper sink ret) ops cr = send_response oper sink ret ops cr"
| "perform (Ack_credits oper ret ack op) ops cr = ack_credits oper ret ack op ops cr"

section \<open>Threads\<close>

text \<open>
  The source a call holds and its share of the counter. \<^verbatim>\<open>fetch_sub\<close> stands right after the
  response has been received and before \<^verbatim>\<open>send_response\<close>, which enters \<^verbatim>\<open>perform\<close> again: a call
  between the two is still running but not counted.
\<close>

fun phase_source :: "perform_phase \<Rightarrow> u32 option" where
  "phase_source (Get_credits oper source op) = (if has_return oper then Some source else None)"
| "phase_source (Wait_response oper source) = Some source"
| "phase_source _ = None"

fun phase_count :: "perform_phase \<Rightarrow> nat" where
  "phase_count (Send_response _ _ _) = 0"
| "phase_count _ = 1"

fun response_taken :: "perform_phase \<Rightarrow> bool" where
  "response_taken (Send_response _ _ _) = True"
| "response_taken _ = False"

fun phase_ok :: "perform_phase \<Rightarrow> bool" where
  "phase_ok (Wait_response oper source) = has_return oper"
| "phase_ok _ = True"

record op_system =
  sys_ops :: Operations
  sys_credits :: credits
  sys_threads :: "perform_phase multiset"

definition held_sources :: "perform_phase multiset \<Rightarrow> u32 multiset" where
  "held_sources ts = (\<Sum>t \<in># ts. case phase_source t of Some s \<Rightarrow> {#s#} | None \<Rightarrow> {#})"

text \<open>
  The steps of the system: a thread calls \<^verbatim>\<open>perform\<close>, a thread is polled (and leaves when it
  returns), a response arrives, credits arrive, and the connection takes queued operations.
  \<^verbatim>\<open>complete\<close> looks at nothing but the source of a response, which the other side has chosen;
  with \<open>solicited\<close> the run is one in which the other side answers only sources whose operation
  waits for a response, without it responses come for any source at any time.
\<close>

inductive op_step :: "bool \<Rightarrow> op_system \<Rightarrow> op_system \<Rightarrow> bool" for solicited where
  op_call: "op_step solicited s (s\<lparr>sys_ops := perform_enter (sys_ops s),
      sys_threads := add_mset (Get_source oper) (sys_threads s)\<rparr>)"
| op_poll: "\<lbrakk>sys_threads s = add_mset t ts; perform t (sys_ops s) (sys_credits s) = Returns (Inl t', ops, cr)\<rbrakk>
    \<Longrightarrow> op_step solicited s (s\<lparr>sys_ops := ops, sys_credits := cr, sys_threads := add_mset t' ts\<rparr>)"
| op_return: "\<lbrakk>sys_threads s = add_mset t ts; perform t (sys_ops s) (sys_credits s) = Returns (Inr r, ops, cr)\<rbrakk>
    \<Longrightarrow> op_step solicited s (s\<lparr>sys_ops := ops, sys_credits := cr, sys_threads := ts\<rparr>)"
| op_response: "\<lbrakk>solicited \<longrightarrow> (\<exists>oper. Wait_response oper source \<in># sys_threads s);
      op_complete (sys_ops s) source sink r = Returns ops\<rbrakk>
    \<Longrightarrow> op_step solicited s (s\<lparr>sys_ops := ops\<rparr>)"
| op_credit: "op_step solicited s (s\<lparr>sys_credits := cr\<rparr>)"
| op_take: "op_step solicited s (s\<lparr>sys_ops := (sys_ops s)\<lparr>operations_outstanding :=
      drop n (operations_outstanding (sys_ops s))\<rparr>\<rparr>)"

inductive op_reachable :: "bool \<Rightarrow> op_system \<Rightarrow> bool" for solicited where
  op_init: "op_reachable solicited \<lparr>sys_ops = operations_new, sys_credits = cr, sys_threads = {#}\<rparr>"
| op_next: "op_reachable solicited s \<Longrightarrow> op_step solicited s s' \<Longrightarrow> op_reachable solicited s'"

definition source_pool :: "u32 multiset" where
  "source_pool = mset (map of_nat [0..<255])"

text \<open>No response lies in a slot without an operation that waits for it.\<close>

definition responses_awaited :: "op_system \<Rightarrow> bool" where
  "responses_awaited s \<longleftrightarrow>
     (\<forall>i < 255. operation_completions (sys_ops s) ! i \<noteq> None \<longrightarrow>
        (\<exists>oper. Wait_response oper (of_nat i) \<in># sys_threads s))"

definition op_inv :: "op_system \<Rightarrow> bool" where
  "op_inv s \<longleftrightarrow>
     mset (available_sources (sys_ops s)) + held_sources (sys_threads s) = source_pool \<and>
     length (operation_completions (sys_ops s)) = 255 \<and>
     (\<forall>t \<in># sys_threads s. phase_ok t) \<and>
     outstanding_cntr (sys_ops s) = of_nat (\<Sum>t \<in># sys_threads s. phase_count t)"

subsection \<open>What a poll does\<close>

definition source_of :: "perform_phase \<Rightarrow> u32 multiset" where
  "source_of t = (case phase_source t of Some s \<Rightarrow> {#s#} | None \<Rightarrow> {#})"

definition slots_cleared :: "Operations \<Rightarrow> Operations \<Rightarrow> bool" where
  "slots_cleared ops ops' \<longleftrightarrow>
     (operation_completions ops' = operation_completions ops \<or>
      (\<exists>i. operation_completions ops' = (operation_completions ops)[i := None]))"

text \<open>The effect of a poll that starts with source \<open>src\<close> and count \<open>n\<close> and ends in \<open>x\<close>.\<close>

definition poll_effect ::
    "u32 multiset \<Rightarrow> nat \<Rightarrow> Operations \<Rightarrow> perform_phase + 'r \<Rightarrow> Operations \<Rightarrow> bool" where
  "poll_effect src n ops x ops' \<longleftrightarrow>
     mset (available_sources ops') + (case x of Inl t \<Rightarrow> source_of t | Inr _ \<Rightarrow> {#}) =
       mset (available_sources ops) + src \<and>
     outstanding_cntr ops' + of_nat n = outstanding_cntr ops +
       of_nat (case x of Inl t \<Rightarrow> phase_count t | Inr _ \<Rightarrow> 0) \<and>
     (case x of Inl t \<Rightarrow> phase_ok t | Inr _ \<Rightarrow> True) \<and> slots_cleared ops ops'"

lemma slots_cleared_refl [simp]: "slots_cleared ops ops"
  by (simp add: slots_cleared_def)

lemma perform_return_effect:
  "perform_return oper ret ops cr = Returns (x, ops', cr') \<Longrightarrow> (\<exists>r. x = Inr r) \<and> ops' = ops \<and> cr' = cr"
  by (auto simp: perform_return_def and_then_Returns_iff)

lemma perform_response_effect:
  assumes "perform_response oper source ops cr = Returns (x, ops', cr')" "has_return oper"
  shows "poll_effect {#source#} 1 ops x ops' \<and> operation_completions ops' ! unat source = None"
proof -
  let ?ops = "ops\<lparr>operation_completions := (operation_completions ops)[unat source := None]\<rparr>"
  have lt: "unat source < length (operation_completions ops)"
    using assms(1) by (auto simp: perform_response_def wait_for_response_def split: if_splits)
  show ?thesis
  proof (cases "operation_completions ops ! unat source")
    case None
    then have "x = Inl (Wait_response oper source)" "ops' = ?ops"
      using assms(1) lt by (auto simp: perform_response_def wait_for_response_def)
    with lt assms(2) show ?thesis by (auto simp: poll_effect_def source_of_def slots_cleared_def)
  next
    case (Some p)
    obtain sink ret where p: "p = (sink, ret)" by (cases p)
    let ?ops2 = "?ops\<lparr>available_sources := available_sources ops @ [source],
      outstanding_cntr := outstanding_cntr ops - 1\<rparr>"
    have "ops' = ?ops2 \<and> (x = Inl (Send_response oper sink ret) \<or> (\<exists>r. x = Inr r))"
      using assms(1) lt Some p
      by (auto simp: perform_response_def wait_for_response_def Let_def split: if_splits
          dest: perform_return_effect)
    with lt show ?thesis by (auto simp: poll_effect_def source_of_def slots_cleared_def)
  qed
qed

lemma get_credits_fst_snd: "get_credits oper cr = (fst (get_credits oper cr), snd (get_credits oper cr))"
  by simp

lemma perform_credits_effect:
  assumes "perform_credits oper source op ops cr = Returns (x, ops', cr')"
  shows "poll_effect (if has_return oper then {#source#} else {#}) 1 ops x ops'"
proof (cases "fst (get_credits oper cr)")
  case False
  with assms show ?thesis
    by (auto simp: perform_credits_def case_prod_beta poll_effect_def source_of_def)
next
  case True
  let ?ops = "ops\<lparr>operations_outstanding := operations_outstanding ops @ [op]\<rparr>"
  show ?thesis
  proof (cases "has_return oper")
    case ret: True
    with True assms have "perform_response oper source ?ops (snd (get_credits oper cr)) = Returns (x, ops', cr')"
      by (simp add: perform_credits_def case_prod_beta)
    from perform_response_effect [OF this ret] ret show ?thesis
      by (simp add: poll_effect_def slots_cleared_def)
  next
    case False
    with True assms show ?thesis
      by (auto simp: perform_credits_def case_prod_beta poll_effect_def slots_cleared_def)
  qed
qed

lemma create_operation_effect:
  assumes "create_operation ops oper source = Returns (r, ops')"
  shows "case r of Ok op \<Rightarrow> ops' = ops
    | Err e \<Rightarrow> poll_effect (if has_return oper then {#source#} else {#}) 1 ops (Inr (Err e)) ops'"
proof -
  obtain q where "pack_operation \<lparr>os_operation = oper, os_source = source\<rparr> = Returns q"
    using assms by (auto simp: create_operation_def and_then_Returns_iff)
  with assms show ?thesis
    by (cases q) (auto simp: create_operation_def Let_def poll_effect_def slots_cleared_def)
qed

lemma ack_credits_effect:
  assumes "ack_credits oper ret ack op ops cr = Returns (x, ops', cr')"
  shows "poll_effect {#} 1 ops x ops'"
  using assms
  by (auto simp: ack_credits_def case_prod_beta poll_effect_def source_of_def slots_cleared_def
      split: if_splits dest: perform_return_effect)

lemma poll_effect_enter:
  "poll_effect src (Suc n) (perform_enter ops) x ops' \<Longrightarrow> poll_effect src n ops x ops'"
  by (auto simp: poll_effect_def perform_enter_def slots_cleared_def algebra_simps)

lemma no_return_response: "get_response oper sink = Some ack \<Longrightarrow> \<not> has_return ack"
  by (cases oper) auto

lemma send_response_effect:
  assumes "send_response oper sink ret ops cr = Returns (x, ops', cr')"
  shows "poll_effect {#} 0 ops x ops'"
proof (cases "get_response oper sink")
  case None
  with assms show ?thesis
    by (auto simp: send_response_def poll_effect_def dest: perform_return_effect)
next
  case (Some ack)
  from assms Some obtain r ops1 where r: "create_operation (perform_enter ops) ack 0 = Returns (r, ops1)"
    "(case r of Ok op \<Rightarrow> ack_credits oper ret ack op ops1 cr | Err _ \<Rightarrow> perform_return oper ret ops1 cr) =
      Returns (x, ops', cr')"
    by (auto simp: send_response_def and_then_Returns_iff)
  have "poll_effect {#} (Suc 0) (perform_enter ops) x ops'"
  proof (cases r)
    case (Ok op)
    then show ?thesis
      using r create_operation_effect [OF r(1)] ack_credits_effect [of oper ret ack op ops1 cr x ops' cr'] by simp
  next
    case (Err e)
    then show ?thesis
      using r create_operation_effect [OF r(1)] no_return_response [OF Some]
      by (auto simp: poll_effect_def dest!: perform_return_effect)
  qed
  then show ?thesis by (rule poll_effect_enter)
qed

lemma perform_effect:
  assumes "perform t ops cr = Returns (x, ops', cr')" "phase_ok t"
  shows "poll_effect (source_of t) (phase_count t) ops x ops'"
proof (cases t)
  case (Get_source oper)
  show ?thesis
  proof (cases "get_source ops oper")
    case None
    with Get_source assms show ?thesis by (auto simp: poll_effect_def)
  next
    case (Some p)
    obtain source ops1 where p: "p = (source, ops1)" by (cases p)
    obtain r ops2 where r: "create_operation ops1 oper source = Returns (r, ops2)"
      "(case r of Err e \<Rightarrow> Returns (Inr (Err e), ops2, cr) | Ok op \<Rightarrow> perform_credits oper source op ops2 cr)
        = Returns (x, ops', cr')"
      using Get_source Some p assms by (auto simp: and_then_Returns_iff)
    have g: "mset (available_sources ops) =
        mset (available_sources ops1) + (if has_return oper then {#source#} else {#})"
      "outstanding_cntr ops1 = outstanding_cntr ops" "operation_completions ops1 = operation_completions ops"
      using Some p by (auto simp: get_source_def split: if_splits list.splits)
    have "poll_effect (if has_return oper then {#source#} else {#}) 1 ops1 x ops'"
      using r create_operation_effect [OF r(1)] perform_credits_effect [of oper source _ ops2 cr x ops' cr']
      by (cases r) auto
    with g show ?thesis using Get_source
      by (simp add: poll_effect_def source_of_def slots_cleared_def split: if_splits)
  qed
next
  case (Get_credits oper source op)
  with assms perform_credits_effect [of oper source op ops cr x ops' cr'] show ?thesis
    by (simp add: source_of_def split: if_splits)
next
  case (Wait_response oper source)
  with assms perform_response_effect [of oper source ops cr x ops' cr'] show ?thesis
    by (simp add: source_of_def)
next
  case (Send_response oper sink ret)
  with assms send_response_effect [of oper sink ret ops cr x ops' cr'] show ?thesis
    by (simp add: source_of_def)
next
  case (Ack_credits oper ret ack op)
  with assms ack_credits_effect [of oper ret ack op ops cr x ops' cr'] show ?thesis
    by (simp add: source_of_def)
qed

subsection \<open>Every interleaving\<close>

lemma held_sources_add [simp]: "held_sources (add_mset t ts) = source_of t + held_sources ts"
  by (simp add: held_sources_def source_of_def)

lemma source_pool_facts: "s \<in># source_pool \<Longrightarrow> unat s < 255" "count source_pool s \<le> 1"
proof -
  show "s \<in># source_pool \<Longrightarrow> unat s < 255"
    by (auto simp: source_pool_def unat_of_nat)
  have "inj_on (of_nat :: nat \<Rightarrow> u32) {0..<255}"
    by (rule inj_onI) (auto simp: word_unat_eq_iff unat_of_nat)
  then have "distinct (map (of_nat :: nat \<Rightarrow> u32) [0..<255])" by (simp add: distinct_map)
  then show "count source_pool s \<le> 1"
    unfolding source_pool_def by (metis distinct_count_atmost_1 order_refl zero_le_one)
qed

lemma nth_update_None: "i < length xs \<Longrightarrow> xs[k := None] ! i \<noteq> None \<Longrightarrow> xs ! i \<noteq> None"
  by (cases "i = k") auto

lemma nth_update_other: "xs[k := v] ! i \<noteq> None \<Longrightarrow> i = k \<or> xs ! i \<noteq> None"
  by (cases "i = k") auto

lemma poll_preserves:
  assumes inv: "op_inv s" and t: "sys_threads s = add_mset t ts"
    and p: "perform t (sys_ops s) (sys_credits s) = Returns (x, ops, cr)"
    and s': "s' = s\<lparr>sys_ops := ops, sys_credits := cr,
      sys_threads := (case x of Inl t' \<Rightarrow> add_mset t' ts | Inr _ \<Rightarrow> ts)\<rparr>"
  shows "op_inv s'" and "responses_awaited s \<Longrightarrow> responses_awaited s'"
proof -
  have tok: "phase_ok t" using inv t by (simp add: op_inv_def)
  note eff = perform_effect [OF p tok]
  have len: "length (operation_completions ops) = 255"
    using eff inv by (auto simp: poll_effect_def slots_cleared_def op_inv_def)
  have "mset (available_sources ops) + held_sources (sys_threads s') = source_pool"
    using eff inv t unfolding s' poll_effect_def op_inv_def
    by (cases x) (auto simp: ac_simps)
  moreover have "outstanding_cntr ops = of_nat (\<Sum>t \<in># sys_threads s'. phase_count t)"
    using eff inv t unfolding s' poll_effect_def op_inv_def
    by (cases x) (auto simp: algebra_simps)
  moreover have "\<forall>t \<in># sys_threads s'. phase_ok t"
    using eff inv t unfolding s' poll_effect_def op_inv_def by (cases x) auto
  ultimately show "op_inv s'" using len unfolding op_inv_def s' by simp
  have slots: "operation_completions ops ! i \<noteq> None \<Longrightarrow> i < 255 \<Longrightarrow> operation_completions (sys_ops s) ! i \<noteq> None" for i
    using eff inv nth_update_None [of i "operation_completions (sys_ops s)"]
    unfolding poll_effect_def slots_cleared_def op_inv_def by metis
  assume aw: "responses_awaited s"
  have waiting: "\<exists>oper. Wait_response oper (of_nat i) \<in># ts"
    if i: "i < 255" and c: "operation_completions ops ! i \<noteq> None" for i
  proof -
    obtain oper where o: "Wait_response oper (of_nat i) \<in># sys_threads s"
      using slots [OF c i] aw i by (auto simp: responses_awaited_def)
    have "t \<noteq> Wait_response oper (of_nat i)"
      using perform_response_effect [of oper "of_nat i" "sys_ops s" "sys_credits s" x ops cr] p tok i c
      by (auto simp: unat_of_nat)
    with o t show ?thesis by auto
  qed
  moreover have "\<tau> \<in># sys_threads s'" if "\<tau> \<in># ts" for \<tau> using that unfolding s' by (cases x) auto
  ultimately have "\<forall>i < 255. operation_completions ops ! i \<noteq> None \<longrightarrow>
      (\<exists>oper. Wait_response oper (of_nat i) \<in># sys_threads s')" by blast
  then show "responses_awaited s'" by (simp add: responses_awaited_def s')
qed

lemma op_inv_response:
  assumes "op_inv s" "op_complete (sys_ops s) source sink r = Returns ops"
  shows "op_inv (s\<lparr>sys_ops := ops\<rparr>)"
    and "Wait_response oper source \<in># sys_threads s \<Longrightarrow> responses_awaited s \<Longrightarrow>
      responses_awaited (s\<lparr>sys_ops := ops\<rparr>)"
proof -
  have len: "length (operation_completions (sys_ops s)) = 255" using assms(1) by (simp add: op_inv_def)
  then have ops: "ops = (sys_ops s)\<lparr>operation_completions :=
      (operation_completions (sys_ops s))[unat source := Some (sink, r)]\<rparr>"
    using assms(2) by (auto simp: op_complete_def split: if_splits option.splits)
  then show "op_inv (s\<lparr>sys_ops := ops\<rparr>)" using assms(1) by (simp add: op_inv_def)
  assume w: "Wait_response oper source \<in># sys_threads s" "responses_awaited s"
  have "\<exists>oper. Wait_response oper (of_nat i) \<in># sys_threads s"
    if "i < 255" "(operation_completions (sys_ops s))[unat source := Some (sink, r)] ! i \<noteq> None" for i
    using nth_update_other [OF that(2)] w that(1) by (auto simp: responses_awaited_def)
  then show "responses_awaited (s\<lparr>sys_ops := ops\<rparr>)" by (simp add: responses_awaited_def ops)
qed

lemma op_inv_step:
  "op_step solicited s s' \<Longrightarrow> op_inv s \<and> (solicited \<longrightarrow> responses_awaited s) \<Longrightarrow>
     op_inv s' \<and> (solicited \<longrightarrow> responses_awaited s')"
proof (induction rule: op_step.induct)
  case (op_call s oper)
  then show ?case
    by (auto simp: op_inv_def perform_enter_def source_of_def responses_awaited_def)
next
  case (op_poll s t ts t' ops cr)
  with poll_preserves [OF _ op_poll(1,2)] show ?case by simp
next
  case (op_return s t ts r ops cr)
  with poll_preserves [OF _ op_return(1,2)] show ?case by simp
next
  case (op_response source s sink r ops)
  then show ?case using op_inv_response by blast
qed (auto simp: op_inv_def responses_awaited_def)

lemma phase_counts: "(\<Sum>t \<in># ts. phase_count t) + size {#t \<in># ts. response_taken t#} = size ts"
proof (induction ts)
  case (add t ts)
  then show ?case by (cases t) auto
qed simp

lemma op_reachable_inv:
  "op_reachable solicited s \<Longrightarrow> op_inv s \<and> (solicited \<longrightarrow> responses_awaited s)"
proof (induction rule: op_reachable.induct)
  case (op_init cr)
  show ?case
    by (simp add: op_inv_def operations_new_def held_sources_def source_pool_def responses_awaited_def)
next
  case (op_next s s')
  then show ?case using op_inv_step by blast
qed

text \<open>
  C12. However many threads run \<^verbatim>\<open>perform\<close> at once and however they are interleaved with
  credit updates, the connection and responses, which may come for any source at any time: as
  long as no call panics, the 255 source ids are never lost or duplicated, each is either free
  or held by exactly one operation that has entered and not yet taken its response; the counter
  of outstanding operations is the number of calls that have entered and not yet taken their
  response plus the number of those that are sending their acknowledgement, so it equals the
  number of running calls less those between the two. In a run in which the other side answers
  only operations that wait, an unread response always has an operation waiting for it.
\<close>

theorem sources_never_shared:
  assumes "op_reachable solicited s"
  shows "mset (available_sources (sys_ops s)) + held_sources (sys_threads s) = source_pool \<and>
    (\<forall>a. count (held_sources (sys_threads s)) a \<le> 1) \<and>
    num_outstanding (sys_ops s) + of_nat (size {#t \<in># sys_threads s. response_taken t#}) =
      of_nat (size (sys_threads s)) \<and>
    (solicited \<longrightarrow> (\<forall>i < 255. operation_completions (sys_ops s) ! i \<noteq> None \<longrightarrow>
      (\<exists>oper. Wait_response oper (of_nat i) \<in># sys_threads s)))"
proof -
  note inv = op_reachable_inv [OF assms]
  then have pool: "mset (available_sources (sys_ops s)) + held_sources (sys_threads s) = source_pool"
    by (simp add: op_inv_def)
  have "count (held_sources (sys_threads s)) a \<le> 1" for a
    using source_pool_facts(2) [of a] unfolding pool [symmetric] by simp
  moreover have "num_outstanding (sys_ops s) + of_nat (size {#t \<in># sys_threads s. response_taken t#}) =
      of_nat (size (sys_threads s))"
    using inv phase_counts [of "sys_threads s", THEN arg_cong, of "of_nat :: nat \<Rightarrow> usize"]
    by (simp only: op_inv_def num_outstanding_def of_nat_add)
  ultimately show ?thesis using inv pool by (simp only: responses_awaited_def) blast
qed

text \<open>A read that waits for its response.\<close>

definition sample_read :: TLOperations where
  "sample_read = Read \<lparr>read_address = 4096\<rparr>"

definition sample_system :: op_system where
  "sample_system =
     \<lparr>sys_ops = perform_enter operations_new, sys_credits = credits_new 128,
      sys_threads = {#Get_source sample_read#}\<rparr>"

theorem sources_never_shared_witness:
  "num_outstanding (sys_ops sample_system) = 1 \<and>
   mset (available_sources (sys_ops sample_system)) + held_sources (sys_threads sample_system) = source_pool"
proof -
  have "op_step True \<lparr>sys_ops = operations_new, sys_credits = credits_new 128, sys_threads = {#}\<rparr> sample_system"
    using op_call [of True "\<lparr>sys_ops = operations_new, sys_credits = credits_new 128, sys_threads = {#}\<rparr>" sample_read]
    by (simp add: sample_system_def)
  from sources_never_shared [OF op_next [OF op_init this]] show ?thesis
    by (simp add: sample_system_def)
qed

section \<open>A whole call\<close>

text \<open>The result a response with the given data must give.\<close>

fun expected_result :: "TLOperations \<Rightarrow> bytes \<Rightarrow> TLResult" where
  "expected_result (ReadLen _) d = ResData d"
| "expected_result (AcquireBlock _) d = ResData d"
| "expected_result (Read _) d = Data64 (u64_from_ne_bytes d)"
| "expected_result _ d = ResNone"

lemma complete_inner_expected:
  "has_result_data_64 oper \<longrightarrow> length d = 8 \<Longrightarrow> complete_inner oper d = Returns (expected_result oper d)"
  by (cases oper) (simp_all add: complete_inner_def try_u64_ne_def)

text \<open>The acknowledgement queued after a grant.\<close>

definition grant_acks :: "TLOperations \<Rightarrow> u32 \<Rightarrow> bytes list" where
  "grant_acks oper sink = (case get_response oper sink of None \<Rightarrow> []
     | Some ack \<Rightarrow> [u64_to_be_bytes (u64_from_e \<lparr>e_chan = Chan_E, e_sink = sink\<rparr>)])"

lemma send_response_acks:
  assumes "get_response oper sink \<noteq> None \<Longrightarrow> fst (credits_take cr Chan_E 1)"
    and "has_result_data_64 oper \<longrightarrow> length d = 8"
  shows "\<exists>cr'. send_response oper sink (Ok d) ops cr = Returns (Inr (Ok (expected_result oper d)),
    ops\<lparr>operations_outstanding := operations_outstanding ops @ grant_acks oper sink\<rparr>, cr')"
proof (cases "get_response oper sink")
  case None
  then show ?thesis using complete_inner_expected [OF assms(2)]
    by (simp add: send_response_def perform_return_def extract_response_def grant_acks_def)
next
  case (Some ack)
  then have "ack = GrantAck sink" by (cases oper) auto
  then show ?thesis using Some assms(1) complete_inner_expected [OF assms(2)]
    by (auto simp: send_response_def create_operation_def pack_grant_ack_bytes ack_credits_def
        get_credits_def case_prod_beta perform_return_def extract_response_def grant_acks_def
        perform_enter_def)
qed

text \<open>The operations after a call has queued its message, after the response has arrived and
  after the call has read it.\<close>

definition ops_queued :: "Operations \<Rightarrow> u32 list \<Rightarrow> bytes \<Rightarrow> Operations" where
  "ops_queued ops rest buf = (perform_enter ops)\<lparr>available_sources := rest,
     operations_outstanding := operations_outstanding ops @ [buf]\<rparr>"

definition ops_answered :: "Operations \<Rightarrow> u32 \<Rightarrow> u32 \<Rightarrow> bytes \<Rightarrow> Operations" where
  "ops_answered ops src sink d = ops\<lparr>operation_completions :=
     (operation_completions ops)[unat src := Some (sink, Ok d)]\<rparr>"

definition ops_read :: "Operations \<Rightarrow> u32 \<Rightarrow> Operations" where
  "ops_read ops src = ops\<lparr>operation_completions := (operation_completions ops)[unat src := None],
     available_sources := available_sources ops @ [src], outstanding_cntr := outstanding_cntr ops - 1\<rparr>"

lemma perform_queues:
  assumes "has_return oper" "available_sources ops = src # rest"
    and "unat src < length (operation_completions ops)"
    and "operation_completions ops ! unat src = None"
    and "pack_operation \<lparr>os_operation = oper, os_source = src\<rparr> = Returns (Ok buf)"
    and "get_credits oper cr = (True, cr1)"
  shows "perform (Get_source oper) (perform_enter ops) cr =
    Returns (Inl (Wait_response oper src), ops_queued ops rest buf, cr1)"
proof -
  have "(operation_completions ops)[unat src := None] = operation_completions ops"
    using assms(3,4) by (metis list_update_id)
  with assms show ?thesis
    by (simp add: get_source_def create_operation_def perform_credits_def perform_response_def
        wait_for_response_def perform_enter_def ops_queued_def)
qed

lemma perform_reads:
  assumes "unat src < length (operation_completions ops)" "operation_completions ops ! unat src = None"
  shows "op_complete ops src sink (Ok d) = Returns (ops_answered ops src sink d)"
    and "perform (Wait_response oper src) (ops_answered ops src sink d) cr =
      Returns (Inl (Send_response oper sink (Ok d)), ops_read (ops_answered ops src sink d) src, cr)"
  using assms by (auto simp: op_complete_def ops_answered_def perform_response_def
      wait_for_response_def ops_read_def)

text \<open>
  C13. A call of \<^verbatim>\<open>perform\<close>. With a free source id and enough credits the operation is encoded
  under the first free id and queued for the connection, its credits are taken, and the call
  waits; when a response for that id arrives, the id becomes free again, the acknowledgement of
  a grant is queued, and the call returns the data of the response in the form its kind of
  operation promises; the counter is back where it was.
\<close>

theorem perform_completes:
  assumes "has_return oper" and "available_sources ops = src # rest"
    and "unat src < length (operation_completions ops)"
    and "operation_completions ops ! unat src = None"
    and "pack_operation \<lparr>os_operation = oper, os_source = src\<rparr> = Returns (Ok buf)"
    and "get_credits oper cr = (True, cr1)"
    and "get_response oper sink \<noteq> None \<Longrightarrow> fst (credits_take cr2 Chan_E 1)"
    and "has_result_data_64 oper \<longrightarrow> length d = 8"
  shows "\<exists>ops1 ops2 ops3 ops4 cr3.
    perform (Get_source oper) (perform_enter ops) cr = Returns (Inl (Wait_response oper src), ops1, cr1) \<and>
    available_sources ops1 = rest \<and>
    operations_outstanding ops1 = operations_outstanding ops @ [buf] \<and>
    op_complete ops1 src sink (Ok d) = Returns ops2 \<and>
    perform (Wait_response oper src) ops2 cr2 = Returns (Inl (Send_response oper sink (Ok d)), ops3, cr2) \<and>
    perform (Send_response oper sink (Ok d)) ops3 cr2 =
      Returns (Inr (Ok (expected_result oper d)), ops4, cr3) \<and>
    available_sources ops4 = rest @ [src] \<and>
    operations_outstanding ops4 = operations_outstanding ops @ [buf] @ grant_acks oper sink \<and>
    outstanding_cntr ops4 = outstanding_cntr ops"
proof -
  let ?ops1 = "ops_queued ops rest buf"
  let ?ops2 = "ops_answered ?ops1 src sink d"
  let ?ops3 = "ops_read ?ops2 src"
  have c: "operation_completions ?ops1 = operation_completions ops"
    by (simp add: ops_queued_def perform_enter_def)
  note s1 = perform_queues [OF assms(1-6)]
  note s2 = perform_reads(1) [where ops = ?ops1, unfolded c, OF assms(3,4), of sink d]
    perform_reads(2) [where ops = ?ops1, unfolded c, OF assms(3,4), of oper sink d cr2]
  obtain cr3 where s3: "perform (Send_response oper sink (Ok d)) ?ops3 cr2 =
      Returns (Inr (Ok (expected_result oper d)),
        ?ops3\<lparr>operations_outstanding := operations_outstanding ?ops3 @ grant_acks oper sink\<rparr>, cr3)"
    using send_response_acks [of oper sink cr2 d ?ops3] assms(7,8) by auto
  show ?thesis
    using s1 s2 s3
    by (intro exI [of _ ?ops1] exI [of _ ?ops2] exI [of _ ?ops3] exI [of _ cr3]
        exI [of _ "?ops3\<lparr>operations_outstanding := operations_outstanding ?ops3 @ grant_acks oper sink\<rparr>"])
      (simp add: ops_queued_def ops_answered_def ops_read_def perform_enter_def)
qed

text \<open>An acquire on fresh operations.\<close>

definition sample_acquire :: TLOperations where
  "sample_acquire = AcquireBlock \<lparr>perm_address = 64, perm_len = 8, perm_permissions = NtoT\<rparr>"

definition sample_acquire_bytes :: bytes where
  "sample_acquire_bytes = u64_to_be_bytes (u64_from_abcd (tl_header sample_acquire 0)) @ u64_to_be_bytes 64"

lemma sample_acquire_facts:
  "has_return sample_acquire" "available_sources operations_new = 0 # map of_nat [1..<255]"
  "unat (0 :: u32) < length (operation_completions operations_new)"
  "operation_completions operations_new ! unat (0 :: u32) = None"
  "pack_operation \<lparr>os_operation = sample_acquire, os_source = 0\<rparr> = Returns (Ok sample_acquire_bytes)"
  "get_credits sample_acquire (credits_new 128) = (True, [126, 128, 128, 128, 128])"
  using pack_operation_layout [of sample_acquire 0] log2_fract_zero_8
  by (simp_all add: sample_acquire_def operations_new_def upt_conv_Cons get_credits_def credits_take_def
      credits_new_def chan_index_def sample_acquire_bytes_def)

theorem perform_completes_witness:
  "\<exists>ops1 ops2 ops3 ops4 cr3.
    perform (Get_source sample_acquire) (perform_enter operations_new) (credits_new 128) =
      Returns (Inl (Wait_response sample_acquire 0), ops1, [126, 128, 128, 128, 128]) \<and>
    op_complete ops1 0 9 (Ok [1, 2, 3, 4, 5, 6, 7, 8]) = Returns ops2 \<and>
    perform (Wait_response sample_acquire 0) ops2 (credits_new 128) =
      Returns (Inl (Send_response sample_acquire 9 (Ok [1, 2, 3, 4, 5, 6, 7, 8])), ops3, credits_new 128) \<and>
    perform (Send_response sample_acquire 9 (Ok [1, 2, 3, 4, 5, 6, 7, 8])) ops3 (credits_new 128) =
      Returns (Inr (Ok (ResData [1, 2, 3, 4, 5, 6, 7, 8])), ops4, cr3)"
proof -
  have "fst (credits_take (credits_new 128) Chan_E 1)"
    by (simp add: credits_take_def credits_new_def chan_index_def)
  with perform_completes [OF sample_acquire_facts, of 9 "credits_new 128" "[1, 2, 3, 4, 5, 6, 7, 8]"]
  have "\<exists>ops1 ops2 ops3 ops4 cr3.
    perform (Get_source sample_acquire) (perform_enter operations_new) (credits_new 128) =
      Returns (Inl (Wait_response sample_acquire 0), ops1, [126, 128, 128, 128, 128]) \<and>
    op_complete ops1 0 9 (Ok [1, 2, 3, 4, 5, 6, 7, 8]) = Returns ops2 \<and>
    perform (Wait_response sample_acquire 0) ops2 (credits_new 128) =
      Returns (Inl (Send_response sample_acquire 9 (Ok [1, 2, 3, 4, 5, 6, 7, 8])), ops3, credits_new 128) \<and>
    perform (Send_response sample_acquire 9 (Ok [1, 2, 3, 4, 5, 6, 7, 8])) ops3 (credits_new 128) =
      Returns (Inr (Ok (expected_result sample_acquire [1, 2, 3, 4, 5, 6, 7, 8])), ops4, cr3)"
    by (simp add: sample_acquire_def) blast
  then show ?thesis by (simp add: sample_acquire_def)
qed

section \<open>The kind of a result\<close>

text \<open>A call works on one operation throughout, and its result has the kind of that operation.\<close>

fun phase_oper :: "perform_phase \<Rightarrow> TLOperations" where
  "phase_oper (Get_source oper) = oper"
| "phase_oper (Get_credits oper source op) = oper"
| "phase_oper (Wait_response oper source) = oper"
| "phase_oper (Send_response oper sink ret) = oper"
| "phase_oper (Ack_credits oper ret ack op) = oper"

fun result_fits :: "TLOperations \<Rightarrow> perform_phase + (TLResult, op_error) result \<Rightarrow> bool" where
  "result_fits oper (Inl ph) \<longleftrightarrow> phase_oper ph = oper"
| "result_fits oper (Inr (Err e)) \<longleftrightarrow> True"
| "result_fits oper (Inr (Ok r)) \<longleftrightarrow>
     (if \<not> has_return oper then r = ResNone
      else if has_result_data oper then \<exists>d. r = ResData d
      else if has_result_data_64 oper then \<exists>d. r = Data64 d else r = ResNone)"

lemma perform_return_fits:
  "perform_return oper ret ops cr = Returns (x, ops', cr') \<Longrightarrow> has_return oper \<Longrightarrow> result_fits oper x"
  by (auto simp: perform_return_def extract_response_def complete_inner_def elim!: and_then_ReturnsE
      split: result.splits if_splits)

lemma perform_response_fits:
  "perform_response oper source ops cr = Returns (x, ops', cr') \<Longrightarrow> has_return oper \<Longrightarrow> result_fits oper x"
  by (auto simp: perform_response_def Let_def elim!: and_then_ReturnsE split: option.splits if_splits)
    (erule (1) perform_return_fits)

lemma perform_credits_fits:
  "perform_credits oper source op ops cr = Returns (x, ops', cr') \<Longrightarrow> result_fits oper x"
  by (auto simp: perform_credits_def Let_def split: prod.splits if_splits dest: perform_response_fits)

lemma send_response_fits:
  assumes "send_response oper sink ret ops cr = Returns (x, ops', cr')" "has_return oper"
  shows "result_fits oper x"
  using assms
  by (auto simp: send_response_def ack_credits_def elim!: and_then_ReturnsE
      split: option.splits result.splits prod.splits if_splits dest: perform_return_fits)

text \<open>A phase can only wait for a response, or acknowledge one, of an operation that has one.\<close>

fun phase_returns :: "perform_phase \<Rightarrow> bool" where
  "phase_returns (Wait_response oper source) = has_return oper"
| "phase_returns (Send_response oper sink ret) = has_return oper"
| "phase_returns (Ack_credits oper ret ack op) = has_return oper"
| "phase_returns _ = True"

lemma perform_fits:
  assumes "perform ph ops cr = Returns (x, ops', cr')" "phase_returns ph"
  shows "result_fits (phase_oper ph) x"
proof (cases ph)
  case (Get_source oper)
  with assms show ?thesis
    by (auto elim!: and_then_ReturnsE split: option.splits result.splits dest: perform_credits_fits)
next
  case (Ack_credits oper ret ack op)
  with assms show ?thesis
    by (auto simp: ack_credits_def split: prod.splits if_splits dest: perform_return_fits)
qed (use assms in \<open>auto dest: perform_credits_fits perform_response_fits send_response_fits\<close>)

lemma has_return_phase: "has_return (phase_oper ph) \<Longrightarrow> phase_returns ph"
  by (cases ph) auto

section \<open>A counter that is too early\<close>

text \<open>
  The counter of outstanding operations reaches zero too early: there is a reachable state
  in which it is zero although a call that has received its grant has yet to send the
  acknowledgement (\<^verbatim>\<open>fetch_sub\<close> comes before \<^verbatim>\<open>send_response\<close>), so the connection may announce
  that it closes before the acknowledgement.
\<close>

lemma counter_zero_before_ack:
  "\<exists>s oper sink d. op_reachable True s \<and> num_outstanding (sys_ops s) = 0 \<and>
     Send_response oper sink (Ok d) \<in># sys_threads s \<and> get_response oper sink \<noteq> None"
proof -
  let ?s0 = "\<lparr>sys_ops = operations_new, sys_credits = credits_new 128, sys_threads = {#}\<rparr>"
  let ?o1 = "ops_queued operations_new (map of_nat [1..<255]) sample_acquire_bytes"
  let ?o2 = "ops_answered ?o1 0 9 []" and ?cr = "[126, 128, 128, 128, 128]"
  have c: "operation_completions ?o1 = operation_completions operations_new"
    by (simp add: ops_queued_def perform_enter_def)
  note r = perform_reads(1) [where ops = ?o1, unfolded c, OF sample_acquire_facts(3,4), of 9 "[]"]
    perform_reads(2) [where ops = ?o1, unfolded c, OF sample_acquire_facts(3,4),
      of sample_acquire 9 "[]" ?cr]
  let ?s1 = "?s0\<lparr>sys_ops := perform_enter operations_new, sys_threads := {#Get_source sample_acquire#}\<rparr>"
  let ?s2 = "?s1\<lparr>sys_ops := ?o1, sys_credits := ?cr, sys_threads := {#Wait_response sample_acquire 0#}\<rparr>"
  let ?s3 = "?s2\<lparr>sys_ops := ?o2\<rparr>"
  let ?s4 = "?s3\<lparr>sys_ops := ops_read ?o2 0, sys_credits := ?cr,
    sys_threads := {#Send_response sample_acquire 9 (Ok [])#}\<rparr>"
  have s1: "op_step True ?s0 ?s1" using op_call [of True ?s0 sample_acquire] by simp
  have s2: "op_step True ?s1 ?s2"
    using op_poll [of ?s1 "Get_source sample_acquire" "{#}"] perform_queues [OF sample_acquire_facts]
    by simp
  have s3: "op_step True ?s2 ?s3" using op_response [of True 0 ?s2 9] r(1) by simp
  have s4: "op_step True ?s3 ?s4"
    using op_poll [of ?s3 "Wait_response sample_acquire 0" "{#}"] r(2) by simp
  have "op_reachable True ?s4"
    using op_next [OF op_next [OF op_next [OF op_next [OF op_init s1] s2] s3] s4] .
  moreover have "num_outstanding (sys_ops ?s4) = 0"
    by (simp add: num_outstanding_def ops_read_def ops_answered_def ops_queued_def perform_enter_def operations_new_def)
  ultimately show ?thesis
    by (intro exI [of _ ?s4] exI [of _ sample_acquire] exI [of _ 9] exI [of _ "[]"])
      (simp add: sample_acquire_def)
qed

end
