(* ===== verification/Tick.thy ===== *)
theory Tick
  imports Connection_Delivery Cache
begin

text \<open>
  \<^verbatim>\<open>omnixtend-rs/src/tick.rs\<close>: the periodic work of an endpoint, which answers probes, sends
  packets, acknowledgements and heartbeats, and triggers retransmissions. Instants and
  durations are nanoseconds, the clock readings of one call coincide, and \<^verbatim>\<open>elapsed\<close> saturates
  at zero like the subtraction of natural numbers. The lemmas show that the connection keeps its
  invariant, how far retransmissions are apart, and when an acknowledgement is sent.
\<close>

section \<open>State\<close>

record Tick =
  ack_required_since :: "instant option"
  resend_cooldown :: "instant option"
  heartbeat :: "duration option"
  ack_only_timeout :: duration
  last_send :: instant
  resend_timeout :: duration
  cycle :: duration
  last_executed :: instant

definition tick_new :: "instant \<Rightarrow> duration \<Rightarrow> duration \<Rightarrow> duration \<Rightarrow> duration option \<Rightarrow> Tick" where
  "tick_new now ack_only resend_after cyc beat =
     \<lparr>ack_required_since = None, resend_cooldown = None, heartbeat = beat, ack_only_timeout = ack_only,
      last_send = now, resend_timeout = resend_after, cycle = cyc, last_executed = now\<rparr>"

section \<open>Operations\<close>

definition set_ack_timeout :: "'m modular \<Rightarrow> instant \<Rightarrow> 'm Connection \<Rightarrow> Tick \<Rightarrow> Tick" where
  "set_ack_timeout L now c t =
     (if ack_required_since t = None \<and> ack_outstanding L c then t\<lparr>ack_required_since := Some now\<rparr>
      else if ack_required_since t \<noteq> None \<and> \<not> ack_outstanding L c then t\<lparr>ack_required_since := None\<rparr>
      else t)"

definition send_required :: "instant \<Rightarrow> Operations \<Rightarrow> 'm Connection \<Rightarrow> Tick \<Rightarrow> bool" where
  "send_required now ops c t \<longleftrightarrow>
     operations_outstanding ops \<noteq> [] \<or> conn_send_outstanding c \<or>
     now - (case ack_required_since t of Some since \<Rightarrow> since | None \<Rightarrow> now) \<ge> ack_only_timeout t"

definition heartbeat_due :: "instant \<Rightarrow> Tick \<Rightarrow> bool" where
  "heartbeat_due now t = (case heartbeat t of Some h \<Rightarrow> now - last_send t > h | None \<Rightarrow> False)"

definition check_send ::
    "'m modular \<Rightarrow> pnet \<Rightarrow> instant \<Rightarrow> Operations \<Rightarrow> 'm Connection \<Rightarrow> Tick \<Rightarrow>
     (Operations \<times> 'm Connection \<times> Tick) outcome" where
  "check_send L P now ops c t =
     (if \<not> (send_required now ops c t \<or> heartbeat_due now t) then Returns (ops, c, t)
      else and_then (send_packet L P c (Some (operations_outstanding ops)) (num_outstanding ops \<noteq> 0))
        (\<lambda>(r, rest, c).
          let ops = ops\<lparr>operations_outstanding := case_option [] id rest\<rparr> in
          (case r of
             Ok _ \<Rightarrow> Returns (ops, c, t\<lparr>last_send := now, ack_required_since := None\<rparr>)
           | Err _ \<Rightarrow> Returns (ops, c, t))))"

definition reset_pending :: "instant \<Rightarrow> 'm Connection \<Rightarrow> Tick \<Rightarrow> bool" where
  "reset_pending now c t \<longleftrightarrow>
     now - last_message_received_at c \<ge> resend_timeout t \<or> resend_outstanding c"

definition check_resend_cooldown :: "instant \<Rightarrow> Tick \<Rightarrow> Tick" where
  "check_resend_cooldown now t =
     (case resend_cooldown t of
        Some since \<Rightarrow> if now - since \<ge> resend_timeout t then t\<lparr>resend_cooldown := None\<rparr> else t
      | None \<Rightarrow> t)"

definition do_resend :: "instant \<Rightarrow> 'm Connection \<Rightarrow> Tick \<Rightarrow> 'm Connection \<times> Tick" where
  "do_resend now c t =
     (if resend_cooldown t = None then
        (case resend c of
           (Ok _, c) \<Rightarrow> (c, t\<lparr>resend_cooldown := Some now\<rparr>)
         | (Err _, c) \<Rightarrow> (c, t))
      else (c, t))"

definition check_resend :: "instant \<Rightarrow> 'm Connection \<Rightarrow> Tick \<Rightarrow> 'm Connection \<times> Tick" where
  "check_resend now c t =
     (if reset_pending now c t then do_resend now c (check_resend_cooldown now t) else (c, t))"

definition tick ::
    "'m modular \<Rightarrow> pnet \<Rightarrow> instant \<Rightarrow> Tick \<Rightarrow> Operations \<Rightarrow> 'm Connection \<Rightarrow> Cache \<Rightarrow>
     (Tick \<times> Operations \<times> 'm Connection \<times> Cache) outcome" where
  "tick L P now t ops c ca =
     (if now - last_executed t < cycle t then Returns (t, ops, c, ca)
      else
        let t = t\<lparr>last_executed := now\<rparr> in
        and_then (process_probes ca ops (credits_send c)) (\<lambda>(ca, ops, cr).
        let c = c\<lparr>credits_send := cr\<rparr>;
            t = set_ack_timeout L now c t
        in and_then (check_send L P now ops c t) (\<lambda>(ops, c, t).
        let (c, t) = check_resend now c t in Returns (t, ops, c, ca))))"

section \<open>Credits keep their shape\<close>

lemma length_get_credits: "get_credits oper cr = (g, cr') \<Longrightarrow> length cr' = length cr"
  by (auto simp: get_credits_def credits_take_def case_prod_beta split: if_splits)

lemma length_perform_credits:
  "perform_credits oper source op ops cr = Returns (x, ops', cr') \<Longrightarrow> length cr' = length cr"
  by (auto simp: perform_credits_def perform_response_def perform_return_def Let_def
      elim!: and_then_ReturnsE dest!: length_get_credits split: prod.splits if_splits option.splits)

lemma length_perform_now:
  assumes "perform_now oper ops cr = Returns (r, ops', cr')"
  shows "length cr' = length cr"
  using assms
  by (auto simp: perform_now_def elim!: and_then_ReturnsE dest!: length_perform_credits
      split: option.splits sum.splits result.splits)

lemma length_probe_loop:
  "probe_loop ps ca ops cr = Returns (kept, ca', ops', cr') \<Longrightarrow> length cr' = length cr"
proof (induction ps arbitrary: ca ops cr kept)
  case (Cons p ps)
  then obtain keep ca1 ops1 cr1 kept1 where *: "process_probe p ca ops cr = Returns (keep, ca1, ops1, cr1)"
    "probe_loop ps ca1 ops1 cr1 = Returns (kept1, ca', ops', cr')"
    by (auto elim!: and_then_ReturnsE)
  have "length cr1 = length cr"
    using *(1) by (auto simp: process_probe_def Let_def elim!: and_then_ReturnsE dest!: length_perform_now
        split: prod.splits if_splits result.splits)
  with Cons.IH [OF *(2)] show ?case by simp
qed simp

lemma length_process_probes:
  "process_probes ca ops cr = Returns (ca', ops', cr') \<Longrightarrow> length cr' = length cr"
  by (auto simp: process_probes_def elim!: and_then_ReturnsE dest: length_probe_loop)

lemma conn_inv_credits_send [simp]:
  "length cr = length (credits_send c) \<Longrightarrow> conn_inv L P (c\<lparr>credits_send := cr\<rparr>) = conn_inv L P c"
  by (simp add: conn_inv_def numbers_ok_def window_ok_def frames_ok_def)

section \<open>What a tick does\<close>

lemma check_resend_effect:
  assumes "check_resend now c t = (c', t')"
  obtains
    (quiet) "c' = c" "t' = t \<or> (\<exists>since. resend_cooldown t = Some since \<and> resend_timeout t \<le> now - since \<and>
        t' = t\<lparr>resend_cooldown := None\<rparr>)"
  | (again) "c' = c\<lparr>resend_data := resend_buffer c, resend_outstanding := False\<rparr>" "resend_data c = []" "resend_buffer c \<noteq> []"
      "t' = t\<lparr>resend_cooldown := Some now\<rparr>"
      "case resend_cooldown t of None \<Rightarrow> True | Some since \<Rightarrow> resend_timeout t \<le> now - since"
  using assms
  by (auto simp: check_resend_def do_resend_def check_resend_cooldown_def resend_def
      split: if_splits option.splits prod.splits result.splits)

lemma check_send_cooldown:
  assumes "check_send L P now ops c t = Returns (ops', c', t')"
  shows "resend_cooldown t' = resend_cooldown t \<and> resend_timeout t' = resend_timeout t \<and> resend_data c' = resend_data c"
proof -
  have "resend_data c1 = resend_data c" if "send_packet L P c operations busy = Returns (r, rest, c1)" for operations busy r rest c1
    using that
    by (auto simp: send_packet_def determine_connection_state_def set_tx_sequence_def set_credit_field_def Let_def
        elim!: and_then_ReturnsE split: if_splits prod.splits)
  with assms show ?thesis
    by (auto simp: check_send_def Let_def elim!: and_then_ReturnsE split: if_splits result.splits)
qed

lemma set_ack_timeout_simps [simp]:
  "resend_cooldown (set_ack_timeout L now c t) = resend_cooldown t"
  "resend_timeout (set_ack_timeout L now c t) = resend_timeout t"
  "ack_only_timeout (set_ack_timeout L now c t) = ack_only_timeout t"
  by (simp_all add: set_ack_timeout_def)

lemma tick_cases:
  assumes "tick L P now t ops c ca = Returns (t', ops', c', ca')"
  obtains (early) "now - last_executed t < cycle t" "t' = t" "ops' = ops" "c' = c" "ca' = ca"
  | (run) ops1 cr c1 t1 where "cycle t \<le> now - last_executed t"
      "process_probes ca ops (credits_send c) = Returns (ca', ops1, cr)"
      "check_send L P now ops1 (c\<lparr>credits_send := cr\<rparr>)
         (set_ack_timeout L now (c\<lparr>credits_send := cr\<rparr>) (t\<lparr>last_executed := now\<rparr>)) = Returns (ops', c1, t1)"
      "check_resend now c1 t1 = (c', t')"
  using assms
  by (auto simp: tick_def Let_def elim!: and_then_ReturnsE split: if_splits prod.splits)

context ox_link
begin

lemma check_send_inv:
  assumes "conn_inv L P c" "length (resend_buffer c) + 1 < 2 ^ 22"
    and "check_send L P now ops c t = Returns (ops', c', t')"
  shows "conn_inv L P c'"
  using assms
  by (auto simp: check_send_def Let_def elim!: and_then_ReturnsE intro: conn_inv_send
      split: if_splits result.splits)

lemma tick_inv:
  assumes "tick L P now t ops c ca = Returns (t', ops', c', ca')"
    and "conn_inv L P c" "length (resend_buffer c) + 1 < 2 ^ 22" "cache_ok ca"
  shows "conn_inv L P c' \<and> cache_ok ca'"
  using assms(1)
proof (cases rule: tick_cases)
  case early
  with assms(2,4) show ?thesis by simp
next
  case (run ops1 cr c1 t1)
  have "conn_inv L P (c\<lparr>credits_send := cr\<rparr>)"
    using assms(2) length_process_probes [OF run(2)] by simp
  then have "conn_inv L P c1" by (rule check_send_inv [OF _ _ run(3)]) (use assms(3) in simp)
  then have "conn_inv L P (snd (resend c1))" by (rule conn_inv_neutral)
  with \<open>conn_inv L P c1\<close> run(4) have "conn_inv L P c'"
    by (auto simp: check_resend_def do_resend_def split: if_splits prod.splits result.splits)
  then show ?thesis using cache_ok_process_probes [OF run(2) assms(4)] by simp
qed

lemma check_send_sends:
  assumes "conn_inv L P c" "connection_state c \<noteq> Idle" "packet_data c = None" "send_required now ops c t"
  obtains rest frame where "check_send L P now ops c t = Returns
      (ops\<lparr>operations_outstanding := rest\<rparr>, sent_state L c (num_outstanding ops \<noteq> 0) frame,
       t\<lparr>last_send := now, ack_required_since := None\<rparr>)"
    "frame_field P F_sequence_number_ack frame = word_of_int (sn_val L (last_rx_seq c))"
proof -
  obtain n m frame where f: "send_packet L P c (Some (operations_outstanding ops)) (num_outstanding ops \<noteq> 0) =
      Returns (Ok (), map_option (drop n) (Some (operations_outstanding ops)), sent_state L c (num_outstanding ops \<noteq> 0) frame)"
    "frame_for L P c (num_outstanding ops \<noteq> 0)
      (body_of (take n (case_option [] id (Some (operations_outstanding ops)))) @ u64_to_be_bytes m) frame"
    by (rule send_packet_sends [of c "Some (operations_outstanding ops)" "num_outstanding ops \<noteq> 0"])
      (use assms in \<open>auto simp: conn_inv_def numbers_ok_def\<close>)
  show thesis
    by (rule that [of "drop n (operations_outstanding ops)" frame])
      (use assms(4) f in \<open>simp_all add: check_send_def Let_def frame_for_def\<close>)
qed

text \<open>A single short message leaves with the next packet.\<close>

lemma check_send_one:
  assumes "conn_inv L P c" "connection_state c \<noteq> Idle" "packet_data c = None"
    and "operations_outstanding ops = [buf]" "length buf < 8970"
  obtains m frame where "check_send L P now ops c t = Returns
      (ops\<lparr>operations_outstanding := []\<rparr>, sent_state L c (num_outstanding ops \<noteq> 0) frame,
       t\<lparr>last_send := now, ack_required_since := None\<rparr>)"
    "frame_for L P c (num_outstanding ops \<noteq> 0) (body_of [buf] @ u64_to_be_bytes m) frame"
proof -
  let ?busy = "num_outstanding ops \<noteq> 0"
  obtain n m frame where f: "takes_prefix (case_option [] id (Some [buf])) n m"
    "send_packet L P c (Some [buf]) ?busy = Returns (Ok (), map_option (drop n) (Some [buf]), sent_state L c ?busy frame)"
    "frame_for L P c ?busy (body_of (take n (case_option [] id (Some [buf]))) @ u64_to_be_bytes m) frame"
    by (rule send_packet_sends [of c "Some [buf]" ?busy])
      (use assms(1-3) in \<open>auto simp: conn_inv_def numbers_ok_def\<close>)
  have "n = 1" using f(1) assms(5) by (cases n) (auto simp: takes_prefix_def)
  with f assms(4) show thesis
    by (intro that [of frame m]) (simp_all add: check_send_def send_required_def Let_def)
qed

end

section \<open>Retransmissions\<close>

text \<open>
  A run of ticks at times that do not decrease, with everything but the \<^verbatim>\<open>Tick\<close> changed arbitrarily
  in between. The last component lists, latest first, the times of the ticks that queued packets
  for a retransmission.
\<close>

inductive tick_run :: "'m modular \<Rightarrow> pnet \<Rightarrow> Tick \<Rightarrow> instant \<Rightarrow> instant list \<Rightarrow> bool" for L P where
  run_new: "tick_run L P (tick_new now ack_only resend_after cyc beat) now []"
| run_tick: "\<lbrakk>tick_run L P t now rs; now \<le> now'; tick L P now' t ops c ca = Returns (t', ops', c', ca')\<rbrakk>
    \<Longrightarrow> tick_run L P t' now' (if resend_data c' \<noteq> resend_data c then now' # rs else rs)"

definition spaced :: "nat \<Rightarrow> instant list \<Rightarrow> bool" where
  "spaced d rs \<longleftrightarrow> sorted_wrt (\<lambda>later earlier. earlier + d \<le> later) rs"

lemma spaced_Cons: "spaced d (r # rs) \<longleftrightarrow> (case rs of [] \<Rightarrow> True | x # _ \<Rightarrow> x + d \<le> r) \<and> spaced d rs"
  by (cases rs) (auto simp: spaced_def)

text \<open>The cooldown is the time of the latest retransmission, or that time is long past.\<close>

definition cooldown_ok :: "Tick \<Rightarrow> instant \<Rightarrow> instant list \<Rightarrow> bool" where
  "cooldown_ok t now rs \<longleftrightarrow>
     (case resend_cooldown t of
        Some since \<Rightarrow> since \<le> now \<and> (\<exists>rest. rs = since # rest)
      | None \<Rightarrow> (case rs of [] \<Rightarrow> True | x # _ \<Rightarrow> x + resend_timeout t \<le> now))"

lemma check_resend_spaced:
  assumes "check_resend now c t = (c', t')" "cooldown_ok t now rs" "spaced (resend_timeout t) rs"
  defines "rs' \<equiv> (if resend_data c' \<noteq> resend_data c then now # rs else rs)"
  shows "cooldown_ok t' now rs' \<and> spaced (resend_timeout t') rs' \<and> resend_timeout t' = resend_timeout t"
  using assms(1)
proof (cases rule: check_resend_effect)
  case quiet
  with assms(2,3) show ?thesis
    by (auto simp: rs'_def cooldown_ok_def split: option.splits list.splits)
next
  case again
  with assms(2,3) show ?thesis
    by (auto simp: rs'_def cooldown_ok_def spaced_Cons split: option.splits list.splits)
qed

lemma tick_run_spaced:
  "tick_run L P t now rs \<Longrightarrow> cooldown_ok t now rs \<and> spaced (resend_timeout t) rs"
proof (induction rule: tick_run.induct)
  case (run_new now ack_only resend_after cyc beat)
  show ?case by (simp add: cooldown_ok_def tick_new_def spaced_def)
next
  case (run_tick t now rs now' ops c ca t' ops' c' ca')
  then have now': "cooldown_ok t now' rs"
    by (auto simp: cooldown_ok_def split: option.splits list.splits)
  show ?case using run_tick.hyps(3)
  proof (cases rule: tick_cases)
    case early
    with now' run_tick.IH show ?thesis by simp
  next
    case (run ops1 cr c1 t1)
    have t1: "resend_cooldown t1 = resend_cooldown t" "resend_timeout t1 = resend_timeout t" "resend_data c1 = resend_data c"
      using check_send_cooldown [OF run(3)] by simp_all
    have "cooldown_ok t1 now' rs" "spaced (resend_timeout t1) rs"
      using now' run_tick.IH unfolding cooldown_ok_def t1 by simp_all
    from check_resend_spaced [OF run(4) this] t1(3) show ?thesis by (auto split: if_splits)
  qed
qed

text \<open>
  C26. However often the endpoint ticks and whatever happens in between, two retransmissions of the
  window are at least the resend timeout apart.
\<close>

theorem resends_spaced:
  assumes "tick_run L P t now rs"
  shows "\<forall>i j. i < j \<longrightarrow> j < length rs \<longrightarrow> rs ! j + resend_timeout t \<le> rs ! i"
  using tick_run_spaced [OF assms] by (auto simp: spaced_def sorted_wrt_iff_nth_less)

text \<open>A tick that finds the previous packet unsent and no probes, and such a tick that resends.\<close>

lemma tick_waiting:
  assumes "cycle t \<le> now - last_executed t" "probes ca = []" "packet_data c \<noteq> None" "connection_state c \<noteq> Idle"
  shows "tick L P now t ops c ca =
    (case check_resend now c (set_ack_timeout L now c (t\<lparr>last_executed := now\<rparr>)) of
       (c', t') \<Rightarrow> Returns (t', ops, c', ca))"
proof -
  have ca: "ca\<lparr>probes := []\<rparr> = ca" using assms(2) by (cases ca) simp
  from assms show ?thesis
    by (simp add: tick_def process_probes_def check_send_def send_packet_def Let_def ca split: prod.split)
qed

lemma tick_resends:
  assumes "cycle t \<le> now - last_executed t" "probes ca = []" "packet_data c \<noteq> None" "connection_state c \<noteq> Idle"
    and "resend_buffer c \<noteq> []" "resend_data c = []" "resend_timeout t \<le> now - last_message_received_at c"
    and "case resend_cooldown t of None \<Rightarrow> True | Some since \<Rightarrow> resend_timeout t \<le> now - since"
  obtains t' where "tick L P now t ops c ca =
      Returns (t', ops, c\<lparr>resend_data := resend_buffer c, resend_outstanding := False\<rparr>, ca)"
    "resend_cooldown t' = Some now" "resend_timeout t' = resend_timeout t" "last_executed t' = now" "cycle t' = cycle t"
proof -
  let ?t = "set_ack_timeout L now c (t\<lparr>last_executed := now\<rparr>)"
  have "check_resend now c ?t =
      (c\<lparr>resend_data := resend_buffer c, resend_outstanding := False\<rparr>, ?t\<lparr>resend_cooldown := Some now\<rparr>)"
    using assms(5-8)
    by (cases "resend_cooldown t")
      (simp_all add: check_resend_def reset_pending_def do_resend_def check_resend_cooldown_def resend_def)
  with tick_waiting [OF assms(1-4), of L P ops] show thesis
    by (intro that [of "?t\<lparr>resend_cooldown := Some now\<rparr>"]) (simp_all add: set_ack_timeout_def)
qed

theorem resends_spaced_witness:
  "\<exists>t. tick_run std_modular std_pnet t 6 [6, 3] \<and> resend_timeout t = 2 \<and> [6, 3] ! 1 + (2 :: nat) \<le> [6, 3] ! 0"
proof -
  obtain frame where s: "sample_sent = sent_state std_modular sample_conn False frame" using sample_sent_frame by blast
  have c: "packet_data sample_sent \<noteq> None" "connection_state sample_sent \<noteq> Idle"
      "last_message_received_at sample_sent = 0"
    unfolding s by (simp_all add: sent_state_def state_after_send_def sample_conn_def establish_connection_def conn_new_def)
  have b: "resend_buffer sample_sent \<noteq> []" using sample_sent_fields(1) by auto
  let ?c = "sample_sent\<lparr>resend_data := resend_buffer sample_sent, resend_outstanding := False\<rparr>"
  obtain t1 where t1: "tick std_modular std_pnet 3 (tick_new 0 1 2 1 None) operations_new sample_sent (cache_new 0) =
      Returns (t1, operations_new, ?c, cache_new 0)" "resend_cooldown t1 = Some 3" "resend_timeout t1 = 2"
      "last_executed t1 = 3" "cycle t1 = 1"
    by (rule tick_resends [of "tick_new 0 1 2 1 None" 3 "cache_new 0" sample_sent std_modular std_pnet operations_new])
      (use c b sample_sent_fields(2) in \<open>simp_all add: tick_new_def cache_new_def\<close>)
  obtain t2 where t2: "tick std_modular std_pnet 6 t1 operations_new sample_sent (cache_new 0) =
      Returns (t2, operations_new, ?c, cache_new 0)" "resend_timeout t2 = 2"
    by (rule tick_resends [of t1 6 "cache_new 0" sample_sent std_modular std_pnet operations_new])
      (use c b sample_sent_fields(2) t1 in \<open>simp_all add: cache_new_def\<close>)
  have "resend_data ?c \<noteq> resend_data sample_sent" using b sample_sent_fields(2) by simp
  then have "tick_run std_modular std_pnet t2 6 [6, 3]"
    using run_tick [OF run_tick [OF run_new _ t1(1)] _ t2(1)] by simp
  with resends_spaced [OF this] t2(2) show ?thesis by auto
qed

section \<open>Acknowledgements\<close>

context ox_link
begin

lemma sent_state_acked:
  "sn_ok L (last_rx_seq c) \<Longrightarrow> \<not> ack_outstanding L (sent_state L c busy frame)"
  using sn_set_ok [of "sn_val L (last_rx_seq c)"] by (simp add: ack_outstanding_def sent_state_def sn_ok_def)

lemma check_resend_keeps:
  assumes "check_resend now c t = (c', t')"
  shows "packet_data c' = packet_data c \<and> ack_outstanding L c' = ack_outstanding L c \<and>
    ack_required_since t' = ack_required_since t"
  using assms by (cases rule: check_resend_effect) (auto simp: ack_outstanding_def)

end

text \<open>
  C27. An acknowledgement is never held back for longer than the timeout: once it has been required for
  that long, the next tick that finds the transmit slot free sends a packet that acknowledges
  the last packet received, and none is owed afterwards.
\<close>

theorem tick_acknowledges:
  assumes "ox_link L P" and "conn_inv L P c" and "connection_state c \<noteq> Idle" and "packet_data c = None"
    and "ack_outstanding L c" and "ack_required_since t = Some since" and "since + ack_only_timeout t \<le> now"
    and "cycle t \<le> now - last_executed t" and "process_probes ca ops (credits_send c) = Returns (ca', ops1, cr)"
  shows "\<exists>t' ops' c' frame. tick L P now t ops c ca = Returns (t', ops', c', ca') \<and> packet_data c' = Some frame \<and>
    frame_field P F_sequence_number_ack frame = word_of_int (sn_val L (last_rx_seq c)) \<and>
    \<not> ack_outstanding L c' \<and> ack_required_since t' = None"
proof -
  let ?c = "c\<lparr>credits_send := cr\<rparr>" and ?t = "t\<lparr>last_executed := now\<rparr>"
  have inv: "conn_inv L P ?c" using assms(2) length_process_probes [OF assms(9)] by simp
  have t: "set_ack_timeout L now ?c ?t = ?t"
    using assms(5,6) by (simp add: set_ack_timeout_def ack_outstanding_def)
  have req: "send_required now ops1 ?c ?t" using assms(6,7) by (auto simp: send_required_def)
  obtain rest frame where f: "check_send L P now ops1 ?c ?t = Returns (ops1\<lparr>operations_outstanding := rest\<rparr>,
      sent_state L ?c (num_outstanding ops1 \<noteq> 0) frame, ?t\<lparr>last_send := now, ack_required_since := None\<rparr>)"
    "frame_field P F_sequence_number_ack frame = word_of_int (sn_val L (last_rx_seq ?c))"
    by (rule ox_link.check_send_sends [OF assms(1) inv _ _ req]) (use assms(3,4) in simp_all)
  obtain c' t' where r: "check_resend now (sent_state L ?c (num_outstanding ops1 \<noteq> 0) frame)
      (?t\<lparr>last_send := now, ack_required_since := None\<rparr>) = (c', t')" by (metis surj_pair)
  have "tick L P now t ops c ca = Returns (t', ops1\<lparr>operations_outstanding := rest\<rparr>, c', ca')"
    using assms(8,9) t f(1) r by (simp add: tick_def Let_def)
  moreover have "sn_ok L (last_rx_seq ?c)" using inv by (simp add: conn_inv_def numbers_ok_def)
  then have "\<not> ack_outstanding L (sent_state L ?c (num_outstanding ops1 \<noteq> 0) frame)"
    by (rule ox_link.sent_state_acked [OF assms(1)])
  moreover have "packet_data (sent_state L ?c (num_outstanding ops1 \<noteq> 0) frame) = Some frame"
    by (simp add: sent_state_def)
  ultimately show ?thesis using ox_link.check_resend_keeps [OF assms(1) r] f(2) by simp
qed

text \<open>A connection that has received a packet and not acknowledged it.\<close>

definition owing_conn :: "(int \<times> nat) Connection" where
  "owing_conn = sample_conn\<lparr>last_rx_seq := next_rx_seq sample_conn\<rparr>"

lemma owing_conn_inv: "conn_inv std_modular std_pnet owing_conn"
  using sample_conn_inv by (simp add: owing_conn_def conn_inv_def numbers_ok_def window_ok_def frames_ok_def)

theorem tick_acknowledges_witness:
  "\<exists>t' ops' c' frame. tick std_modular std_pnet 9 ((tick_new 0 2 5 1 None)\<lparr>ack_required_since := Some 3\<rparr>)
      operations_new owing_conn (cache_new 0) = Returns (t', ops', c', cache_new 0) \<and>
    packet_data c' = Some frame \<and> frame_field std_pnet F_sequence_number_ack frame = 0"
proof -
  note defs = owing_conn_def sample_conn_def establish_connection_def conn_new_def
  have 1: "connection_state owing_conn \<noteq> Idle" "packet_data owing_conn = None" by (simp_all add: defs)
  have v: "sn_val std_modular (last_rx_seq owing_conn) = 0" "ack_outstanding std_modular owing_conn"
    by (simp_all add: defs ack_outstanding_def sn_val_def sn_new_def sn_max_def sn_modulus_def std_modular_def)
  have "process_probes (cache_new 0) operations_new (credits_send owing_conn) =
      Returns (cache_new 0, operations_new, credits_send owing_conn)"
    by (simp add: process_probes_def cache_new_def)
  from tick_acknowledges [OF lk.ox_link_axioms owing_conn_inv 1 v(2) _ _ _ this,
      of "(tick_new 0 2 5 1 None)\<lparr>ack_required_since := Some 3\<rparr>" 3 9] v(1) show ?thesis
    by (auto simp: tick_new_def)
qed

end
