(* ===== verification/Endpoint.thy ===== *)
theory Endpoint
  imports Tick
begin

text \<open>
  \<^verbatim>\<open>process_packet\<close> of \<^verbatim>\<open>omnixtend-rs/src/utils.rs\<close>, which hands a received frame through the
  connection, the TileLink parser, the credits, the cache and the pool of operations. The outer
  \<open>option\<close> is that of the parser: \<open>None\<close> stands for a parser loop that does not end.
\<close>

section \<open>Definitions\<close>

datatype crate_error = ConnectionError conn_error

text \<open>\<^verbatim>\<open>responses.drain(..).for_each(...)\<close>.\<close>

fun complete_all :: "Operations \<Rightarrow> response list \<Rightarrow> Operations outcome" where
  "complete_all ops [] = Returns ops"
| "complete_all ops ((source, sink, r) # rs) =
     and_then (op_complete ops source sink r) (\<lambda>ops. complete_all ops rs)"

definition credit_all :: "'m Connection \<Rightarrow> credit list \<Rightarrow> 'm Connection" where
  "credit_all c crs = foldl (\<lambda>c (chan, n). add_receive_credits c chan n) c crs"

definition process_payload ::
    "'m Connection \<Rightarrow> Cache \<Rightarrow> Operations \<Rightarrow> (parsed, channel_error) result \<Rightarrow>
     ('m Connection \<times> Cache \<times> Operations) outcome" where
  "process_payload c ca ops parsed =
     (let (crs, ps, rs) = (case parsed of Ok p \<Rightarrow> p | Err _ \<Rightarrow> ([], [], []));
          c = credit_all c crs;
          ca = foldl add_probe ca ps
      in and_then (complete_all ops rs) (\<lambda>ops. Returns (c, ca, ops)))"

definition process_packet ::
    "'m modular \<Rightarrow> pnet \<Rightarrow> instant \<Rightarrow> bytes \<Rightarrow> 'm Connection \<Rightarrow> Cache \<Rightarrow> Operations \<Rightarrow>
     ((unit, crate_error) result \<times> 'm Connection \<times> Cache \<times> Operations) outcome option" where
  "process_packet L P now v c ca ops =
     (case process_packets L P now c v of
        Returns (Ok payload, c) \<Rightarrow>
          map_option (\<lambda>m. and_then m (\<lambda>parsed.
            and_then (process_payload c ca ops parsed) (\<lambda>(c, ca, ops). Returns (Ok (), c, ca, ops))))
            (process_messages payload)
      | Returns (Err e, c) \<Rightarrow> Some (Returns (Err (ConnectionError e), c, ca, ops))
      | Panics p \<Rightarrow> Some (Panics p)
      | Waits \<Rightarrow> Some Waits)"

section \<open>Responses reach their operations\<close>

text \<open>The slots of the sources are free and each source has one response.\<close>

definition slots_free :: "Operations \<Rightarrow> response list \<Rightarrow> bool" where
  "slots_free ops rs \<longleftrightarrow> distinct (map fst rs) \<and>
     (\<forall>r \<in> set rs. unat (fst r) < length (operation_completions ops) \<and>
        operation_completions ops ! unat (fst r) = None)"

definition slots_filled :: "Operations \<Rightarrow> response list \<Rightarrow> Operations" where
  "slots_filled ops rs = ops\<lparr>operation_completions :=
     foldl (\<lambda>slots (source, sr). slots[unat source := Some sr]) (operation_completions ops) rs\<rparr>"

lemma slots_free_step:
  assumes "slots_free ops ((source, sr) # rs)"
  shows "slots_free (ops\<lparr>operation_completions := (operation_completions ops)[unat source := Some sr]\<rparr>) rs"
    and "source \<notin> fst ` set rs"
  using assms by (force simp: slots_free_def nth_list_update simp flip: word_unat_eq_iff)+

lemma complete_all_fills:
  "slots_free ops rs \<Longrightarrow> complete_all ops rs = Returns (slots_filled ops rs)"
proof (induction rs arbitrary: ops)
  case Nil
  show ?case by (simp add: slots_filled_def)
next
  case (Cons r rs)
  obtain source sink res where r: "r = (source, sink, res)" by (cases r)
  let ?ops = "ops\<lparr>operation_completions := (operation_completions ops)[unat source := Some (sink, res)]\<rparr>"
  have c: "op_complete ops source sink res = Returns ?ops"
    using Cons.prems r by (auto simp: op_complete_def slots_free_def)
  have "slots_free ?ops rs" using Cons.prems r by (simp add: slots_free_step)
  from Cons.IH [OF this] c r show ?case by (simp add: slots_filled_def)
qed

lemma length_slots_filled [simp]:
  "length (operation_completions (slots_filled ops rs)) = length (operation_completions ops)"
proof -
  have "length (foldl (\<lambda>slots (source, sr). slots[unat source := Some sr]) slots rs) = length slots" for slots
    by (induction rs arbitrary: slots) auto
  then show ?thesis by (simp add: slots_filled_def)
qed

lemma slots_filled_nth:
  assumes "slots_free ops rs" "i < length (operation_completions ops)"
  shows "operation_completions (slots_filled ops rs) ! i =
    (case map_of (map (\<lambda>(s, sr). (unat s, sr)) rs) i of Some sr \<Rightarrow> Some sr
     | None \<Rightarrow> operation_completions ops ! i)"
  using assms
proof (induction rs arbitrary: ops)
  case Nil
  show ?case by (simp add: slots_filled_def)
next
  case (Cons r rs)
  obtain source sr where r: "r = (source, sr)" by (cases r)
  let ?ops = "ops\<lparr>operation_completions := (operation_completions ops)[unat source := Some sr]\<rparr>"
  have free: "slots_free ?ops rs" "source \<notin> fst ` set rs"
    using Cons.prems(1) slots_free_step [of ops source sr rs] by (simp_all add: r)
  have "map_of (map (\<lambda>(s, sr). (unat s, sr)) rs) (unat source) = None"
    using free(2) by (force simp: map_of_eq_None_iff simp flip: word_unat_eq_iff)
  with Cons.IH [OF free(1)] Cons.prems(2) r show ?case
    by (auto simp: slots_filled_def nth_list_update split: option.splits)
qed

lemma foldl_add_probe: "foldl add_probe ca ps = ca\<lparr>probes := probes ca @ ps\<rparr>"
  by (induction ps arbitrary: ca) (auto simp: add_probe_def)

lemma process_messages_encoded:
  assumes "\<forall>m \<in> set ms. incoming_ok m" "length msk = 8"
  shows "process_messages (concat (map encode_incoming ms) @ msk) = Some (Returns (Ok
    (List.map_filter incoming_credit ms, List.map_filter incoming_probe ms,
     List.map_filter incoming_response ms)))"
  using process_loop_encoded [OF assms, of "[]"] assms(2) by (simp add: process_messages_def)

lemma process_packet_encoded:
  assumes "ox_link L P" "conn_inv L P c" "addressed P c v" "is_expected L P c v"
    and "acked_count L P c v \<le> length (resend_buffer c)" "\<not> frame_is P AckOnly v"
    and "22 \<le> length v" "drop 22 v = concat (map encode_incoming ms) @ msk" "length msk = 8"
    and "\<forall>m \<in> set ms. incoming_ok m" "slots_free ops (List.map_filter incoming_response ms)"
  shows "process_packet L P now v c ca ops = Some (Returns (Ok (),
      credit_all (accepted_data L P now c v) (List.map_filter incoming_credit ms),
      ca\<lparr>probes := probes ca @ List.map_filter incoming_probe ms\<rparr>,
      slots_filled ops (List.map_filter incoming_response ms)))"
proof -
  have "process_packets L P now c v = Returns (Ok (drop 22 v), accepted_data L P now c v)"
    using assms(1-7) by (intro ox_link.receive_expected)
  then show ?thesis
    using process_messages_encoded [OF assms(10,9)] complete_all_fills [OF assms(11)] assms(8)
    by (simp add: process_packet_def process_payload_def foldl_add_probe)
qed

text \<open>The slot of an answered operation.\<close>

lemma slots_filled_response:
  assumes "slots_free ops rs" "(src, sr) \<in> set rs"
  shows "operation_completions (slots_filled ops rs) ! unat src = Some sr"
    and "unat src < length (operation_completions ops)"
proof -
  have "distinct (map fst (map (\<lambda>(s, sr). (unat s, sr)) rs))"
    using assms(1) by (simp add: slots_free_def distinct_map inj_on_def case_prod_beta comp_def) (metis word_unat_eq_iff)
  moreover have "(unat src, sr) \<in> set (map (\<lambda>(s, sr). (unat s, sr)) rs)" using assms(2) by force
  ultimately have "map_of (map (\<lambda>(s, sr). (unat s, sr)) rs) (unat src) = Some sr" by (rule map_of_is_SomeI)
  moreover show "unat src < length (operation_completions ops)"
    using assms by (auto simp: slots_free_def)
  ultimately show "operation_completions (slots_filled ops rs) ! unat src = Some sr"
    using slots_filled_nth [OF assms(1)] by simp
qed

text \<open>
  C3. From the wire to the components. A frame with the expected sequence number whose payload consists of
  well-formed responder messages is processed completely: the connection accepts it and owes the
  credits of its messages, the probes are queued at the cache in order, and the slot
  of every answered operation holds its sink and its result, while all other slots are unchanged.
\<close>

theorem process_packet_delivers:
  assumes "ox_link L P" and "conn_inv L P c" and "addressed P c v" and "is_expected L P c v"
    and "acked_count L P c v \<le> length (resend_buffer c)" and "\<not> frame_is P AckOnly v"
    and "22 \<le> length v" and "drop 22 v = concat (map encode_incoming ms) @ msk" and "length msk = 8"
    and "\<forall>m \<in> set ms. incoming_ok m" and "slots_free ops (List.map_filter incoming_response ms)"
  shows "\<exists>ops'. process_packet L P now v c ca ops = Some (Returns (Ok (),
      credit_all (accepted_data L P now c v) (List.map_filter incoming_credit ms),
      ca\<lparr>probes := probes ca @ List.map_filter incoming_probe ms\<rparr>, ops')) \<and>
    (\<forall>i < length (operation_completions ops). operation_completions ops' ! i =
      (case map_of (map (\<lambda>(s, sr). (unat s, sr)) (List.map_filter incoming_response ms)) i of
         Some sr \<Rightarrow> Some sr | None \<Rightarrow> operation_completions ops ! i))"
  using process_packet_encoded [OF assms, of now ca] slots_filled_nth [OF assms(11)] by blast

definition response_frame :: bytes where
  "response_frame = take 22 reply_frame @ concat (map encode_incoming sample_incoming) @ replicate 8 0"

lemma response_frame_sequence_number: "frame_field std_pnet F_sequence_number response_frame = 0"
  by code_simp

lemma response_frame_sequence_number_ack: "frame_field std_pnet F_sequence_number_ack response_frame = 4194303"
  by code_simp

lemma response_frame_message_type: "frame_field std_pnet F_message_type response_frame = 0"
  by code_simp

lemma response_frame_payload: "drop 22 response_frame = concat (map encode_incoming sample_incoming) @ replicate 8 0"
  by code_simp

lemma response_frame_length: "22 \<le> length response_frame"
  by code_simp

lemma response_frame_destination: "eth_get_destination std_pnet response_frame = MacAddr 2 0 0 0 0 1"
  by code_simp

lemma response_frame_ethertype: "eth_get_ethertype std_pnet response_frame = 0xAAAA"
  by code_simp

lemmas response_frame_fields =
  response_frame_sequence_number response_frame_sequence_number_ack response_frame_message_type response_frame_payload
  response_frame_length response_frame_destination response_frame_ethertype

lemma response_frame_ok:
  "addressed std_pnet sample_conn response_frame" "is_expected std_modular std_pnet sample_conn response_frame"
  "acked_count std_modular std_pnet sample_conn response_frame = 0" "\<not> frame_is std_pnet AckOnly response_frame"
  using response_frame_fields
  by (simp_all add: addressed_def is_expected_def acked_count_def frame_is_def sample_conn_def
      establish_connection_def conn_new_def sn_val_def sn_new_def sn_max_def sn_modulus_def
      std_modular_def seq_dist_def)

lemma sample_incoming_parsed:
  "\<forall>m \<in> set sample_incoming. incoming_ok m"
  "List.map_filter incoming_response sample_incoming = [(5, 0, Ok [1, 2, 3, 4, 5, 6, 7, 8])]"
  by (simp_all add: sample_incoming_def header_ok_def abcd_fits_def answer_def)

theorem process_packet_delivers_witness:
  "\<exists>ca' ops' c'. process_packet std_modular std_pnet 7 response_frame sample_conn (cache_new 0) operations_new =
     Some (Returns (Ok (), c', ca', ops')) \<and> length (probes ca') = 1 \<and>
     operation_completions ops' ! 5 = Some (0, Ok [1, 2, 3, 4, 5, 6, 7, 8]) \<and> operation_completions ops' ! 6 = None"
proof -
  have free: "slots_free operations_new (List.map_filter incoming_response sample_incoming)"
    by (simp add: sample_incoming_parsed slots_free_def operations_new_def)
  from process_packet_delivers [OF lk.ox_link_axioms sample_conn_inv response_frame_ok(1,2) _ response_frame_ok(4)
      response_frame_fields(5,4) _ sample_incoming_parsed(1) free, of 7 "cache_new 0"]
  show ?thesis
    by (auto simp: response_frame_ok(3) sample_incoming_parsed(2) operations_new_def cache_new_def)
      (simp add: sample_incoming_def)
qed

end
