(* ===== verification/Flits.thy ===== *)
theory Flits
  imports Chunkize
begin

text \<open>
  Packets as streams of flits, the form in which \<^verbatim>\<open>rust_sim/src/socket.rs\<close> and
  \<^verbatim>\<open>rust_sim/src/sim.rs\<close> exchange them with the simulated hardware: 64-bit words with a flag on
  the last one and a byte mask. Both files have the same \<^verbatim>\<open>next_flit\<close> and \<^verbatim>\<open>push_flit\<close> up to
  where packets come from and go to; their contracts are the locales \<open>flit_source\<close> and
  \<open>flit_sink\<close>, and \<open>flit_link\<close> shows that a source connected to a sink implements a queue of
  packets.
\<close>

type_synonym flit = "u64 \<times> bool \<times> u8"

section \<open>The parts both files share\<close>

text \<open>The mask of the last flit of a packet of \<open>n\<close> bytes.\<close>

definition last_mask :: "nat \<Rightarrow> u8" where
  "last_mask n = (let remainder = n mod 8 in if remainder = 0 then 255 else push_bit remainder 1 - 1)"

text \<open>The value \<^verbatim>\<open>next_flit\<close> returns, with \<open>cur\<close> the flits that remain.\<close>

definition emit :: "u64 \<Rightarrow> u64 list \<Rightarrow> u8 \<Rightarrow> flit" where
  "emit flit cur msk = (flit, length cur = 0, if length cur = 0 then msk else 255)"

text \<open>The loop of \<^verbatim>\<open>push_flit\<close> over the bytes of a flit.\<close>

fun unmask :: "u8 \<Rightarrow> bytes \<Rightarrow> bytes" where
  "unmask m [] = []"
| "unmask m (b # bs) = (if m AND 1 = 1 then b # unmask (drop_bit 1 m) bs else unmask (drop_bit 1 m) bs)"

definition flit_bytes :: "u64 \<Rightarrow> u8 \<Rightarrow> bytes" where
  "flit_bytes val msk =
     (if msk = 255 then u64_to_le_bytes val else unmask msk (u64_to_le_bytes val))"

section \<open>The flits of a packet\<close>

fun mark_last :: "u8 \<Rightarrow> u64 list \<Rightarrow> flit list" where
  "mark_last m [] = []"
| "mark_last m (x # xs) = emit x xs m # mark_last m xs"

definition flits_of :: "bytes \<Rightarrow> flit list" where
  "flits_of p = mark_last (last_mask (length p)) (chunkize_packet p)"

definition bytes_of :: "flit list \<Rightarrow> bytes" where
  "bytes_of fs = concat (map (\<lambda>(v, l, m). flit_bytes v m) fs)"

lemma bytes_of_simps [simp]:
  "bytes_of [] = []" "bytes_of ((v, l, m) # fs) = flit_bytes v m @ bytes_of fs"
  by (simp_all add: bytes_of_def)

lemma mark_last_Nil_iff [simp]: "mark_last m xs = [] \<longleftrightarrow> xs = []"
  by (cases xs) auto

lemma length_mark_last [simp]: "length (mark_last m xs) = length xs"
  by (induction xs) auto

lemma bit_low_ones: "r < 8 \<Longrightarrow> bit (2 ^ r - 1 :: u8) i \<longleftrightarrow> i < r"
  by (auto simp: mask_eq_exp_minus_1 [symmetric] bit_mask_iff)

lemma and_1_eq_1_iff: "m AND 1 = (1 :: u8) \<longleftrightarrow> bit m 0"
  by (simp add: and_one_eq bit_0 odd_iff_mod_2_eq_one)

lemma unmask_prefix:
  assumes "\<And>i. i < length bs \<Longrightarrow> bit m i \<longleftrightarrow> i < r" "r \<le> length bs"
  shows "unmask m bs = take r bs"
  using assms
proof (induction bs arbitrary: m r)
  case (Cons b bs)
  have bit0: "m AND 1 = 1 \<longleftrightarrow> 0 < r" using Cons.prems(1) [of 0] by (simp only: and_1_eq_1_iff) simp
  have shift: "bit (drop_bit 1 m) i \<longleftrightarrow> i < r - 1" if "i < length bs" for i
    using Cons.prems(1) [of "Suc i"] that by (auto simp: bit_drop_bit_eq)
  have "r - 1 \<le> length bs" using Cons.prems(2) by simp
  from Cons.IH [OF shift this] bit0 show ?case by (cases r) auto
qed simp

lemma flit_bytes_255 [simp]: "flit_bytes v 255 = u64_to_le_bytes v"
  by (simp add: flit_bytes_def)

lemma flit_bytes_last:
  assumes "n mod 8 = r" "0 < r"
  shows "flit_bytes v (last_mask n) = take r (u64_to_le_bytes v)"
proof -
  have r: "r < 8" using assms by (metis mod_less_divisor zero_less_numeral)
  have m: "last_mask n = 2 ^ r - 1" using assms by (simp add: last_mask_def)
  have "\<not> bit (last_mask n) 7" using r by (simp add: m bit_low_ones)
  moreover have "bit (255 :: u8) 7" by simp
  ultimately have "last_mask n \<noteq> 255" by metis
  moreover have "unmask (last_mask n) (u64_to_le_bytes v) = take r (u64_to_le_bytes v)"
    by (rule unmask_prefix) (use r in \<open>auto simp: m bit_low_ones\<close>)
  ultimately show ?thesis by (simp add: flit_bytes_def)
qed

lemma last_mask_add8: "last_mask (8 + n) = last_mask n"
  by (simp add: last_mask_def)

text \<open>The bytes that the sink keeps of the flits of a packet are the packet.\<close>

lemma bytes_of_flits_of: "bytes_of (flits_of p) = p"
proof (induction "length p" arbitrary: p rule: less_induct)
  case less
  consider "p = []" | "p \<noteq> []" "length p < 8" | "length p = 8" | "8 < length p" by linarith
  then show ?case
  proof cases
    case 2
    then have "flit_bytes v (last_mask (length p)) = take (length p) (u64_to_le_bytes v)" for v
      by (intro flit_bytes_last) auto
    with 2 show ?thesis by (simp add: flits_of_def chunkize_short emit_def to_from_le_bytes)
  next
    case 3
    then have "p \<noteq> []" by auto
    with 3 show ?thesis
      by (simp add: flits_of_def chunkize_short emit_def last_mask_def to_from_le_bytes)
  next
    case 4
    then obtain xs ys where p: "p = xs @ ys" "length xs = 8" "ys \<noteq> []" by (rule split8)
    then have "chunkize_packet ys \<noteq> []" by (simp add: length_chunkize flip: length_greater_0_conv)
    with p less [of ys] show ?thesis
      by (simp add: flits_of_def chunkize_append8 last_mask_add8 emit_def to_from_le_bytes)
  qed (simp add: flits_of_def)
qed

lemma flits_of_Nil_iff [simp]: "flits_of p = [] \<longleftrightarrow> p = []"
proof -
  have "chunkize_packet p = [] \<longleftrightarrow> p = []"
    by (simp add: length_chunkize flip: length_0_conv) linarith
  then show ?thesis by (simp add: flits_of_def)
qed

text \<open>Only the last flit is marked, in what remains of a packet.\<close>

fun well_marked :: "flit list \<Rightarrow> bool" where
  "well_marked [] \<longleftrightarrow> True"
| "well_marked ((v, l, m) # fs) \<longleftrightarrow> (l \<longleftrightarrow> fs = []) \<and> well_marked fs"

lemma well_marked_mark_last [simp]: "well_marked (mark_last m xs)"
  by (induction xs) (auto simp: emit_def)

lemma well_marked_flits_of [simp]: "well_marked (flits_of p)"
  by (simp add: flits_of_def)

section \<open>Contracts\<close>

text \<open>Up to \<open>n\<close> calls of \<^verbatim>\<open>next_flit\<close>.\<close>

fun take_flits :: "('s \<Rightarrow> (flit option \<times> 's) outcome) \<Rightarrow> nat \<Rightarrow> 's \<Rightarrow> (flit list \<times> 's) outcome" where
  "take_flits nxt 0 s = Returns ([], s)"
| "take_flits nxt (Suc n) s =
     and_then (nxt s) (\<lambda>(f, s).
       case f of
         None \<Rightarrow> Returns ([], s)
       | Some f \<Rightarrow> and_then (take_flits nxt n s) (\<lambda>(fs, s). Returns (f # fs, s)))"

text \<open>
  A source: \<open>cur\<close> are the flits that remain of the packet it is sending, \<open>queue\<close> the packets
  that follow.
\<close>

locale flit_source =
  fixes nxt :: "'s \<Rightarrow> (flit option \<times> 's) outcome"
    and ready :: "'s \<Rightarrow> bool"
    and cur :: "'s \<Rightarrow> flit list"
    and queue :: "'s \<Rightarrow> bytes list"
  assumes nonempty: "ready s \<Longrightarrow> [] \<notin> set (queue s)"
    and marked: "ready s \<Longrightarrow> well_marked (cur s)"
    and next_cur: "ready s \<Longrightarrow> cur s = f # fs \<Longrightarrow>
      \<exists>s'. nxt s = Returns (Some f, s') \<and> ready s' \<and> cur s' = fs \<and> queue s' = queue s"
    and next_load: "ready s \<Longrightarrow> cur s = [] \<Longrightarrow> queue s = p # ps \<Longrightarrow>
      \<exists>s'. nxt s = Returns (Some (hd (flits_of p)), s') \<and> ready s' \<and> cur s' = tl (flits_of p) \<and> queue s' = ps"
    and next_idle: "ready s \<Longrightarrow> cur s = [] \<Longrightarrow> queue s = [] \<Longrightarrow> nxt s = Returns (None, s)"
begin

definition left :: "'s \<Rightarrow> nat" where
  "left s = length (cur s) + (\<Sum>p \<leftarrow> queue s. length (flits_of p))"

definition pending :: "bytes \<Rightarrow> 's \<Rightarrow> bytes list" where
  "pending part s = (if cur s = [] then queue s else (part @ bytes_of (cur s)) # queue s)"

text \<open>One call: what is pending is unchanged when the flit is added to the part that is there.\<close>

lemma next_pending:
  assumes "ready s" "left s \<noteq> 0" "cur s = [] \<longrightarrow> part = []"
  obtains v l m s' where "nxt s = Returns (Some (v, l, m), s')" "ready s'" "left s' < left s"
    "pending part s = (if l then (part @ flit_bytes v m) # pending [] s' else pending (part @ flit_bytes v m) s')"
    "l \<longleftrightarrow> cur s' = []"
proof (cases "cur s")
  case (Cons f fs)
  obtain v l m where f: "f = (v, l, m)" by (cases f)
  from next_cur [OF assms(1) Cons] obtain s'
    where s': "nxt s = Returns (Some f, s')" "ready s'" "cur s' = fs" "queue s' = queue s" by blast
  from marked [OF assms(1)] Cons f have l: "l \<longleftrightarrow> fs = []" by simp
  show thesis
    by (rule that [of v l m s']) (use s' f l Cons in \<open>auto simp: pending_def left_def\<close>)
next
  case Nil
  with assms(2) obtain p ps where q: "queue s = p # ps" by (cases "queue s") (auto simp: left_def)
  with nonempty [OF assms(1)] have p: "p \<noteq> []" by auto
  obtain v l m where f: "hd (flits_of p) = (v, l, m)" by (cases "hd (flits_of p)")
  with p have fs: "flits_of p = (v, l, m) # tl (flits_of p)" by (metis flits_of_Nil_iff list.collapse)
  then have l: "l \<longleftrightarrow> tl (flits_of p) = []" and b: "p = flit_bytes v m @ bytes_of (tl (flits_of p))"
    by (metis well_marked_flits_of well_marked.simps(2), metis bytes_of_flits_of bytes_of_simps(2))
  from next_load [OF assms(1) Nil q] obtain s' where s': "nxt s = Returns (Some (v, l, m), s')" "ready s'"
    "cur s' = tl (flits_of p)" "queue s' = ps" by (auto simp: f)
  have "length (flits_of p) = Suc (length (tl (flits_of p)))" using fs by (metis length_Cons)
  then have "left s' < left s" using Nil q s' by (simp add: left_def)
  with s' l Nil q b assms(3) show thesis
    by (intro that [of v l m s']) (auto simp: pending_def)
qed

text \<open>Everything there is to take is what remains of the current packet and the flits of the others.\<close>

lemma take_all_flits:
  assumes "ready s" "left s \<le> n"
  shows "\<exists>s'. take_flits nxt n s = Returns (cur s @ concat (map flits_of (queue s)), s')"
  using assms
proof (induction n arbitrary: s)
  case 0
  then show ?case by (auto simp: left_def)
next
  case (Suc n)
  show ?case
  proof (cases "cur s")
    case (Cons f fs)
    from next_cur [OF Suc.prems(1) this] obtain s' where s': "nxt s = Returns (Some f, s')" "ready s'"
      "cur s' = fs" "queue s' = queue s" by blast
    then have "left s' \<le> n" using Suc.prems(2) Cons by (simp add: left_def)
    from Suc.IH [OF s'(2) this] s' Cons show ?thesis by auto
  next
    case Nil
    show ?thesis
    proof (cases "queue s")
      case q: Nil
      with next_idle [OF Suc.prems(1) Nil] Nil show ?thesis by simp
    next
      case q: (Cons p ps)
      with nonempty [OF Suc.prems(1)] have "flits_of p \<noteq> []" by auto
      then obtain f fs where p: "flits_of p = f # fs" by (cases "flits_of p") auto
      from next_load [OF Suc.prems(1) Nil q] obtain s' where s': "nxt s = Returns (Some f, s')"
        "ready s'" "cur s' = fs" "queue s' = ps" by (auto simp: p)
      then have "left s' \<le> n" using Suc.prems(2) Nil q p by (simp add: left_def)
      from Suc.IH [OF s'(2) this] s' Nil q p show ?thesis by auto
    qed
  qed
qed

end

text \<open>A sink: \<open>part\<close> are the bytes of the packet it is receiving, \<open>got\<close> the packets received.\<close>

locale flit_sink =
  fixes push :: "'t \<Rightarrow> flit \<Rightarrow> 't outcome"
    and part :: "'t \<Rightarrow> bytes"
    and got :: "'t \<Rightarrow> bytes list"
  assumes push: "\<exists>t'. push t (v, l, m) = Returns t' \<and>
    part t' = (if l then [] else part t @ flit_bytes v m) \<and>
    got t' = (if l then got t @ [part t @ flit_bytes v m] else got t)"

section \<open>A link implements a queue of packets\<close>

text \<open>The abstract specification: packets that are to be delivered and packets delivered.\<close>

inductive queue_step :: "bytes list \<times> bytes list \<Rightarrow> bytes list \<times> bytes list \<Rightarrow> bool" where
  deliver: "queue_step (p # ps, d) (ps, d @ [p])"

inductive_simps queue_step_simps: "queue_step (ps, d) a"

text \<open>The link: one flit is taken from the source and given to the sink, if there is one.\<close>

definition transfer ::
    "('s \<Rightarrow> (flit option \<times> 's) outcome) \<Rightarrow> ('t \<Rightarrow> flit \<Rightarrow> 't outcome) \<Rightarrow> 's \<times> 't \<Rightarrow> ('s \<times> 't) outcome" where
  "transfer nxt push x = (case x of (s, t) \<Rightarrow>
     and_then (nxt s) (\<lambda>(f, s).
       case f of None \<Rightarrow> Returns (s, t) | Some f \<Rightarrow> and_then (push t f) (\<lambda>t. Returns (s, t))))"

fun transfers ::
    "('s \<Rightarrow> (flit option \<times> 's) outcome) \<Rightarrow> ('t \<Rightarrow> flit \<Rightarrow> 't outcome) \<Rightarrow> nat \<Rightarrow> 's \<times> 't \<Rightarrow> ('s \<times> 't) outcome" where
  "transfers nxt push 0 x = Returns x"
| "transfers nxt push (Suc n) x = and_then (transfer nxt push x) (transfers nxt push n)"

locale flit_link = flit_source nxt ready cur queue + flit_sink push part got
  for nxt :: "'s \<Rightarrow> (flit option \<times> 's) outcome" and ready cur queue
    and push :: "'t \<Rightarrow> flit \<Rightarrow> 't outcome" and part got
begin

definition linked :: "'s \<times> 't \<Rightarrow> bool" where
  "linked = (\<lambda>(s, t). ready s \<and> (cur s = [] \<longrightarrow> part t = []))"

definition packets :: "'s \<times> 't \<Rightarrow> bytes list \<times> bytes list" where
  "packets = (\<lambda>(s, t). (pending (part t) s, got t))"

lemma transfer_refines:
  assumes "linked (s, t)" "left s \<noteq> 0"
  shows "\<exists>s' t'. transfer nxt push (s, t) = Returns (s', t') \<and> linked (s', t') \<and> left s' < left s \<and>
    (packets (s', t') = packets (s, t) \<or> queue_step (packets (s, t)) (packets (s', t')))"
proof -
  from assms have r: "ready s" "cur s = [] \<longrightarrow> part t = []" by (auto simp: linked_def)
  obtain v l m s' where s': "nxt s = Returns (Some (v, l, m), s')" "ready s'" "left s' < left s"
    "pending (part t) s = (if l then (part t @ flit_bytes v m) # pending [] s' else pending (part t @ flit_bytes v m) s')"
    "l \<longleftrightarrow> cur s' = []"
    by (rule next_pending [OF r(1) assms(2) r(2)])
  obtain t' where t': "push t (v, l, m) = Returns t'"
    "part t' = (if l then [] else part t @ flit_bytes v m)"
    "got t' = (if l then got t @ [part t @ flit_bytes v m] else got t)" using push by blast
  have "transfer nxt push (s, t) = Returns (s', t')" using s'(1) t'(1) by (simp add: transfer_def)
  moreover have "linked (s', t')" using s' t' by (simp add: linked_def)
  moreover have "packets (s', t') = packets (s, t) \<or> queue_step (packets (s, t)) (packets (s', t'))"
    using s' t' by (cases l) (simp_all add: packets_def queue_step_simps)
  ultimately show ?thesis using s'(3) by blast
qed

lemma transfer_idle:
  assumes "linked (s, t)" "left s = 0"
  shows "transfer nxt push (s, t) = Returns (s, t) \<and> pending (part t) s = []"
proof -
  have ready: "ready s" using assms(1) by (simp add: linked_def)
  have "cur s = []" using assms(2) by (simp add: left_def)
  moreover have "queue s = []"
  proof (rule ccontr)
    assume "queue s \<noteq> []"
    then obtain p ps where "queue s = p # ps" by (cases "queue s") auto
    with nonempty [OF ready] assms(2) show False by (simp add: left_def)
  qed
  ultimately show ?thesis using next_idle [OF ready] by (simp add: transfer_def pending_def)
qed

text \<open>As many transfers as there are flits, or more, deliver every packet, in order.\<close>

lemma transfers_deliver:
  assumes "linked (s, t)" "left s \<le> n"
  shows "\<exists>s' t'. transfers nxt push n (s, t) = Returns (s', t') \<and> linked (s', t') \<and> left s' = 0 \<and>
    got t' = got t @ pending (part t) s"
  using assms
proof (induction n arbitrary: s t)
  case 0
  then show ?case using transfer_idle [of s t] by auto
next
  case (Suc n)
  show ?case
  proof (cases "left s = 0")
    case True
    with Suc.prems transfer_idle [of s t] Suc.IH [of s t] show ?thesis by simp
  next
    case False
    from transfer_refines [OF Suc.prems(1) this] obtain s' t' where step: "transfer nxt push (s, t) = Returns (s', t')"
      "linked (s', t')" "left s' < left s"
      "packets (s', t') = packets (s, t) \<or> queue_step (packets (s, t)) (packets (s', t'))" by blast
    then have "got t' @ pending (part t') s' = got t @ pending (part t) s"
      by (auto simp: packets_def queue_step_simps)
    with step Suc.IH [of s' t'] Suc.prems(2) show ?thesis by auto
  qed
qed

end

end
