(* ===== verification/Socket.thy ===== *)
theory Socket
  imports Complex_Main Flits "HOL-Library.Sublist"
begin

text \<open>
  \<^verbatim>\<open>rust_sim/src/socket.rs\<close>: the bridge between the flits of the simulated hardware and a raw
  Ethernet socket. The queues are lists, the two threads are iterations of their loops with the
  random number and the received packet as arguments, and a finite \<^verbatim>\<open>f64\<close> is a real number. Parsing the command
  line, opening the interface and setting the signal handler are calls of libraries whose results are arguments.
\<close>

section \<open>State and operations\<close>

record Socket =
  packets_out :: "bytes list"
  packet_cur :: "u64 list"
  packet_cur_mask :: u8
  packet_in :: bytes
  packets_in :: "bytes list"
  active :: bool

record socket_opt =
  ethernet_port :: string
  read_buffer_size :: usize
  write_buffer_size :: usize
  reliability_send :: real
  reliability_receive :: real

definition socket_init :: Socket where
  "socket_init = \<lparr>packets_out = [], packet_cur = [], packet_cur_mask = 0, packet_in = [],
     packets_in = [], active = True\<rparr>"

fun split_at :: "char \<Rightarrow> string \<Rightarrow> string list" where
  "split_at c [] = [[]]"
| "split_at c (x # xs) =
     (if x = c then [] # split_at c xs else (x # hd (split_at c xs)) # tl (split_at c xs))"

datatype opened = EthernetChannel | OtherKind

text \<open>
  \<^verbatim>\<open>Socket::new\<close>, with the parser of the command line, which ends the process on a malformed line, the names of the interfaces of the
  machine, the result of opening one with the two buffer sizes, and of setting the signal handler. The two threads
  it starts have the reliabilities of the options.
\<close>

definition socket_new ::
    "(string list \<Rightarrow> socket_opt option) \<Rightarrow> string list \<Rightarrow> (string \<Rightarrow> usize \<Rightarrow> usize \<Rightarrow> (opened, 'e) result) \<Rightarrow>
     (unit, 'e) result \<Rightarrow> string \<Rightarrow> (socket_opt \<times> Socket) outcome" where
  "socket_new parse interfaces open_channel handler opt_str =
     (case parse (split_at CHR '' '' opt_str) of
        None \<Rightarrow> Panics ProcessExit
      | Some opt \<Rightarrow>
          (case find (\<lambda>name. name = ethernet_port opt) interfaces of
             None \<Rightarrow> Panics ExplicitPanic
           | Some name \<Rightarrow>
               (case open_channel name (write_buffer_size opt) (read_buffer_size opt) of
                  Ok EthernetChannel \<Rightarrow>
                    (case handler of Ok _ \<Rightarrow> Returns (opt, socket_init) | Err _ \<Rightarrow> Panics UnwrapOnErr)
                | Ok OtherKind \<Rightarrow> Panics ExplicitPanic
                | Err _ \<Rightarrow> Panics ExplicitPanic)))"

text \<open>The handler of the signal.\<close>

definition ctrlc_handler :: "Socket \<Rightarrow> Socket" where
  "ctrlc_handler s = s\<lparr>active := False\<rparr>"

text \<open>\<^verbatim>\<open>Drop::drop\<close>; joining the threads, which see \<^verbatim>\<open>active\<close>, has no further effect.\<close>

definition socket_drop :: "Socket \<Rightarrow> Socket" where
  "socket_drop s = s\<lparr>active := False\<rparr>"

text \<open>The file's own copy of \<^verbatim>\<open>chunkize_packet\<close>.\<close>

definition socket_chunkize_packet :: "bytes \<Rightarrow> u64 list" where
  "socket_chunkize_packet p = map (\<lambda>chunk. u64_from_le_bytes (pad8 chunk)) (chunks8 p)"

lemma socket_chunkize_packet_eq [simp]: "socket_chunkize_packet = chunkize_packet"
  by (simp add: fun_eq_iff socket_chunkize_packet_def chunkize_packet_def)

definition socket_next_flit :: "Socket \<Rightarrow> (flit option \<times> Socket) outcome" where
  "socket_next_flit s =
     (case packet_cur s of
        x # rest \<Rightarrow> Returns (Some (emit x rest (packet_cur_mask s)), s\<lparr>packet_cur := rest\<rparr>)
      | [] \<Rightarrow>
          (case packets_in s of
             x # ps \<Rightarrow>
               let s = s\<lparr>packets_in := ps, packet_cur := socket_chunkize_packet x,
                         packet_cur_mask := last_mask (length x)\<rparr>
               in (case packet_cur s of
                     f # rest \<Rightarrow> Returns (Some (emit f rest (packet_cur_mask s)), s\<lparr>packet_cur := rest\<rparr>)
                   | [] \<Rightarrow> Panics NoFlits)
           | [] \<Rightarrow> Returns (None, s)))"

definition socket_push_flit :: "Socket \<Rightarrow> u64 \<Rightarrow> bool \<Rightarrow> u8 \<Rightarrow> Socket" where
  "socket_push_flit s val last_flit msk =
     (let s = s\<lparr>packet_in := packet_in s @ flit_bytes val msk\<rparr> in
      if last_flit then s\<lparr>packets_out := packets_out s @ [packet_in s], packet_in := []\<rparr> else s)"

section \<open>Threads\<close>

definition dropped :: "real \<Rightarrow> real \<Rightarrow> bool" where
  "dropped reliability random \<longleftrightarrow> reliability \<noteq> 1 \<and> random > reliability"

text \<open>One iteration of the loop of \<^verbatim>\<open>start_send_thread\<close>; the result is what is sent.\<close>

definition send_thread_step :: "real \<Rightarrow> real \<Rightarrow> Socket \<Rightarrow> bytes option \<times> Socket" where
  "send_thread_step reliability random s =
     (if active s then
        (case packets_out s of
           pkt # rest \<Rightarrow>
             (if dropped reliability random then None else Some pkt, s\<lparr>packets_out := rest\<rparr>)
         | [] \<Rightarrow> (None, s))
      else (None, s))"

text \<open>One iteration of the loop of \<^verbatim>\<open>start_receive_thread\<close>, \<open>p\<close> the result of \<^verbatim>\<open>rx.next()\<close>.\<close>

definition receive_thread_step :: "real \<Rightarrow> real \<Rightarrow> bytes option \<Rightarrow> Socket \<Rightarrow> Socket" where
  "receive_thread_step reliability random p s =
     (if active s \<and> \<not> dropped reliability random then
        (case p of Some pkt \<Rightarrow> s\<lparr>packets_in := packets_in s @ [pkt]\<rparr> | None \<Rightarrow> s)
      else s)"

fun send_thread_run :: "real \<Rightarrow> real list \<Rightarrow> Socket \<Rightarrow> bytes list \<times> Socket" where
  "send_thread_run reliability [] s = ([], s)"
| "send_thread_run reliability (r # rs) s =
     (let (p, s) = send_thread_step reliability r s; (ps, s) = send_thread_run reliability rs s
      in (case p of Some pkt \<Rightarrow> pkt # ps | None \<Rightarrow> ps, s))"

section \<open>The contracts of a flit stream\<close>

definition socket_ready :: "Socket \<Rightarrow> bool" where
  "socket_ready s \<longleftrightarrow> [] \<notin> set (packets_in s)"

definition socket_cur :: "Socket \<Rightarrow> flit list" where
  "socket_cur s = mark_last (packet_cur_mask s) (packet_cur s)"

definition socket_push :: "Socket \<Rightarrow> flit \<Rightarrow> Socket outcome" where
  "socket_push s f = (case f of (v, l, m) \<Rightarrow> Returns (socket_push_flit s v l m))"

lemma socket_next_load:
  assumes "packet_cur s = []" "packets_in s = p # ps" "p \<noteq> []"
  shows "\<exists>s'. socket_next_flit s = Returns (Some (hd (flits_of p)), s') \<and>
    socket_cur s' = tl (flits_of p) \<and> packets_in s' = ps"
proof -
  have "flits_of p \<noteq> []" using assms(3) by simp
  then obtain f rest where c: "chunkize_packet p = f # rest"
    by (cases "chunkize_packet p") (auto simp: flits_of_def)
  have "hd (flits_of p) = emit f rest (last_mask (length p))" "tl (flits_of p) = mark_last (last_mask (length p)) rest"
    by (simp_all add: flits_of_def c)
  with assms c show ?thesis by (simp add: socket_next_flit_def socket_cur_def)
qed

interpretation so: flit_link socket_next_flit socket_ready socket_cur packets_in socket_push packet_in packets_out
proof
  fix s f fs
  assume r: "socket_ready s"
  show "[] \<notin> set (packets_in s)" using r by (simp add: socket_ready_def)
  show "well_marked (socket_cur s)" by (simp add: socket_cur_def)
  assume c: "socket_cur s = f # fs"
  then obtain x rest where "packet_cur s = x # rest" by (cases "packet_cur s") (auto simp: socket_cur_def)
  with c r show "\<exists>s'. socket_next_flit s = Returns (Some f, s') \<and> socket_ready s' \<and> socket_cur s' = fs \<and>
      packets_in s' = packets_in s"
    by (auto simp: socket_next_flit_def socket_cur_def socket_ready_def)
next
  fix s p ps
  assume "socket_ready s" "socket_cur s = []" "packets_in s = p # ps"
  moreover from this have "p \<noteq> []" "packet_cur s = []" by (auto simp: socket_ready_def socket_cur_def)
  ultimately show "\<exists>s'. socket_next_flit s = Returns (Some (hd (flits_of p)), s') \<and> socket_ready s' \<and>
      socket_cur s' = tl (flits_of p) \<and> packets_in s' = ps"
    using socket_next_load [of s p ps] by (auto simp: socket_ready_def)
qed (auto simp: socket_cur_def socket_next_flit_def socket_push_def socket_push_flit_def)

section \<open>Properties\<close>

text \<open>What two sockets that exchange flits stand for: the packets still to be delivered, the
  first one partly with the receiver, and the packets delivered.\<close>

definition link_packets :: "Socket \<times> Socket \<Rightarrow> bytes list \<times> bytes list" where
  "link_packets x = (case x of (s, t) \<Rightarrow>
     (if packet_cur s = [] then packets_in s
      else (packet_in t @ bytes_of (mark_last (packet_cur_mask s) (packet_cur s))) # packets_in s,
      packets_out t))"

definition link_ok :: "Socket \<times> Socket \<Rightarrow> bool" where
  "link_ok x = (case x of (s, t) \<Rightarrow> [] \<notin> set (packets_in s) \<and> (packet_cur s = [] \<longrightarrow> packet_in t = []))"

definition flits_left :: "Socket \<Rightarrow> nat" where
  "flits_left s = length (packet_cur s) + (\<Sum>p \<leftarrow> packets_in s. length (chunkize_packet p))"

lemma link_abstraction:
  "so.linked = link_ok" "so.packets = link_packets" "so.left = flits_left"
  by (auto simp: fun_eq_iff so.linked_def so.packets_def so.left_def so.pending_def link_ok_def
      link_packets_def flits_left_def socket_cur_def socket_ready_def flits_of_def)

text \<open>
  C6. Refinement. Handing flits from \<^verbatim>\<open>next_flit\<close> of one socket to \<^verbatim>\<open>push_flit\<close> of another
  implements a queue of packets: while flits are left, each transfer returns, leaves fewer of them, and either
  changes nothing of the packets the two sockets stand for or delivers the next one; with no flits left it changes nothing.
\<close>

theorem flit_link_refines_queue:
  assumes "link_ok (s, t)"
  shows "(flits_left s \<noteq> 0 \<longrightarrow> (\<exists>s' t'. transfer socket_next_flit socket_push (s, t) = Returns (s', t') \<and>
      link_ok (s', t') \<and> flits_left s' < flits_left s \<and>
      (link_packets (s', t') = link_packets (s, t) \<or>
       queue_step (link_packets (s, t)) (link_packets (s', t'))))) \<and>
    (flits_left s = 0 \<longrightarrow> transfer socket_next_flit socket_push (s, t) = Returns (s, t) \<and>
      fst (link_packets (s, t)) = [])"
proof -
  note simps = link_abstraction [symmetric]
  have "so.linked (s, t)" using assms by (simp add: simps)
  with so.transfer_refines [of s t] so.transfer_idle [of s t] show ?thesis
    by (auto simp: simps so.packets_def)
qed

definition nine_bytes :: bytes where
  "nine_bytes = [1, 2, 3, 4, 5, 6, 7, 8, 9]"

definition sender :: Socket where
  "sender = socket_init\<lparr>packets_in := [nine_bytes, [7]]\<rparr>"

lemma sender_flits: "flits_left sender = 3"
  by (simp add: flits_left_def sender_def socket_init_def length_chunkize nine_bytes_def)

lemma sender_ok: "link_ok (sender, socket_init)"
  by (simp add: link_ok_def sender_def socket_init_def nine_bytes_def)

theorem flit_link_refines_queue_witness:
  "\<exists>s' t'. transfer socket_next_flit socket_push (sender, socket_init) = Returns (s', t') \<and>
     flits_left s' < 3 \<and> (link_packets (s', t') = link_packets (sender, socket_init) \<or>
       queue_step (link_packets (sender, socket_init)) (link_packets (s', t')))"
  using flit_link_refines_queue [OF sender_ok] by (auto simp: sender_flits)

text \<open>
  Every packet arrives: as many transfers as there are flits, or more, deliver all packets of the
  source completely, in their order and without the padding of the last flit.
\<close>

lemma flits_deliver_packets:
  assumes "link_ok (s, t)" and "flits_left s \<le> n"
  shows "\<exists>s' t'. transfers socket_next_flit socket_push n (s, t) = Returns (s', t') \<and> flits_left s' = 0 \<and>
    packets_out t' = packets_out t @ fst (link_packets (s, t))"
  using so.transfers_deliver [of s t n] assms
  by (auto simp: link_abstraction [symmetric] so.packets_def)

lemma send_thread_run_spec:
  "send_thread_run rel rs s = (ps, s') \<Longrightarrow> active s \<Longrightarrow>
     subseq ps (take (length rs) (packets_out s)) \<and> s' = s\<lparr>packets_out := drop (length rs) (packets_out s)\<rparr> \<and>
     (rel = 1 \<longrightarrow> ps = take (length rs) (packets_out s))"
proof (induction rs arbitrary: s ps)
  case (Cons r rs)
  show ?case
  proof (cases "packets_out s")
    case Nil
    with Cons.prems have "send_thread_run rel rs s = (ps, s')"
      by (simp add: send_thread_step_def split: prod.splits)
    from Cons.IH [OF this] Cons.prems(2) Nil show ?thesis by simp
  next
    case (Cons pkt rest)
    obtain qs where q: "send_thread_run rel rs (s\<lparr>packets_out := rest\<rparr>) = (qs, s')"
      "ps = (if dropped rel r then qs else pkt # qs)"
      using Cons.prems \<open>packets_out s = pkt # rest\<close> by (auto simp: send_thread_step_def split: prod.splits if_splits)
    from Cons.IH [OF q(1)] Cons.prems(2) have
      "subseq qs (take (length rs) rest) \<and> s' = s\<lparr>packets_out := drop (length rs) rest\<rparr> \<and>
       (rel = 1 \<longrightarrow> qs = take (length rs) rest)" by simp
    with q(2) \<open>packets_out s = pkt # rest\<close> show ?thesis by (auto simp: dropped_def)
  qed
qed simp

text \<open>
  The send thread never reorders, repeats or alters packets: what it puts on the wire in any number of
  iterations is a subsequence of the packets that left the queue, and all of them when the reliability is 1.
\<close>

lemma send_thread_only_drops:
  assumes "active s" and "send_thread_run rel rs s = (ps, s')"
  shows "subseq ps (take (length rs) (packets_out s)) \<and> packets_out s' = drop (length rs) (packets_out s) \<and>
    (rel = 1 \<longrightarrow> ps = take (length rs) (packets_out s))"
  using send_thread_run_spec [OF assms(2,1)] by simp

end
