(* ===== verification/Endpoint_Inv.thy ===== *)
theory Endpoint_Inv
  imports Endpoint
begin

text \<open>
  The invariant of an endpoint, the connection and the cache that a program keeps together: the window
  and the numbers of the connection are consistent, only trunk lines of the cache are dirty, and every packet
  that waits to be sent is an OmniXtend frame for the peer. The simulation, \<^verbatim>\<open>bitload\<close> and \<^verbatim>\<open>omnixtend-tui\<close> change an
  endpoint only by the steps below, each of which keeps the invariant.
\<close>

section \<open>Credits are never added or removed as counters\<close>

lemma length_perform_return: "perform_return oper ret ops cr = Returns (x, ops', cr') \<Longrightarrow> cr' = cr"
  by (auto simp: perform_return_def elim!: and_then_ReturnsE)

lemma length_perform:
  "perform ph ops cr = Returns (x, ops', cr') \<Longrightarrow> length cr' = length cr"
proof (cases ph)
  case (Get_source oper)
  assume "perform ph ops cr = Returns (x, ops', cr')"
  with Get_source show ?thesis
    by (auto elim!: and_then_ReturnsE split: option.splits result.splits dest: length_perform_credits)
next
  case (Send_response oper sink ret)
  assume "perform ph ops cr = Returns (x, ops', cr')"
  with Send_response show ?thesis
    by (auto simp: send_response_def ack_credits_def elim!: and_then_ReturnsE dest!: length_get_credits
        length_perform_return split: option.splits result.splits prod.splits if_splits)
qed (auto simp: perform_response_def ack_credits_def Let_def elim!: and_then_ReturnsE dest: length_perform_credits
    dest!: length_get_credits length_perform_return split: option.splits prod.splits if_splits)

lemma length_cache_acquire:
  "cache_acquire ph a perm ca ops cr = Returns (x, ca', ops', cr') \<Longrightarrow> length cr' = length cr"
  by (auto simp: cache_acquire_def elim!: and_then_ReturnsE dest!: length_perform split: sum.splits result.splits)

lemma length_cache_attempt:
  "cache_attempt v a perm ca ops cr = Returns (x, ca', ops', cr') \<Longrightarrow> length cr' = length cr"
  by (auto simp: cache_attempt_def dest: length_cache_acquire split: attempt.splits)

lemma length_cache_access:
  "cache_read ph a ca ops cr = Returns (x, ca', ops', cr') \<Longrightarrow> length cr' = length cr"
  "cache_write ph a d ca ops cr = Returns (y, ca', ops', cr') \<Longrightarrow> length cr' = length cr"
  "cache_rmw ph f a ca ops cr = Returns (z, ca', ops', cr') \<Longrightarrow> length cr' = length cr"
  by (cases ph; auto elim!: and_then_ReturnsE dest: length_cache_attempt length_cache_acquire split: prod.splits)+

section \<open>The invariant\<close>

definition frame_to :: "pnet \<Rightarrow> MacAddr \<Rightarrow> bytes \<Rightarrow> bool" where
  "frame_to P mac p \<longleftrightarrow> 70 \<le> length p \<and> eth_get_destination P p = mac \<and> eth_get_ethertype P p = 0xAAAA"

definition queued_ok :: "pnet \<Rightarrow> 'm Connection \<Rightarrow> bool" where
  "queued_ok P c \<longleftrightarrow> (\<forall>p \<in> set (resend_data c) \<union> set_option (packet_data c). frame_to P (other_mac c) p)"

definition endpoint_ok :: "'m modular \<Rightarrow> pnet \<Rightarrow> MacAddr \<Rightarrow> MacAddr \<Rightarrow> 'm Connection \<Rightarrow> Cache \<Rightarrow> bool" where
  "endpoint_ok L P mine other c ca \<longleftrightarrow>
     conn_inv L P c \<and> queued_ok P c \<and> my_mac c = mine \<and> other_mac c = other \<and> cache_ok ca"

lemma endpoint_ok_credits [simp]:
  "length cr = length (credits_send c) \<Longrightarrow>
   endpoint_ok L P mine other (c\<lparr>credits_send := cr\<rparr>) ca = endpoint_ok L P mine other c ca"
  by (simp add: endpoint_ok_def queued_ok_def)

lemma credit_all_credits:
  "credit_all c crs = c\<lparr>credits_receive := foldl (\<lambda>cr (chan, n). credits_add cr chan n) (credits_receive c) crs\<rparr>"
  by (induction crs arbitrary: c) (auto simp: credit_all_def add_receive_credits_def case_prod_beta)

text \<open>What a received packet does to the connection outside of \<^verbatim>\<open>process_packets\<close>, and to the cache.\<close>

lemma process_packet_cases:
  assumes "process_packet L P now p c ca ops = Some (Returns (r, c', ca', ops'))"
  obtains q c1 cr ps where "process_packets L P now c p = Returns (q, c1)"
    "c' = c1\<lparr>credits_receive := cr\<rparr>" "ca' = ca\<lparr>probes := probes ca @ ps\<rparr>"
proof -
  obtain q c1 where q: "process_packets L P now c p = Returns (q, c1)"
    using assms by (auto simp: process_packet_def split: outcome.splits)
  have "\<exists>crs ps. c' = credit_all c1 crs \<and> ca' = foldl add_probe ca ps"
  proof (cases q)
    case (Ok payload)
    with assms q show ?thesis
      by (auto simp: process_packet_def process_payload_def elim!: and_then_ReturnsE split: prod.splits)
  next
    case (Err e)
    with assms q have "c' = credit_all c1 [] \<and> ca' = foldl add_probe ca []"
      by (simp add: process_packet_def credit_all_def)
    then show ?thesis by blast
  qed
  with that [OF q] show thesis by (metis credit_all_credits foldl_add_probe)
qed

section \<open>The steps\<close>

context ox_link
begin

lemma endpoint_new: "endpoint_ok L P mine other (conn_new L now now' cm i mine other) (cache_new j)"
  using conn_inv_new [of now now' cm i mine other]
  by (simp add: endpoint_ok_def queued_ok_def conn_new_def cache_ok_def cache_new_def)

lemma endpoint_establish:
  "endpoint_ok L P mine other c ca \<Longrightarrow> endpoint_ok L P mine other (establish_connection c) ca"
  using conn_inv_neutral(1) [of c] by (auto simp: endpoint_ok_def queued_ok_def establish_connection_def)

lemma endpoint_get_packet:
  assumes "endpoint_ok L P mine other c ca" "get_packet now c = (r, c')"
  shows "endpoint_ok L P mine other c' ca \<and> (\<forall>p. r = Some p \<longrightarrow> frame_to P other p)"
  using assms conn_inv_neutral(2) [of c now]
  by (auto simp: endpoint_ok_def queued_ok_def get_packet_def split: list.splits option.splits)

lemma endpoint_close:
  "endpoint_ok L P mine other c ca \<Longrightarrow>
   endpoint_ok L P mine other (snd (close_connection L timeout now ph c)) ca"
  using conn_inv_neutral(4) [of c timeout now ph] close_connection_effect [of L timeout now ph c]
  by (auto simp: endpoint_ok_def queued_ok_def)

lemma queued_send:
  assumes "conn_inv L P c" "queued_ok P c" "send_packet L P c operations busy = Returns (r, rest, c')"
  shows "queued_ok P c' \<and> my_mac c' = my_mac c \<and> other_mac c' = other_mac c"
proof (cases "connection_state c = Idle \<or> packet_data c \<noteq> None")
  case True
  with assms show ?thesis by (auto simp: send_packet_def split: if_splits)
next
  case False
  obtain n m frame where f: "send_packet L P c operations busy =
      Returns (Ok (), map_option (drop n) operations, sent_state L c busy frame)"
    "frame_for L P c busy (body_of (take n (case_option [] id operations)) @ u64_to_be_bytes m) frame"
    by (rule send_packet_sends [of c operations busy])
      (use False assms(1) in \<open>auto simp: conn_inv_def numbers_ok_def\<close>)
  have "frame_to P (other_mac c) frame" using f(2) by (simp add: frame_to_def frame_for_def length_body_of)
  with f(1) assms(2,3) show ?thesis by (auto simp: queued_ok_def sent_state_def)
qed

lemma endpoint_check_send:
  assumes "endpoint_ok L P mine other c ca" "length (resend_buffer c) + 1 < 2 ^ 22"
    and "check_send L P now ops c t = Returns (ops', c', t')"
  shows "endpoint_ok L P mine other c' ca"
proof -
  have "queued_ok P c' \<and> my_mac c' = my_mac c \<and> other_mac c' = other_mac c"
    using assms(1,3)
    by (auto simp: endpoint_ok_def check_send_def Let_def elim!: and_then_ReturnsE dest: queued_send
      split: if_splits result.splits)
  with check_send_inv [OF _ assms(2,3)] assms(1) show ?thesis by (simp add: endpoint_ok_def)
qed

lemma endpoint_check_resend:
  assumes "endpoint_ok L P mine other c ca" "check_resend now c t = (c', t')"
  shows "endpoint_ok L P mine other c' ca"
  using assms(2)
proof (cases rule: check_resend_effect)
  case again
  have "conn_inv L P (snd (resend c))" using assms(1) conn_inv_neutral(3) by (simp add: endpoint_ok_def)
  with again assms(1) show ?thesis
    by (auto simp: endpoint_ok_def queued_ok_def resend_def conn_inv_def frames_ok_def data_frame_def frame_to_def)
qed (use assms(1) in simp)

lemma endpoint_tick:
  assumes "tick L P now t ops c ca = Returns (t', ops', c', ca')"
    and "endpoint_ok L P mine other c ca" "length (resend_buffer c) + 1 < 2 ^ 22"
  shows "endpoint_ok L P mine other c' ca'"
  using assms(1)
proof (cases rule: tick_cases)
  case (run ops1 cr c1 t1)
  have "endpoint_ok L P mine other (c\<lparr>credits_send := cr\<rparr>) ca'"
    using assms(2) length_process_probes [OF run(2)] cache_ok_process_probes [OF run(2)]
    by (auto simp: endpoint_ok_def queued_ok_def)
  from endpoint_check_send [OF this _ run(3)] assms(3) have "endpoint_ok L P mine other c1 ca'" by simp
  then show ?thesis using run(4) by (rule endpoint_check_resend)
qed (use assms(2) in simp)

lemma process_packets_keeps:
  assumes "process_packets L P now c v = Returns (r, c')"
  shows "packet_data c' = packet_data c \<and> resend_data c' = resend_data c \<and> my_mac c' = my_mac c \<and> other_mac c' = other_mac c"
  using assms
  by (auto simp: process_packets_def process_packets_logged_def process_expected_def remove_from_resend_def indicate_nak_def
      update_send_credits_def set_connection_state_receive_def process_replicated_def Let_def
      elim!: and_then_ReturnsE split: if_splits result.splits)

lemma conn_inv_credits_receive:
  "conn_inv L P c \<Longrightarrow> credits_small cr \<Longrightarrow> conn_inv L P (c\<lparr>credits_receive := cr\<rparr>)"
  by (simp add: conn_inv_def numbers_ok_def window_ok_def frames_ok_def)

lemma endpoint_process_packet:
  assumes "process_packet L P now p c ca ops = Some (Returns (r, c', ca', ops'))"
    and "endpoint_ok L P mine other c ca" "credits_small (credits_receive c')"
  shows "endpoint_ok L P mine other c' ca'"
  using assms(1)
proof (cases rule: process_packet_cases)
  case (1 q c1 cr ps)
  have "conn_inv L P c1" by (rule conn_inv_receive [OF _ 1(1)]) (use assms(2) in \<open>simp add: endpoint_ok_def\<close>)
  then have "conn_inv L P c'" unfolding 1(2) by (rule conn_inv_credits_receive) (use assms(3) 1(2) in simp)
  with process_packets_keeps [OF 1(1)] 1(2,3) assms(2) show ?thesis by (auto simp: endpoint_ok_def queued_ok_def)
qed

end

end
