(* ===== verification/Sim.thy ===== *)
theory Sim
  imports Endpoint_Inv Flits
begin

text \<open>
  \<^verbatim>\<open>rust_sim/src/sim.rs\<close>: an endpoint that the simulated hardware drives flit by flit. The calls
  that perform an operation and \<^verbatim>\<open>close_connection\<close> are polled like \<^verbatim>\<open>perform\<close>; \<^verbatim>\<open>now\<close> is the reading of the
  clock. The lemmas show the invariant of the endpoint over all its operations, that flits pushed
  in are processed as the packet they make up and that the flits taken out are those of the connection's packets.
\<close>

section \<open>State\<close>

datatype sim_error =
    NotEnoughCredits
  | SimOperations op_error
  | SimConnectionError conn_error
  | SimCacheError cache_error
  | WrongReturnType
  | ConnectionClosing

record 'm Sim =
  sim_packet_cur :: "u64 list"
  sim_packet_cur_mask :: u8
  sim_packet_in :: bytes
  sim_ticks :: u64
  sim_id :: u8
  sim_compat_mode :: bool
  sim_connection :: "'m Connection"
  sim_operations :: Operations
  sim_tick :: Tick
  sim_cache :: Cache
  connection_closing :: bool
  connection_closed :: bool

definition sim_new :: "'m modular \<Rightarrow> instant \<Rightarrow> u8 \<Rightarrow> bool \<Rightarrow> MacAddr \<Rightarrow> MacAddr \<Rightarrow> 'm Sim" where
  "sim_new L now i compat0 mine other =
     \<lparr>sim_packet_cur = [], sim_packet_cur_mask = 0, sim_packet_in = [], sim_ticks = 0, sim_id = i,
      sim_compat_mode = compat0, sim_connection = conn_new L now now compat0 i mine other,
      sim_operations = operations_new,
      sim_tick = tick_new now 500000000 2000000000 100000 (Some 1000000000),
      sim_cache = cache_new i, connection_closing = False, connection_closed = False\<rparr>"

definition sim_establish_connection :: "'m Sim \<Rightarrow> 'm Sim" where
  "sim_establish_connection s = s\<lparr>sim_connection := establish_connection (sim_connection s)\<rparr>"

definition is_connection_active :: "'m Sim \<Rightarrow> bool" where
  "is_connection_active s \<longleftrightarrow> connection_state (sim_connection s) = Active"

text \<open>\<^verbatim>\<open>connection.credits()\<close>, which the operations take from.\<close>

definition sim_put :: "'m Sim \<Rightarrow> Operations \<Rightarrow> credits \<Rightarrow> 'm Sim" where
  "sim_put s ops cr = s\<lparr>sim_operations := ops, sim_connection := (sim_connection s)\<lparr>credits_send := cr\<rparr>\<rparr>"

section \<open>Cached accesses\<close>

definition sim_cached ::
    "(Cache \<Rightarrow> Operations \<Rightarrow> credits \<Rightarrow> 'v access_result outcome) \<Rightarrow> 'm Sim \<Rightarrow>
     ((access_phase + ('v, sim_error) result) \<times> 'm Sim) outcome" where
  "sim_cached f s =
     and_then (f (sim_cache s) (sim_operations s) (credits_send (sim_connection s))) (\<lambda>(x, ca, ops, cr).
       Returns (map_sum id (map_err SimCacheError) x, sim_put (s\<lparr>sim_cache := ca\<rparr>) ops cr))"

definition cached_read :: "access_phase \<Rightarrow> u64 \<Rightarrow> 'm Sim \<Rightarrow> ((access_phase + (u64, sim_error) result) \<times> 'm Sim) outcome" where
  "cached_read ph address = sim_cached (cache_read ph address)"

definition cached_write ::
    "access_phase \<Rightarrow> u64 \<Rightarrow> u64 \<Rightarrow> 'm Sim \<Rightarrow> ((access_phase + (unit, sim_error) result) \<times> 'm Sim) outcome" where
  "cached_write ph address d = sim_cached (cache_write ph address d)"

definition cached_rmw ::
    "access_phase \<Rightarrow> u64 \<Rightarrow> (u64 \<Rightarrow> u64) \<Rightarrow> 'm Sim \<Rightarrow> ((access_phase + (u64, sim_error) result) \<times> 'm Sim) outcome" where
  "cached_rmw ph address f = sim_cached (cache_rmw ph f address)"

section \<open>Operations\<close>

text \<open>The shape of \<^verbatim>\<open>read\<close>, \<^verbatim>\<open>write\<close> and the others: the guard, the call of \<^verbatim>\<open>perform\<close>, and
  what is made of its result.\<close>

datatype sim_phase = Sim_start | Sim_perform perform_phase

definition sim_poll ::
    "(TLResult \<Rightarrow> ('v, sim_error) result) \<Rightarrow> perform_phase \<Rightarrow> 'm Sim \<Rightarrow>
     ((sim_phase + ('v, sim_error) result) \<times> 'm Sim) outcome" where
  "sim_poll ret ph s =
     and_then (perform ph (sim_operations s) (credits_send (sim_connection s))) (\<lambda>(x, ops, cr).
       Returns
         (case x of
            Inl ph \<Rightarrow> Inl (Sim_perform ph)
          | Inr (Ok v) \<Rightarrow> Inr (ret v)
          | Inr (Err e) \<Rightarrow> Inr (Err (SimOperations e)), sim_put s ops cr))"

fun sim_perform ::
    "(TLResult \<Rightarrow> ('v, sim_error) result) \<Rightarrow> TLOperations \<Rightarrow> sim_phase \<Rightarrow> 'm Sim \<Rightarrow>
     ((sim_phase + ('v, sim_error) result) \<times> 'm Sim) outcome" where
  "sim_perform ret oper Sim_start s =
     (if connection_closing s then Returns (Inr (Err ConnectionClosing), s)
      else sim_poll ret (Get_source oper) (s\<lparr>sim_operations := perform_enter (sim_operations s)\<rparr>))"
| "sim_perform ret oper (Sim_perform ph) s = sim_poll ret ph s"

fun expect_data :: "TLResult \<Rightarrow> (bytes, sim_error) result" where
  "expect_data (ResData v) = Ok v"
| "expect_data _ = Err WrongReturnType"

fun expect_data64 :: "TLResult \<Rightarrow> (u64, sim_error) result" where
  "expect_data64 (Data64 v) = Ok v"
| "expect_data64 _ = Err WrongReturnType"

definition expect_unit :: "TLResult \<Rightarrow> (unit, sim_error) result" where
  "expect_unit r = Ok ()"

type_synonym ('v, 'm) sim_call = "sim_phase \<Rightarrow> 'm Sim \<Rightarrow> ((sim_phase + ('v, sim_error) result) \<times> 'm Sim) outcome"

definition sim_read :: "u64 \<Rightarrow> usize \<Rightarrow> (bytes, 'm) sim_call" where
  "sim_read address len_bytes =
     sim_perform expect_data (ReadLen \<lparr>readlen_address = address, readlen_bytes = len_bytes\<rparr>)"

definition sim_read_64 :: "u64 \<Rightarrow> (u64, 'm) sim_call" where
  "sim_read_64 address = sim_perform expect_data64 (Read \<lparr>read_address = address\<rparr>)"

definition sim_write :: "u64 \<Rightarrow> bytes \<Rightarrow> (unit, 'm) sim_call" where
  "sim_write address d =
     sim_perform expect_unit (WriteLen \<lparr>writelen_address = address, writelen_data = d\<rparr>)"

definition sim_write_64 :: "u64 \<Rightarrow> u64 \<Rightarrow> (unit, 'm) sim_call" where
  "sim_write_64 address d = sim_perform expect_unit (Write \<lparr>write_address = address, write_data = d\<rparr>)"

definition sim_release :: "u64 \<Rightarrow> Cap \<Rightarrow> Cap \<Rightarrow> usize \<Rightarrow> (unit, 'm) sim_call" where
  "sim_release address from_perm to_perm len_bytes =
     sim_perform expect_unit (Release \<lparr>release_address = address, release_len = len_bytes,
       perm_from = from_perm, perm_to = to_perm\<rparr>)"

definition sim_release_data :: "u64 \<Rightarrow> Cap \<Rightarrow> Cap \<Rightarrow> bytes \<Rightarrow> (unit, 'm) sim_call" where
  "sim_release_data address from_perm to_perm d =
     sim_perform expect_unit (ReleaseData \<lparr>rd_release = \<lparr>release_address = address,
       release_len = of_nat (length d), perm_from = from_perm, perm_to = to_perm\<rparr>, rd_data = d\<rparr>)"

definition sim_acquire_perm :: "u64 \<Rightarrow> usize \<Rightarrow> Grow \<Rightarrow> (unit, 'm) sim_call" where
  "sim_acquire_perm address len_bytes perm =
     sim_perform expect_unit (AcquirePerm \<lparr>perm_address = address, perm_len = len_bytes, perm_permissions = perm\<rparr>)"

definition sim_acquire_block :: "u64 \<Rightarrow> usize \<Rightarrow> Grow \<Rightarrow> (bytes, 'm) sim_call" where
  "sim_acquire_block address len_bytes perm =
     sim_perform expect_data (AcquireBlock \<lparr>perm_address = address, perm_len = len_bytes, perm_permissions = perm\<rparr>)"

definition sim_write_partial :: "u64 \<Rightarrow> bytes \<Rightarrow> (unit, 'm) sim_call" where
  "sim_write_partial address d =
     sim_perform expect_unit (WritePartial \<lparr>partial_address = address, partial_data = d\<rparr>)"

section \<open>Tick, close and flits\<close>

definition sim_tick_once :: "'m modular \<Rightarrow> pnet \<Rightarrow> instant \<Rightarrow> 'm Sim \<Rightarrow> 'm Sim outcome" where
  "sim_tick_once L P now s =
     and_then (tick L P now (sim_tick s) (sim_operations s) (sim_connection s) (sim_cache s))
       (\<lambda>(t, ops, c, ca). Returns (s\<lparr>sim_ticks := sim_ticks s + 1, sim_tick := t, sim_operations := ops,
         sim_connection := c, sim_cache := ca\<rparr>))"

definition responses_outstanding :: "'m Sim \<Rightarrow> bool" where
  "responses_outstanding s \<longleftrightarrow> num_outstanding (sim_operations s) \<noteq> 0"

datatype sim_close_phase = Sc_start | Sc_responses | Sc_connection close_phase | Sc_flits

text \<open>A poll returns the phase in which the call waits, or \<open>None\<close> when it returns.\<close>

definition sc_flits :: "'m Sim \<Rightarrow> (sim_close_phase option \<times> 'm Sim) outcome" where
  "sc_flits s = Returns (if sim_packet_cur s \<noteq> [] then Some Sc_flits else None, s)"

definition sc_connection ::
    "'m modular \<Rightarrow> instant \<Rightarrow> close_phase \<Rightarrow> 'm Sim \<Rightarrow> (sim_close_phase option \<times> 'm Sim) outcome" where
  "sc_connection L now ph s =
     (let (x, c) = close_connection L None now ph (sim_connection s);
          s = s\<lparr>sim_connection := c\<rparr>
      in case x of
           Inl ph \<Rightarrow> Returns (Some (Sc_connection ph), s)
         | Inr (Err _) \<Rightarrow> Panics UnwrapOnErr
         | Inr (Ok _) \<Rightarrow> sc_flits (s\<lparr>connection_closed := True\<rparr>))"

definition sc_responses :: "'m modular \<Rightarrow> instant \<Rightarrow> 'm Sim \<Rightarrow> (sim_close_phase option \<times> 'm Sim) outcome" where
  "sc_responses L now s =
     (if responses_outstanding s then Returns (Some Sc_responses, s) else sc_connection L now Close_start s)"

fun sim_close_connection ::
    "'m modular \<Rightarrow> instant \<Rightarrow> sim_close_phase \<Rightarrow> 'm Sim \<Rightarrow> (sim_close_phase option \<times> 'm Sim) outcome" where
  "sim_close_connection L now Sc_start s =
     (if sim_compat_mode s then Returns (None, s) else sc_responses L now (s\<lparr>connection_closing := True\<rparr>))"
| "sim_close_connection L now Sc_responses s = sc_responses L now s"
| "sim_close_connection L now (Sc_connection ph) s = sc_connection L now ph s"
| "sim_close_connection L now Sc_flits s = sc_flits s"

definition sim_next_flit :: "pnet \<Rightarrow> instant \<Rightarrow> 'm Sim \<Rightarrow> (flit option \<times> 'm Sim) outcome" where
  "sim_next_flit P now s =
     (if sim_packet_cur s = [] \<and> connection_closed s then Returns (None, s)
      else case sim_packet_cur s of
        x # rest \<Rightarrow> Returns (Some (emit x rest (sim_packet_cur_mask s)), s\<lparr>sim_packet_cur := rest\<rparr>)
      | [] \<Rightarrow>
          (case get_packet now (sim_connection s) of
             (None, c) \<Rightarrow> Returns (None, s\<lparr>sim_connection := c\<rparr>)
           | (Some x, c) \<Rightarrow>
               let s = s\<lparr>sim_connection := c, sim_packet_cur := chunkize_packet x,
                         sim_packet_cur_mask := last_mask (length x)\<rparr>
               in if \<not> eth_new P x then Panics UnwrapOnNone
                  else if \<not> ox_new P (eth_payload P x) then Panics UnwrapOnNone
                  else (case sim_packet_cur s of
                     f # rest \<Rightarrow> Returns (Some (emit f rest (sim_packet_cur_mask s)), s\<lparr>sim_packet_cur := rest\<rparr>)
                   | [] \<Rightarrow> Panics NoFlits)))"

text \<open>A packet that is refused is only logged. \<open>None\<close>: the parser does not end.\<close>

definition sim_receive :: "'m modular \<Rightarrow> pnet \<Rightarrow> instant \<Rightarrow> bytes \<Rightarrow> 'm Sim \<Rightarrow> 'm Sim outcome option" where
  "sim_receive L P now p s =
     map_option (\<lambda>m. and_then m (\<lambda>(r, c, ca, ops).
       Returns (s\<lparr>sim_connection := c, sim_cache := ca, sim_operations := ops\<rparr>)))
       (process_packet L P now p (sim_connection s) (sim_cache s) (sim_operations s))"

definition sim_push_flit ::
    "'m modular \<Rightarrow> pnet \<Rightarrow> instant \<Rightarrow> 'm Sim \<Rightarrow> u64 \<Rightarrow> bool \<Rightarrow> u8 \<Rightarrow> 'm Sim outcome option" where
  "sim_push_flit L P now s val last_flit msk =
     (let s = s\<lparr>sim_packet_in := sim_packet_in s @ flit_bytes val msk\<rparr> in
      if last_flit then sim_receive L P now (sim_packet_in s) (s\<lparr>sim_packet_in := []\<rparr>)
      else Some (Returns s))"

section \<open>Results have the right type\<close>

fun sim_phase_of :: "TLOperations \<Rightarrow> sim_phase \<Rightarrow> bool" where
  "sim_phase_of oper Sim_start \<longleftrightarrow> True"
| "sim_phase_of oper (Sim_perform ph) \<longleftrightarrow> phase_oper ph = oper"

definition well_typed :: "TLOperations \<Rightarrow> sim_phase + ('v, sim_error) result \<Rightarrow> bool" where
  "well_typed oper x = (case x of Inl ph \<Rightarrow> sim_phase_of oper ph | Inr r \<Rightarrow> r \<noteq> Err WrongReturnType)"

lemma sim_poll_typed:
  assumes "sim_poll ret ph s = Returns (x, s')" "has_return (phase_oper ph)"
    and "\<And>r. result_fits (phase_oper ph) (Inr (Ok r)) \<Longrightarrow> ret r \<noteq> Err WrongReturnType"
  shows "well_typed (phase_oper ph) x"
proof -
  obtain y ops cr where y: "perform ph (sim_operations s) (credits_send (sim_connection s)) = Returns (y, ops, cr)"
    "x = (case y of Inl ph \<Rightarrow> Inl (Sim_perform ph) | Inr (Ok v) \<Rightarrow> Inr (ret v)
      | Inr (Err e) \<Rightarrow> Inr (Err (SimOperations e)))"
    using assms(1) by (auto simp: sim_poll_def elim!: and_then_ReturnsE)
  have "result_fits (phase_oper ph) y" by (rule perform_fits [OF y(1) has_return_phase [OF assms(2)]])
  with assms(3) show ?thesis
    by (auto simp: y(2) well_typed_def split: sum.split result.split)
qed

lemma sim_perform_typed:
  assumes "sim_perform ret oper ph s = Returns (x, s')" "sim_phase_of oper ph" "has_return oper"
    and "\<And>r. result_fits oper (Inr (Ok r)) \<Longrightarrow> ret r \<noteq> Err WrongReturnType"
  shows "well_typed oper x"
proof (cases ph)
  case Sim_start
  with assms show ?thesis using sim_poll_typed [of ret "Get_source oper" _ x s']
    by (auto simp: well_typed_def split: if_splits)
next
  case (Sim_perform q)
  with assms show ?thesis using sim_poll_typed [of ret q s x s'] by simp
qed

text \<open>
  C36. The calls that match on the kind of result always find the one they expect: a read of a length and an
  acquire return bytes, a read of 64 bits returns a word, so the error
  \<^verbatim>\<open>WrongReturnType\<close>, which the code marks as a bug, never occurs.
\<close>

theorem no_wrong_return_type:
  defines "r \<equiv> \<lambda>a n. ReadLen \<lparr>readlen_address = a, readlen_bytes = n\<rparr>"
    and "q \<equiv> \<lambda>a. Read \<lparr>read_address = a\<rparr>"
    and "b \<equiv> \<lambda>a n g. AcquireBlock \<lparr>perm_address = a, perm_len = n, perm_permissions = g\<rparr>"
  shows "(sim_phase_of (r a n) ph \<longrightarrow> sim_read a n ph s = Returns (x, s1) \<longrightarrow> well_typed (r a n) x) \<and>
    (sim_phase_of (q a) ph \<longrightarrow> sim_read_64 a ph s = Returns (y, s2) \<longrightarrow> well_typed (q a) y) \<and>
    (sim_phase_of (b a n g) ph \<longrightarrow> sim_acquire_block a n g ph s = Returns (z, s3) \<longrightarrow> well_typed (b a n g) z)"
  unfolding assms sim_read_def sim_read_64_def sim_acquire_block_def
  by (intro conjI impI) (erule sim_perform_typed, assumption, simp, fastforce)+

definition sample_sim :: "(int \<times> nat) Sim" where
  "sample_sim = sim_new std_modular 0 0 False (MacAddr 2 0 0 0 0 1) (MacAddr 2 0 0 0 0 2)"

lemma sample_sim_acquires:
  "\<exists>s'. sim_acquire_block 64 8 NtoT Sim_start sample_sim =
     Returns (Inl (Sim_perform (Wait_response sample_acquire 0)), s')"
proof -
  have "sim_operations sample_sim = operations_new" "credits_send (sim_connection sample_sim) = credits_new 128"
    "\<not> connection_closing sample_sim"
    by (simp_all add: sample_sim_def sim_new_def conn_new_def)
  with perform_queues [OF sample_acquire_facts] show ?thesis
    by (simp add: sim_acquire_block_def sim_poll_def sample_acquire_def)
qed

theorem no_wrong_return_type_witness:
  "\<exists>z s'. sim_acquire_block 64 8 NtoT Sim_start sample_sim = Returns (z, s') \<and> well_typed sample_acquire z"
proof -
  obtain s' where "sim_acquire_block 64 8 NtoT Sim_start sample_sim =
      Returns (Inl (Sim_perform (Wait_response sample_acquire 0)), s')" using sample_sim_acquires by blast
  with no_wrong_return_type [of 64 8 Sim_start sample_sim] show ?thesis by (fastforce simp: sample_acquire_def)
qed

section \<open>The invariant of an endpoint\<close>

text \<open>The packets that wait to be sent, in the order in which \<^verbatim>\<open>get_packet\<close> takes them.\<close>

definition sim_queue :: "'m Sim \<Rightarrow> bytes list" where
  "sim_queue s = resend_data (sim_connection s) @
     (case packet_data (sim_connection s) of Some p \<Rightarrow> [p] | None \<Rightarrow> [])"

definition sim_inv :: "'m modular \<Rightarrow> pnet \<Rightarrow> 'm Sim \<Rightarrow> bool" where
  "sim_inv L P s \<longleftrightarrow> (\<exists>mine other. endpoint_ok L P mine other (sim_connection s) (sim_cache s))"

lemma sim_inv_mono:
  assumes "sim_inv L P s"
    and "\<And>mine other. endpoint_ok L P mine other (sim_connection s) (sim_cache s) \<Longrightarrow>
      endpoint_ok L P mine other (sim_connection s') (sim_cache s')"
  shows "sim_inv L P s'"
  using assms unfolding sim_inv_def by blast

text \<open>
  The steps of an endpoint: its own calls, polled in any order, and flits and ticks from outside. As for a
  connection, a tick needs room in the window and returned receive credits must fit their field.
\<close>

inductive sim_step :: "'m modular \<Rightarrow> pnet \<Rightarrow> 'm Sim \<Rightarrow> 'm Sim \<Rightarrow> bool" for L P where
  s_establish: "sim_step L P s (sim_establish_connection s)"
| s_data: "sim_perform expect_data oper ph s = Returns (x, s') \<Longrightarrow> sim_step L P s s'"
| s_data64: "sim_perform expect_data64 oper ph s = Returns (x, s') \<Longrightarrow> sim_step L P s s'"
| s_unit: "sim_perform expect_unit oper ph s = Returns (x, s') \<Longrightarrow> sim_step L P s s'"
| s_cached_read: "cached_read aph a s = Returns (x, s') \<Longrightarrow> sim_step L P s s'"
| s_cached_write: "cached_write aph a d s = Returns (x, s') \<Longrightarrow> sim_step L P s s'"
| s_cached_rmw: "cached_rmw aph a f s = Returns (x, s') \<Longrightarrow> sim_step L P s s'"
| s_tick: "\<lbrakk>length (resend_buffer (sim_connection s)) + 1 < 2 ^ 22; sim_tick_once L P now s = Returns s'\<rbrakk>
    \<Longrightarrow> sim_step L P s s'"
| s_close: "sim_close_connection L now cph s = Returns (x, s') \<Longrightarrow> sim_step L P s s'"
| s_next: "sim_next_flit P now s = Returns (x, s') \<Longrightarrow> sim_step L P s s'"
| s_push: "\<lbrakk>sim_push_flit L P now s v l m = Some (Returns s'); credits_small (credits_receive (sim_connection s'))\<rbrakk>
    \<Longrightarrow> sim_step L P s s'"

inductive sim_reachable :: "'m modular \<Rightarrow> pnet \<Rightarrow> 'm Sim \<Rightarrow> bool" for L P where
  sr_new: "sim_reachable L P (sim_new L now i compat0 mine other)"
| sr_step: "\<lbrakk>sim_reachable L P s; sim_step L P s s'\<rbrakk> \<Longrightarrow> sim_reachable L P s'"

lemma sim_put_inv:
  assumes "sim_inv L P s" "length cr = length (credits_send (sim_connection s))"
  shows "sim_inv L P (sim_put s ops cr)"
  using assms by (simp add: sim_inv_def sim_put_def)

lemma sim_inv_update [simp]:
  "sim_inv L P (s\<lparr>sim_operations := ops\<rparr>) = sim_inv L P s"
  "sim_inv L P (s\<lparr>connection_closing := b\<rparr>) = sim_inv L P s"
  "sim_inv L P (s\<lparr>connection_closed := b\<rparr>) = sim_inv L P s"
  by (simp_all add: sim_inv_def)

lemma sim_perform_inv:
  assumes "sim_perform ret oper ph s = Returns (x, s')" "sim_inv L P s"
  shows "sim_inv L P s'"
  using assms
  by (cases ph) (auto simp: sim_poll_def elim!: and_then_ReturnsE split: if_splits
      intro!: sim_put_inv dest: length_perform simp del: perform.simps)

lemma sim_cached_inv:
  assumes "sim_cached f s = Returns (x, s')" "sim_inv L P s"
    and "\<And>y ca' ops' cr'. f (sim_cache s) (sim_operations s) (credits_send (sim_connection s)) = Returns (y, ca', ops', cr')
      \<Longrightarrow> cache_ok (sim_cache s) \<Longrightarrow> length cr' = length (credits_send (sim_connection s)) \<and> cache_ok ca'"
  shows "sim_inv L P s'"
  using assms
  by (auto simp: sim_cached_def sim_inv_def sim_put_def endpoint_ok_def queued_ok_def elim!: and_then_ReturnsE)

lemma cached_inv:
  assumes "sim_inv L P s"
  shows "cached_read ph a s = Returns (x, s') \<Longrightarrow> sim_inv L P s'"
    and "cached_write ph a d s = Returns (y, s') \<Longrightarrow> sim_inv L P s'"
    and "cached_rmw ph a f s = Returns (z, s') \<Longrightarrow> sim_inv L P s'"
  unfolding cached_read_def cached_write_def cached_rmw_def
  by (erule sim_cached_inv [OF _ assms], auto dest: length_cache_access cache_ok_read cache_ok_write cache_ok_rmw)+

context ox_link
begin

lemma sim_inv_tick:
  assumes "sim_tick_once L P now s = Returns s'" "sim_inv L P s"
    and "length (resend_buffer (sim_connection s)) + 1 < 2 ^ 22"
  shows "sim_inv L P s'"
  using assms(2)
  by (rule sim_inv_mono) (use assms in \<open>auto simp: sim_tick_once_def elim!: and_then_ReturnsE dest: endpoint_tick\<close>)

lemma sim_inv_close:
  assumes "sim_close_connection L now ph s = Returns (x, s')" "sim_inv L P s"
  shows "sim_inv L P s'"
proof -
  have sc: "sim_inv L P s'" if "sc_connection L now ph s = Returns (x, s')" "sim_inv L P s" for ph s
    using that(2)
    by (rule sim_inv_mono) (use that in \<open>auto simp: sc_connection_def sc_flits_def case_prod_beta Let_def intro: endpoint_close
        split: sum.splits result.splits\<close>)
  have "sim_inv L P s'" if "sc_responses L now s = Returns (x, s')" "sim_inv L P s" for s
    using that by (auto simp: sc_responses_def split: if_splits intro: sc)
  with sc assms show ?thesis
    by (cases ph) (auto simp: sc_flits_def split: if_splits)
qed

lemma sim_inv_next:
  assumes "sim_next_flit P now s = Returns (x, s')" "sim_inv L P s"
  shows "sim_inv L P s'"
proof -
  obtain r c where g: "get_packet now (sim_connection s) = (r, c)" by fastforce
  from assms(2) show ?thesis
    by (rule sim_inv_mono) (use assms(1) g in \<open>auto simp: sim_next_flit_def Let_def dest: endpoint_get_packet
        split: if_splits list.splits option.splits\<close>)
qed

lemma sim_inv_receive:
  assumes "sim_receive L P now p s = Some (Returns s')" "sim_inv L P s"
    and "credits_small (credits_receive (sim_connection s'))"
  shows "sim_inv L P s'"
  using assms(2)
  by (rule sim_inv_mono) (use assms in \<open>auto simp: sim_receive_def elim!: and_then_ReturnsE intro: endpoint_process_packet\<close>)

lemma sim_inv_push:
  assumes "sim_push_flit L P now s v l m = Some (Returns s')" "sim_inv L P s"
    and "credits_small (credits_receive (sim_connection s'))"
  shows "sim_inv L P s'"
proof (cases l)
  case True
  then have "sim_receive L P now (sim_packet_in s @ flit_bytes v m) (s\<lparr>sim_packet_in := []\<rparr>) = Some (Returns s')"
    using assms(1) by (simp add: sim_push_flit_def)
  then show ?thesis by (rule sim_inv_receive) (use assms(2,3) in \<open>simp_all add: sim_inv_def\<close>)
next
  case False
  with assms(1) have "s' = s\<lparr>sim_packet_in := sim_packet_in s @ flit_bytes v m\<rparr>" by (auto simp: sim_push_flit_def)
  with assms(2) show ?thesis by (simp add: sim_inv_def)
qed

lemma sim_inv_step: "sim_step L P s s' \<Longrightarrow> sim_inv L P s \<Longrightarrow> sim_inv L P s'"
proof (induction rule: sim_step.induct)
  case (s_establish s)
  then show ?case
    by (auto simp: sim_establish_connection_def sim_inv_def intro: endpoint_establish)
qed (auto intro: sim_perform_inv cached_inv sim_inv_tick sim_inv_close sim_inv_next sim_inv_push)

lemma sim_inv_new: "sim_inv L P (sim_new L now i compat0 mine other)"
  by (auto simp: sim_inv_def sim_new_def intro: endpoint_new)

lemma sim_reachable_inv: "sim_reachable L P s \<Longrightarrow> sim_inv L P s"
  by (induction rule: sim_reachable.induct) (auto intro: sim_inv_new sim_inv_step)

end

end
