(* ===== verification/Sim_Link.thy ===== *)
theory Sim_Link
  imports Sim
begin

text \<open>
  The flit interface of \<^verbatim>\<open>rust_sim/src/sim.rs\<close> and the end of a connection: \<^verbatim>\<open>next_flit\<close> satisfies
  the contract of a flit source, flits pushed into another endpoint act as the packets they make up, and
  what \<^verbatim>\<open>close_connection\<close> allows afterwards.
\<close>

section \<open>Taking flits out\<close>

definition sim_ready :: "'m Sim \<Rightarrow> bool" where
  "sim_ready s \<longleftrightarrow> \<not> connection_closed s \<and> (\<forall>p \<in> set (sim_queue s). 22 \<le> length p)"

definition sim_cur :: "'m Sim \<Rightarrow> flit list" where
  "sim_cur s = mark_last (sim_packet_cur_mask s) (sim_packet_cur s)"

lemma get_packet_queue:
  "(case sim_queue s of
      [] \<Rightarrow> get_packet now (sim_connection s) = (None, sim_connection s)
    | p # ps \<Rightarrow> \<exists>c. get_packet now (sim_connection s) = (Some p, c) \<and>
        (resend_data c @ (case packet_data c of Some p \<Rightarrow> [p] | None \<Rightarrow> []) = ps))"
  by (auto simp: sim_queue_def get_packet_def split: list.splits option.splits)

context pnet_laws
begin

lemma sim_next_load:
  assumes "sim_ready s" "sim_packet_cur s = []" "sim_queue s = p # ps"
  shows "\<exists>s'. sim_next_flit P now s = Returns (Some (hd (flits_of p)), s') \<and> sim_ready s' \<and>
    sim_cur s' = tl (flits_of p) \<and> sim_queue s' = ps"
proof -
  have p: "22 \<le> length p" "\<not> connection_closed s" using assms by (auto simp: sim_ready_def)
  then have "flits_of p \<noteq> []" by auto
  then obtain f rest where f: "chunkize_packet p = f # rest"
    by (cases "chunkize_packet p") (auto simp: flits_of_def)
  obtain c where c: "get_packet now (sim_connection s) = (Some p, c)"
      "resend_data c @ (case packet_data c of Some p \<Rightarrow> [p] | None \<Rightarrow> []) = ps"
    using get_packet_queue [where s = s and now = now] assms(3) by auto
  have wf: "eth_new P p" "ox_new P (eth_payload P p)" using p by (simp_all add: eth_new_iff ox_new_iff eth_payload_is)
  let ?s = "s\<lparr>sim_connection := c, sim_packet_cur := rest, sim_packet_cur_mask := last_mask (length p)\<rparr>"
  have "sim_next_flit P now s = Returns (Some (emit f rest (last_mask (length p))), ?s)"
    using assms(2) p c wf f by (simp add: sim_next_flit_def)
  moreover have "sim_queue ?s = ps" using c(2) by (simp add: sim_queue_def)
  moreover have "sim_ready ?s" using assms(1,3) calculation(2) by (simp add: sim_ready_def)
  ultimately show ?thesis by (auto simp: flits_of_def f sim_cur_def)
qed

end

sublocale pnet_laws \<subseteq> si: flit_source "sim_next_flit P now" sim_ready sim_cur sim_queue for now
proof
  fix s :: "'m Sim" and f fs
  assume r: "sim_ready s"
  show "[] \<notin> set (sim_queue s)" using r by (auto simp: sim_ready_def)
  show "well_marked (sim_cur s)" by (simp add: sim_cur_def)
  assume c: "sim_cur s = f # fs"
  then obtain x rest where "sim_packet_cur s = x # rest" by (cases "sim_packet_cur s") (auto simp: sim_cur_def)
  with c r show "\<exists>s'. sim_next_flit P now s = Returns (Some f, s') \<and> sim_ready s' \<and> sim_cur s' = fs \<and>
      sim_queue s' = sim_queue s"
    by (auto simp: sim_next_flit_def sim_cur_def sim_ready_def sim_queue_def)
next
  fix s :: "'m Sim" and p ps
  assume "sim_ready s" "sim_cur s = []" "sim_queue s = p # ps"
  then show "\<exists>s'. sim_next_flit P now s = Returns (Some (hd (flits_of p)), s') \<and> sim_ready s' \<and>
      sim_cur s' = tl (flits_of p) \<and> sim_queue s' = ps"
    by (intro sim_next_load) (auto simp: sim_cur_def)
next
  fix s :: "'m Sim"
  assume "sim_ready s" "sim_cur s = []" "sim_queue s = []"
  then show "sim_next_flit P now s = Returns (None, s)"
    using get_packet_queue [where s = s and now = now] by (simp add: sim_next_flit_def sim_cur_def)
qed

section \<open>Pushing flits in\<close>

fun bind_run :: "'a outcome option \<Rightarrow> ('a \<Rightarrow> 'b outcome option) \<Rightarrow> 'b outcome option" where
  "bind_run None f = None"
| "bind_run (Some (Returns x)) f = f x"
| "bind_run (Some (Panics p)) f = Some (Panics p)"
| "bind_run (Some Waits) f = Some Waits"

fun sim_push_flits :: "'m modular \<Rightarrow> pnet \<Rightarrow> instant \<Rightarrow> flit list \<Rightarrow> 'm Sim \<Rightarrow> 'm Sim outcome option" where
  "sim_push_flits L P now [] s = Some (Returns s)"
| "sim_push_flits L P now ((v, l, m) # fs) s =
     bind_run (sim_push_flit L P now s v l m) (sim_push_flits L P now fs)"

fun sim_receive_all :: "'m modular \<Rightarrow> pnet \<Rightarrow> instant \<Rightarrow> bytes list \<Rightarrow> 'm Sim \<Rightarrow> 'm Sim outcome option" where
  "sim_receive_all L P now [] s = Some (Returns s)"
| "sim_receive_all L P now (p # ps) s = bind_run (sim_receive L P now p s) (sim_receive_all L P now ps)"

lemma push_packet:
  assumes "well_marked fs" "fs \<noteq> []"
  shows "sim_push_flits L P now (fs @ gs) s =
    bind_run (sim_receive L P now (sim_packet_in s @ bytes_of fs) (s\<lparr>sim_packet_in := []\<rparr>)) (sim_push_flits L P now gs)"
  using assms
proof (induction fs arbitrary: s)
  case (Cons f fs)
  obtain v l m where f: "f = (v, l, m)" by (cases f)
  show ?case
  proof (cases "fs = []")
    case True
    with Cons.prems f show ?thesis by (simp add: sim_push_flit_def)
  next
    case False
    with Cons.prems f have "\<not> l" "well_marked fs" by simp_all
    with Cons.IH [OF this(2) False] f show ?thesis by (simp add: sim_push_flit_def)
  qed
qed simp

lemma bind_run_cong:
  "(\<And>x. m = Some (Returns x) \<Longrightarrow> f x = g x) \<Longrightarrow> bind_run m f = bind_run m g"
  by (cases "(m, f)" rule: bind_run.cases) auto

lemma sim_receive_packet_in:
  "sim_receive L P now p s = Some (Returns s') \<Longrightarrow> sim_packet_in s' = sim_packet_in s"
  by (auto simp: sim_receive_def elim!: and_then_ReturnsE)

lemma push_packets:
  assumes "[] \<notin> set ps" "sim_packet_in s = []"
  shows "sim_push_flits L P now (concat (map flits_of ps)) s = sim_receive_all L P now ps s"
  using assms
proof (induction ps arbitrary: s)
  case (Cons p ps)
  then have p: "flits_of p \<noteq> []" "s\<lparr>sim_packet_in := []\<rparr> = s" by auto
  show ?case
    using push_packet [OF well_marked_flits_of p(1), of L P now "concat (map flits_of ps)" s] Cons p(2)
    by (auto simp: bytes_of_flits_of sim_receive_packet_in intro!: bind_run_cong)
qed simp

context pnet_laws
begin

lemma take_sim_flits:
  assumes "sim_ready a" "sim_packet_cur a = []" "(\<Sum>p \<leftarrow> sim_queue a. length (flits_of p)) \<le> n"
  shows "\<exists>a'. take_flits (sim_next_flit P now) n a = Returns (concat (map flits_of (sim_queue a)), a')"
proof -
  have cur: "sim_cur a = []" using assms(2) by (simp add: sim_cur_def)
  have "si.left a \<le> n" using assms(3) cur by (simp add: si.left_def)
  from si.take_all_flits [OF assms(1) this] cur show ?thesis by simp
qed

end

text \<open>
  C20. Two endpoints connected flit by flit behave as if they exchanged whole packets: all flits that one
  endpoint has to send, pushed one after the other into the other one, have exactly the effect of
  processing its packets there, first those of a retransmission and then the new one.
\<close>

theorem flits_act_as_packets:
  assumes "pnet_laws P" and "sim_ready a" and "sim_packet_cur a = []" and "sim_packet_in b = []"
    and "(\<Sum>p \<leftarrow> sim_queue a. length (flits_of p)) \<le> n"
  shows "\<exists>fs a'. take_flits (sim_next_flit P now) n a = Returns (fs, a') \<and>
    sim_push_flits L P now' fs b = sim_receive_all L P now'
      (resend_data (sim_connection a) @ (case packet_data (sim_connection a) of Some p \<Rightarrow> [p] | None \<Rightarrow> [])) b"
proof -
  have "[] \<notin> set (sim_queue a)" using assms(2) by (auto simp: sim_ready_def)
  from push_packets [OF this assms(4), of L P now'] pnet_laws.take_sim_flits [OF assms(1,2,3,5), of now]
  show ?thesis by (auto simp: sim_queue_def)
qed

definition sending_sim :: "(int \<times> nat) Sim" where
  "sending_sim = sample_sim\<lparr>sim_connection := sample_sent\<rparr>"

lemma sending_sim_ready:
  "sim_ready sending_sim" "sim_packet_cur sending_sim = []" "\<exists>p. sim_queue sending_sim = [p]"
proof -
  obtain frame where f: "sample_sent = sent_state std_modular sample_conn False frame"
    "frame_for std_modular std_pnet sample_conn False (body_of [] @ u64_to_be_bytes 0) frame"
    using sample_sent_frame by blast
  have "packet_data sample_sent = Some frame" unfolding f(1) by (simp add: sent_state_def)
  then have q: "sim_queue sending_sim = [frame]"
    using sample_sent_fields(2) by (simp add: sim_queue_def sending_sim_def)
  then show "\<exists>p. sim_queue sending_sim = [p]" by blast
  show "sim_packet_cur sending_sim = []" by (simp add: sending_sim_def sample_sim_def sim_new_def)
  show "sim_ready sending_sim"
    using q f(2) by (simp add: sim_ready_def frame_for_def) (simp add: sending_sim_def sample_sim_def sim_new_def)
qed

theorem flits_act_as_packets_witness:
  "\<exists>n fs a' p. take_flits (sim_next_flit std_pnet 0) n sending_sim = Returns (fs, a') \<and>
     sim_push_flits std_modular std_pnet 0 fs sample_sim = sim_receive_all std_modular std_pnet 0 [p] sample_sim"
proof -
  have b: "sim_packet_in sample_sim = []" by (simp add: sample_sim_def sim_new_def)
  obtain p where "sim_queue sending_sim = [p]" using sending_sim_ready(3) by blast
  with flits_act_as_packets [OF sp.pnet_laws_axioms sending_sim_ready(1,2) b order_refl, of 0 std_modular 0]
  show ?thesis unfolding sim_queue_def by auto
qed

section \<open>No panic on the way out\<close>

context ox_link
begin

lemma sim_next_returns:
  assumes "sim_inv L P s"
  shows "\<exists>x s'. sim_next_flit P now s = Returns (x, s')"
proof (cases "connection_closed s")
  case True
  then show ?thesis by (auto simp: sim_next_flit_def split: list.split)
next
  case False
  have "\<forall>p \<in> set (sim_queue s). 22 \<le> length p"
  proof
    fix p assume "p \<in> set (sim_queue s)"
    then have "70 \<le> length p"
      using assms by (auto simp: sim_inv_def endpoint_ok_def queued_ok_def frame_to_def sim_queue_def split: option.splits)
    then show "22 \<le> length p" by simp
  qed
  with False have r: "sim_ready s" by (simp add: sim_ready_def)
  consider f fs where "sim_cur s = f # fs" | "sim_cur s = []" "sim_queue s = []"
    | p ps where "sim_cur s = []" "sim_queue s = p # ps"
    by (metis list.exhaust)
  then show ?thesis
    using si.next_cur [OF r] si.next_load [OF r] si.next_idle [OF r] by cases blast+
qed

end

text \<open>
  C7. In every state an endpoint can reach by any sequence of its calls, ticks and flits, the connection's
  window and numbers are consistent, only trunk lines of the cache are dirty, and \<^verbatim>\<open>next_flit\<close>
  returns: none of its two unwraps and its expect fails.
\<close>

theorem endpoint_invariant:
  assumes "ox_link L P" and "sim_reachable L P s"
  shows "conn_inv L P (sim_connection s) \<and> cache_ok (sim_cache s) \<and>
    (\<exists>x s'. sim_next_flit P now s = Returns (x, s'))"
  using ox_link.sim_reachable_inv [OF assms] ox_link.sim_next_returns [OF assms(1)]
  by (auto simp: sim_inv_def endpoint_ok_def)

theorem endpoint_invariant_witness:
  "\<exists>x s'. sim_next_flit std_pnet 5 (sim_establish_connection sample_sim) = Returns (x, s')"
proof -
  have "sim_reachable std_modular std_pnet (sim_establish_connection sample_sim)"
    unfolding sample_sim_def by (intro sr_step [OF sr_new s_establish])
  from endpoint_invariant [OF lk.ox_link_axioms this] show ?thesis by blast
qed

section \<open>Closing\<close>

lemma closing_kept: "sim_step L P s s' \<Longrightarrow> connection_closing s \<Longrightarrow> connection_closing s'"
proof (induction rule: sim_step.induct)
  case (s_close now cph s x s')
  have sc: "connection_closing s'" if "sc_connection L now ph s = Returns (x, s')" "connection_closing s" for ph s
    using that by (auto simp: sc_connection_def sc_flits_def case_prod_beta Let_def split: sum.splits result.splits)
  have "connection_closing s'" if "sc_responses L now s = Returns (x, s')" "connection_closing s" for s
    using that by (auto simp: sc_responses_def split: if_splits intro: sc)
  with sc s_close show ?case by (cases cph) (auto simp: sc_flits_def split: if_splits)
next
  case (s_data oper ph s x s')
  then show ?case by (cases ph) (auto simp: sim_poll_def sim_put_def elim!: and_then_ReturnsE)
next
  case (s_data64 oper ph s x s')
  then show ?case by (cases ph) (auto simp: sim_poll_def sim_put_def elim!: and_then_ReturnsE)
next
  case (s_unit oper ph s x s')
  then show ?case by (cases ph) (auto simp: sim_poll_def sim_put_def elim!: and_then_ReturnsE)
qed (auto simp: sim_establish_connection_def cached_read_def cached_write_def cached_rmw_def sim_cached_def
    sim_put_def sim_tick_once_def sim_next_flit_def sim_push_flit_def sim_receive_def Let_def
    elim!: and_then_ReturnsE split: if_splits list.splits prod.splits option.splits)

text \<open>
  Once \<^verbatim>\<open>close_connection\<close> has begun, and whatever the endpoint does after that, no uncached operation is
  started any more: each of the nine calls returns the error \<^verbatim>\<open>ConnectionClosing\<close> at once and changes nothing.
\<close>

lemma closing_refuses_operations:
  assumes "connection_closing s" and "(sim_step L P)\<^sup>*\<^sup>* s t"
  shows "sim_read a n Sim_start t = Returns (Inr (Err ConnectionClosing), t) \<and>
    sim_read_64 a Sim_start t = Returns (Inr (Err ConnectionClosing), t) \<and>
    sim_write a d Sim_start t = Returns (Inr (Err ConnectionClosing), t) \<and>
    sim_write_64 a w Sim_start t = Returns (Inr (Err ConnectionClosing), t) \<and>
    sim_write_partial a d Sim_start t = Returns (Inr (Err ConnectionClosing), t) \<and>
    sim_release a from_perm to_perm n Sim_start t = Returns (Inr (Err ConnectionClosing), t) \<and>
    sim_release_data a from_perm to_perm d Sim_start t = Returns (Inr (Err ConnectionClosing), t) \<and>
    sim_acquire_perm a n g Sim_start t = Returns (Inr (Err ConnectionClosing), t) \<and>
    sim_acquire_block a n g Sim_start t = Returns (Inr (Err ConnectionClosing), t)"
proof -
  have "connection_closing t"
    using assms(2,1) by (induction rule: rtranclp_induct) (auto dest: closing_kept)
  then show ?thesis
    by (simp add: sim_read_def sim_read_64_def sim_write_def sim_write_64_def sim_write_partial_def
        sim_release_def sim_release_data_def sim_acquire_perm_def sim_acquire_block_def)
qed

text \<open>
  Closing an endpoint whose connection was never opened panics: without outstanding operations,
  \<^verbatim>\<open>close_connection\<close> unwraps the error that the connection returns in the states idle and enabled.
\<close>

lemma close_before_open_panics:
  assumes "\<not> sim_compat_mode s" and "num_outstanding (sim_operations s) = 0"
    and "connection_state (sim_connection s) \<in> {Idle, Enabled}"
  shows "sim_close_connection L now Sc_start s = Panics UnwrapOnErr"
  using assms
  by (auto simp: sc_responses_def responses_outstanding_def sc_connection_def close_refused_def)

end
