(* ===== verification/Testcases.thy ===== *)
theory Testcases
  imports Sim_Link
begin

text \<open>
  \<^verbatim>\<open>rust_sim/src/testcases.rs\<close>: the test programs that the simulation runs in a thread of their own. A program is a
  codatatype of calls with what follows each answer, so that a loop that waits is a corecursive function.
  The programs run on an endpoint, one poll per step, or on an ideal memory that answers every call at once, the
  specification of what they test. Log messages are left out, except for the verdicts.
\<close>

section \<open>Programs\<close>

text \<open>
  The calls on the endpoint that \<^verbatim>\<open>get_sim\<close> returns, with their result unwrapped; \<open>C_drop\<close> is \<^verbatim>\<open>*sim.write() = None\<close>,
  \<open>C_stopped\<close> reads the stop flag, \<open>C_random\<close> is \<^verbatim>\<open>rand::random\<close>, \<open>C_verdict\<close> prints whether a check has
  passed and \<open>C_inactive\<close> clears the flag that says the thread is running. \<open>C_read_word\<close> reads eight bytes and converts them.
\<close>

datatype test_call =
    C_establish
  | C_active
  | C_ticks
  | C_cached_read u64
  | C_cached_write u64 u64
  | C_cached_rmw u64 "u64 \<Rightarrow> u64"
  | C_write u64 bytes
  | C_read_word u64
  | C_write_64 u64 u64
  | C_read_64 u64
  | C_close
  | C_drop
  | C_stopped
  | C_random
  | C_verdict bool
  | C_inactive

datatype test_answer = A_none | A_bool bool | A_num u64

codatatype test_prog = Finished | Call test_call "test_answer \<Rightarrow> test_prog"

definition seq :: "test_call \<Rightarrow> test_prog \<Rightarrow> test_prog" where
  "seq c k = Call c (\<lambda>_. k)"

text \<open>\<^verbatim>\<open>while !is_connection_active()\<close> and \<^verbatim>\<open>while cached_read(a) != v\<close>.\<close>

primcorec wait_active :: "test_prog \<Rightarrow> test_prog" where
  "wait_active k = Call C_active (\<lambda>a. if a = A_bool True then k else wait_active k)"

primcorec wait_value :: "u64 \<Rightarrow> u64 \<Rightarrow> test_prog \<Rightarrow> test_prog" where
  "wait_value addr v k = Call (C_cached_read addr) (\<lambda>a. if a = A_num v then k else wait_value addr v k)"

definition finish :: test_prog where
  "finish = seq C_inactive Finished"

definition test_simple :: test_prog where
  "test_simple = seq C_establish (wait_active (seq C_close (seq C_drop finish)))"

text \<open>\<^verbatim>\<open>test_read_write_simple\<close>: 100 iterations, here as the number of those to come.\<close>

fun read_write_loop :: "bool \<Rightarrow> nat \<Rightarrow> test_prog" where
  "read_write_loop compat0 0 = finish"
| "read_write_loop compat0 (Suc n) =
     seq C_establish (seq (C_write_64 0xAB00 0x42) (Call (C_read_64 0xAB00) (\<lambda>v.
       seq (C_verdict (v = A_num 0x42)) (seq C_close
         (if \<not> compat0 then seq C_drop (read_write_loop compat0 n) else read_write_loop compat0 n)))))"

definition test_read_write_simple :: "bool \<Rightarrow> test_prog" where
  "test_read_write_simple compat0 = read_write_loop compat0 100"

text \<open>\<^verbatim>\<open>test_read_and_write\<close>: a random value at a random address in each iteration, unless it is stopped.\<close>

fun num :: "test_answer \<Rightarrow> u64" where
  "num (A_num v) = v"
| "num _ = 0"

fun random_loop :: "nat \<Rightarrow> test_prog" where
  "random_loop 0 = finish"
| "random_loop (Suc n) =
     Call C_stopped (\<lambda>stop.
       if stop = A_bool True then random_loop n
       else seq C_ticks (Call C_random (\<lambda>r. Call C_random (\<lambda>value.
         let address = num r AND NOT 0xF in
         seq C_establish (seq C_ticks (seq (C_write address (u64_to_ne_bytes (num value))) (seq C_ticks
           (seq C_ticks (Call (C_read_word address) (\<lambda>p. seq C_ticks
             (seq (C_verdict (p = value)) (seq C_close (seq C_drop (random_loop n))))))))))))))"

definition test_read_and_write :: test_prog where
  "test_read_and_write = seq C_establish (random_loop 100)"

text \<open>\<^verbatim>\<open>test_tlc\<close>.\<close>

definition address_barrier :: u64 where "address_barrier = 0xCBA0008"

definition address_cmp :: u64 where "address_cmp = 0xCBA0000"

definition success_val :: u64 where "success_val = 0xDEADBEEF"

definition counter_address :: "nat \<Rightarrow> u64" where
  "counter_address i = 0x0ABC0000 + 0x1000 * of_nat (i mod 16)"

fun clear_loop :: "nat list \<Rightarrow> test_prog \<Rightarrow> test_prog" where
  "clear_loop [] k = k"
| "clear_loop (i # is) k = seq (C_cached_write (counter_address i) 0) (clear_loop is k)"

fun count_loop :: "nat list \<Rightarrow> test_prog \<Rightarrow> test_prog" where
  "count_loop [] k = k"
| "count_loop (i # is) k =
     Call C_stopped (\<lambda>stop.
       if stop = A_bool True then k
       else seq C_ticks (seq (C_cached_rmw (counter_address i) (\<lambda>x. x + 1)) (count_loop is k)))"

definition test_tlc :: "bool \<Rightarrow> test_prog" where
  "test_tlc coordinator =
     (let announce = (if coordinator then
            seq C_establish (seq (C_cached_write address_cmp success_val) (seq C_close (seq C_drop finish)))
          else finish);
          wind_down = seq (C_cached_rmw address_barrier (\<lambda>x. x - 1))
            (wait_value address_barrier 0 (seq C_close (seq C_drop announce)));
          counting = count_loop [0..<50] wind_down
      in seq C_establish
           (if coordinator then seq (C_cached_write address_barrier 1) (clear_loop [0..<16] counting)
            else wait_value address_cmp success_val (seq (C_cached_rmw address_barrier (\<lambda>x. x + 1)) counting)))"

section \<open>Running a program on an endpoint\<close>

datatype test_phase =
    P_start
  | P_op sim_phase
  | P_access access_phase
  | P_close sim_close_phase

record test_thread =
  th_prog :: test_prog
  th_phase :: test_phase
  th_verdicts :: "bool list"
  th_active :: bool

definition thread_new :: "test_prog \<Rightarrow> test_thread" where
  "thread_new p = \<lparr>th_prog = p, th_phase = P_start, th_verdicts = [], th_active = True\<rparr>"

text \<open>\<^verbatim>\<open>get_sim\<close>: the endpoint, made when there is none.\<close>

definition get_sim :: "'m modular \<Rightarrow> instant \<Rightarrow> u8 \<Rightarrow> bool \<Rightarrow> MacAddr \<Rightarrow> MacAddr \<Rightarrow> 'm Sim option \<Rightarrow> 'm Sim" where
  "get_sim L now i compat0 mine other so = (case so of Some s \<Rightarrow> s | None \<Rightarrow> sim_new L now i compat0 mine other)"

definition unwrapped ::
    "('p \<Rightarrow> test_phase) \<Rightarrow> ('v \<Rightarrow> test_answer outcome) \<Rightarrow> (('p + ('v, sim_error) result) \<times> 'm Sim) outcome \<Rightarrow>
     ((test_phase + test_answer) \<times> 'm Sim) outcome" where
  "unwrapped ph f m =
     and_then m (\<lambda>(x, s).
       case x of
         Inl p \<Rightarrow> Returns (Inl (ph p), s)
       | Inr (Ok v) \<Rightarrow> and_then (f v) (\<lambda>a. Returns (Inr a, s))
       | Inr (Err e) \<Rightarrow> Panics UnwrapOnErr)"

definition word_of_bytes :: "bytes \<Rightarrow> test_answer outcome" where
  "word_of_bytes d = (if length d = 8 then Returns (A_num (u64_from_ne_bytes d)) else Panics UnwrapOnErr)"

fun op_phase :: "test_phase \<Rightarrow> sim_phase" where
  "op_phase (P_op ph) = ph"
| "op_phase _ = Sim_start"

fun access_phase :: "test_phase \<Rightarrow> access_phase" where
  "access_phase (P_access ph) = ph"
| "access_phase _ = Access_try"

fun close_phase :: "test_phase \<Rightarrow> sim_close_phase" where
  "close_phase (P_close ph) = ph"
| "close_phase _ = Sc_start"

text \<open>A poll of a call on the endpoint.\<close>

fun poll_sim ::
    "'m modular \<Rightarrow> instant \<Rightarrow> test_call \<Rightarrow> test_phase \<Rightarrow> 'm Sim \<Rightarrow> ((test_phase + test_answer) \<times> 'm Sim) outcome" where
  "poll_sim L now C_establish ph s = Returns (Inr A_none, sim_establish_connection s)"
| "poll_sim L now C_active ph s = Returns (Inr (A_bool (is_connection_active s)), s)"
| "poll_sim L now C_ticks ph s = Returns (Inr (A_num (sim_ticks s)), s)"
| "poll_sim L now (C_cached_read a) ph s =
     unwrapped P_access (\<lambda>v. Returns (A_num v)) (cached_read (access_phase ph) a s)"
| "poll_sim L now (C_cached_write a d) ph s =
     unwrapped P_access (\<lambda>_. Returns A_none) (cached_write (access_phase ph) a d s)"
| "poll_sim L now (C_cached_rmw a f) ph s =
     unwrapped P_access (\<lambda>v. Returns (A_num v)) (cached_rmw (access_phase ph) a f s)"
| "poll_sim L now (C_write a d) ph s = unwrapped P_op (\<lambda>_. Returns A_none) (sim_write a d (op_phase ph) s)"
| "poll_sim L now (C_read_word a) ph s = unwrapped P_op word_of_bytes (sim_read a 8 (op_phase ph) s)"
| "poll_sim L now (C_write_64 a v) ph s = unwrapped P_op (\<lambda>_. Returns A_none) (sim_write_64 a v (op_phase ph) s)"
| "poll_sim L now (C_read_64 a) ph s = unwrapped P_op (\<lambda>v. Returns (A_num v)) (sim_read_64 a (op_phase ph) s)"
| "poll_sim L now C_close ph s =
     and_then (sim_close_connection L now (close_phase ph) s) (\<lambda>(x, s).
       Returns (case x of Some ph \<Rightarrow> Inl (P_close ph) | None \<Rightarrow> Inr A_none, s))"
| "poll_sim L now _ ph s = Returns (Inr A_none, s)"

text \<open>A step of the thread; \<open>stop\<close> is the flag, \<open>rnd\<close> the next random number.\<close>

definition answer_call :: "test_answer \<Rightarrow> (test_answer \<Rightarrow> test_prog) \<Rightarrow> test_thread \<Rightarrow> test_thread" where
  "answer_call a k th = th\<lparr>th_prog := k a, th_phase := P_start\<rparr>"

definition test_step ::
    "'m modular \<Rightarrow> instant \<Rightarrow> u8 \<Rightarrow> bool \<Rightarrow> MacAddr \<Rightarrow> MacAddr \<Rightarrow> u64 \<Rightarrow> bool \<Rightarrow> test_thread \<times> 'm Sim option \<Rightarrow>
     (test_thread \<times> 'm Sim option) outcome" where
  "test_step L now i compat0 mine other rnd stop = (\<lambda>(th, so).
     case th_prog th of
       Finished \<Rightarrow> Returns (th, so)
     | Call c k \<Rightarrow>
         (case c of
            C_drop \<Rightarrow> Returns (answer_call A_none k th, None)
          | C_stopped \<Rightarrow> Returns (answer_call (A_bool stop) k th, so)
          | C_random \<Rightarrow> Returns (answer_call (A_num rnd) k th, so)
          | C_verdict b \<Rightarrow> Returns (answer_call A_none k (th\<lparr>th_verdicts := th_verdicts th @ [b]\<rparr>), so)
          | C_inactive \<Rightarrow> Returns (answer_call A_none k (th\<lparr>th_active := False\<rparr>), so)
          | _ \<Rightarrow>
              and_then (poll_sim L now c (th_phase th) (get_sim L now i compat0 mine other so)) (\<lambda>(x, s).
                Returns (case x of Inl ph \<Rightarrow> th\<lparr>th_phase := ph\<rparr> | Inr a \<Rightarrow> answer_call a k th, Some s))))"

text \<open>The thread and the simulator, which ticks the endpoint and moves its flits, in any interleaving.\<close>

inductive test_run ::
    "'m modular \<Rightarrow> pnet \<Rightarrow> bool \<Rightarrow> test_prog \<Rightarrow> test_thread \<Rightarrow> 'm Sim option \<Rightarrow> bool" for L P compat0 p where
  te_new: "test_run L P compat0 p (thread_new p) None"
| te_step: "test_run L P compat0 p th so \<Longrightarrow>
    test_step L now i compat0 mine other rnd stop (th, so) = Returns (th', so') \<Longrightarrow> test_run L P compat0 p th' so'"
| te_tick: "test_run L P compat0 p th (Some s) \<Longrightarrow> length (resend_buffer (sim_connection s)) + 1 < 2 ^ 22 \<Longrightarrow>
    sim_tick_once L P now s = Returns s' \<Longrightarrow> test_run L P compat0 p th (Some s')"
| te_next: "test_run L P compat0 p th (Some s) \<Longrightarrow> sim_next_flit P now s = Returns (x, s') \<Longrightarrow>
    test_run L P compat0 p th (Some s')"
| te_push: "test_run L P compat0 p th (Some s) \<Longrightarrow> sim_push_flit L P now s v l m = Some (Returns s') \<Longrightarrow>
    credits_small (credits_receive (sim_connection s')) \<Longrightarrow> test_run L P compat0 p th (Some s')"

section \<open>The programs keep to the protocol\<close>

fun on_sim :: "test_call \<Rightarrow> bool" where
  "on_sim C_drop = False"
| "on_sim C_stopped = False"
| "on_sim C_random = False"
| "on_sim (C_verdict b) = False"
| "on_sim C_inactive = False"
| "on_sim _ = True"

text \<open>Whether the endpoint is usable or closing after a call. In compatibility mode it never closes.\<close>

datatype link = Usable | Closing

fun after_call :: "bool \<Rightarrow> test_call \<Rightarrow> link \<Rightarrow> link" where
  "after_call compat0 C_close b = (if compat0 then b else Closing)"
| "after_call compat0 C_drop b = Usable"
| "after_call compat0 _ b = b"

coinductive obeys :: "bool \<Rightarrow> link \<Rightarrow> test_prog \<Rightarrow> bool" for compat0 where
  ob_finished: "obeys compat0 b Finished"
| ob_call: "\<not> (b = Closing \<and> on_sim c) \<Longrightarrow> \<forall>a. obeys compat0 (after_call compat0 c b) (k a) \<Longrightarrow> obeys compat0 b (Call c k)"

inductive_cases obeys_CallE: "obeys compat0 b (Call c k)"

lemma obeys_seq: "\<not> (b = Closing \<and> on_sim c) \<Longrightarrow> obeys compat0 (after_call compat0 c b) k \<Longrightarrow> obeys compat0 b (seq c k)"
  unfolding seq_def by (rule ob_call) simp_all

lemma obeys_finish [simp]: "obeys compat0 b finish"
  unfolding finish_def by (intro obeys_seq) (simp_all add: ob_finished)

lemma obeys_wait_active: "obeys compat0 Usable k \<Longrightarrow> obeys compat0 Usable (wait_active k)"
proof (coinduction rule: obeys.coinduct)
  case obeys
  then show ?case by (subst wait_active.code) auto
qed

lemma obeys_wait_value: "obeys compat0 Usable k \<Longrightarrow> obeys compat0 Usable (wait_value a v k)"
proof (coinduction rule: obeys.coinduct)
  case obeys
  then show ?case by (subst wait_value.code) auto
qed

lemma obeys_closed: "obeys compat0 Usable k \<Longrightarrow> obeys compat0 Usable (seq C_close (seq C_drop k))"
  by (intro obeys_seq) simp_all

lemma obeys_read_write_loop: "obeys compat0 Usable (read_write_loop compat0 n)"
  by (induction n) (auto intro!: obeys_seq ob_call)

lemma obeys_random_loop: "obeys compat0 Usable (random_loop n)"
  by (induction n) (auto simp: Let_def intro!: obeys_seq ob_call)

lemma obeys_clear_loop: "obeys compat0 Usable k \<Longrightarrow> obeys compat0 Usable (clear_loop is k)"
  by (induction "is") (auto intro!: obeys_seq)

lemma obeys_count_loop: "obeys compat0 Usable k \<Longrightarrow> obeys compat0 Usable (count_loop is k)"
  by (induction "is") (auto intro!: obeys_seq ob_call)

lemma test_programs_obey:
  "obeys compat0 Usable test_simple" "obeys compat0 Usable (test_read_write_simple compat0)"
  "obeys compat0 Usable test_read_and_write" "obeys compat0 Usable (test_tlc coordinator)"
proof -
  show "obeys compat0 Usable test_simple"
    unfolding test_simple_def by (rule obeys_seq) (simp_all add: obeys_wait_active obeys_closed)
  show "obeys compat0 Usable (test_read_write_simple compat0)"
    unfolding test_read_write_simple_def by (rule obeys_read_write_loop)
  show "obeys compat0 Usable test_read_and_write"
    unfolding test_read_and_write_def by (intro obeys_seq) (simp_all add: obeys_random_loop)
  show "obeys compat0 Usable (test_tlc coordinator)"
    unfolding test_tlc_def Let_def
    by (auto intro!: obeys_seq obeys_wait_value obeys_clear_loop obeys_count_loop)
qed

text \<open>A poll is a step of the endpoint, or changes nothing; only \<^verbatim>\<open>close_connection\<close> makes it closing.\<close>

lemma poll_sim_step:
  assumes "poll_sim L now c ph s = Returns (x, s')"
  shows "s' = s \<or> sim_step L P s s'"
proof -
  have u: "\<exists>y. m = Returns (y, s')" if "unwrapped g f m = Returns (x, s')" for g f and m :: "(('p + ('v, sim_error) result) \<times> 'a Sim) outcome"
    using that by (auto simp: unwrapped_def elim!: and_then_ReturnsE split: sum.splits result.splits)
  show ?thesis
    using assms
    by (cases c)
      (auto simp: sim_write_def sim_read_def sim_write_64_def sim_read_64_def elim!: and_then_ReturnsE
        dest!: u intro: sim_step.intros)
qed

definition same_flags :: "'m Sim \<Rightarrow> 'm Sim \<Rightarrow> bool" where
  "same_flags s s' \<longleftrightarrow> sim_compat_mode s' = sim_compat_mode s \<and> connection_closing s' = connection_closing s"

lemma same_flags_perform: "sim_perform ret oper ph s = Returns (x, s') \<Longrightarrow> same_flags s s'"
  by (cases ph) (auto simp: same_flags_def sim_poll_def sim_put_def elim!: and_then_ReturnsE split: if_splits)

lemma same_flags_cached:
  "cached_read ph a s = Returns (x, s') \<Longrightarrow> same_flags s s'"
  "cached_write ph a d s = Returns (y, s') \<Longrightarrow> same_flags s s'"
  "cached_rmw ph a f s = Returns (z, s') \<Longrightarrow> same_flags s s'"
  by (auto simp: same_flags_def cached_read_def cached_write_def cached_rmw_def sim_cached_def sim_put_def elim!: and_then_ReturnsE)

lemma same_flags_link:
  "sim_tick_once L P now s = Returns s' \<Longrightarrow> same_flags s s'"
  "sim_next_flit P now s = Returns (x, s') \<Longrightarrow> same_flags s s'"
  "sim_push_flit L P now s v l m = Some (Returns s') \<Longrightarrow> same_flags s s'"
  by (auto simp: same_flags_def sim_tick_once_def sim_next_flit_def sim_push_flit_def sim_receive_def Let_def
      elim!: and_then_ReturnsE split: if_splits list.splits prod.splits option.splits)

lemma close_flags:
  assumes "sim_close_connection L now ph s = Returns (x, s')"
  shows "sim_compat_mode s' = sim_compat_mode s \<and> (connection_closing s' \<longrightarrow> connection_closing s \<or> \<not> sim_compat_mode s)"
proof -
  have sc: "same_flags s s'" if "sc_connection L now ph s = Returns (x, s')" for ph s
    using that by (auto simp: same_flags_def sc_connection_def sc_flits_def case_prod_beta Let_def split: sum.splits result.splits)
  have "same_flags s s'" if "sc_responses L now s = Returns (x, s')" for s
    using that sc by (auto simp: sc_responses_def same_flags_def split: if_splits)
  with sc assms show ?thesis by (cases ph) (auto simp: sc_flits_def same_flags_def split: if_splits)
qed

lemma poll_sim_flags:
  assumes "poll_sim L now c ph s = Returns (x, s')"
  shows "sim_compat_mode s' = sim_compat_mode s \<and>
    (connection_closing s' \<longrightarrow> connection_closing s \<or> (c = C_close \<and> \<not> sim_compat_mode s))"
proof (cases "c = C_close")
  case True
  with assms show ?thesis by (auto dest!: close_flags elim!: and_then_ReturnsE)
next
  case False
  have u: "\<exists>y. m = Returns (y, s')" if "unwrapped g f m = Returns (x, s')" for g f and m :: "(('p + ('v, sim_error) result) \<times> 'a Sim) outcome"
    using that by (auto simp: unwrapped_def elim!: and_then_ReturnsE split: sum.splits result.splits)
  have "same_flags s s'"
    using assms False
    by (cases c) (auto simp: sim_write_def sim_read_def sim_write_64_def sim_read_64_def
        dest!: u dest: same_flags_cached same_flags_perform, auto simp: same_flags_def sim_establish_connection_def)
  then show ?thesis by (simp add: same_flags_def)
qed

definition test_inv :: "'m modular \<Rightarrow> pnet \<Rightarrow> bool \<Rightarrow> test_thread \<Rightarrow> 'm Sim option \<Rightarrow> bool" where
  "test_inv L P compat0 th so \<longleftrightarrow>
     (\<exists>b. obeys compat0 b (th_prog th) \<and>
       (\<forall>s. so = Some s \<longrightarrow> sim_inv L P s \<and> sim_compat_mode s = compat0 \<and>
         (connection_closing s \<longrightarrow> b = Closing \<or> (\<not> compat0 \<and> (\<exists>k. th_prog th = Call C_close k)))))"

lemma test_inv_link:
  assumes "test_inv L P compat0 th (Some s)" "sim_inv L P s'" "same_flags s s'"
  shows "test_inv L P compat0 th (Some s')"
  using assms by (auto simp: test_inv_def same_flags_def)

context ox_link
begin

lemma test_inv_step:
  assumes "test_step L now i compat0 mine other rnd stop (th, so) = Returns (th', so')" "test_inv L P compat0 th so"
  shows "test_inv L P compat0 th' so'"
proof (cases "th_prog th")
  case Finished
  with assms show ?thesis by (simp add: test_step_def)
next
  case (Call c k)
  obtain b where b: "obeys compat0 b (Call c k)"
    and so: "\<And>s. so = Some s \<Longrightarrow> sim_inv L P s \<and> sim_compat_mode s = compat0 \<and> (connection_closing s \<longrightarrow> b = Closing \<or> (\<not> compat0 \<and> c = C_close))"
    using assms(2) Call by (auto simp: test_inv_def)
  from b have ob: "\<not> (b = Closing \<and> on_sim c)" "\<And>a. obeys compat0 (after_call compat0 c b) (k a)" by (auto elim: obeys_CallE)
  show ?thesis
  proof (cases "on_sim c")
    case False
    with assms(1) Call ob(2) so show ?thesis
      unfolding test_inv_def
      by (intro exI [of _ "after_call compat0 c b"]) (cases c; auto simp: test_step_def answer_call_def)
  next
    case True
    let ?s = "get_sim L now i compat0 mine other so"
    have s: "sim_inv L P ?s" "sim_compat_mode ?s = compat0" "connection_closing ?s \<longrightarrow> \<not> compat0 \<and> c = C_close"
      using so ob(1) True by (cases so; simp add: get_sim_def sim_inv_new; simp add: sim_new_def)+
    have "test_step L now i compat0 mine other rnd stop (th, so) = and_then (poll_sim L now c (th_phase th) ?s) (\<lambda>(x, s).
        Returns (case x of Inl ph \<Rightarrow> th\<lparr>th_phase := ph\<rparr> | Inr a \<Rightarrow> answer_call a k th, Some s))"
      using True Call by (cases c) (simp_all add: test_step_def del: poll_sim.simps)
    with assms(1) obtain x s' where p: "poll_sim L now c (th_phase th) ?s = Returns (x, s')" "so' = Some s'"
        "th' = (case x of Inl ph \<Rightarrow> th\<lparr>th_phase := ph\<rparr> | Inr a \<Rightarrow> answer_call a k th)"
      by (auto elim!: and_then_ReturnsE)
    have i: "sim_inv L P s'" using poll_sim_step [OF p(1), of P] s(1) sim_inv_step by auto
    note f = poll_sim_flags [OF p(1)]
    show ?thesis
    proof (cases x)
      case (Inl ph)
      with p(2,3) i f s Call b show ?thesis unfolding test_inv_def by (intro exI [of _ b]) auto
    next
      case (Inr a)
      then have "th_prog th' = k a" using p(3) by (simp add: answer_call_def)
      moreover have "b = Usable" using ob(1) True by (cases b) auto
      moreover have "connection_closing s' \<longrightarrow> \<not> compat0 \<and> c = C_close" using f s(2,3) by auto
      ultimately show ?thesis
        using p(2) i f s(2) ob(2) [of a] unfolding test_inv_def by (intro exI [of _ "after_call compat0 c b"]) auto
    qed
  qed
qed

lemma test_run_inv: "test_run L P compat0 p th so \<Longrightarrow> obeys compat0 Usable p \<Longrightarrow> test_inv L P compat0 th so"
proof (induction rule: test_run.induct)
  case te_new
  then show ?case by (auto simp: test_inv_def thread_new_def)
next
  case (te_step th so now i mine other rnd stop th' so')
  then show ?case using test_inv_step by blast
next
  case (te_tick th s now s')
  then show ?case using test_inv_link same_flags_link(1) sim_inv_tick by (metis test_inv_def)
next
  case (te_next th s now x s')
  then show ?case using test_inv_link same_flags_link(2) sim_inv_next by (metis test_inv_def)
next
  case (te_push th s now v l m s')
  then show ?case using test_inv_link same_flags_link(3) sim_inv_push by (metis test_inv_def)
qed

end

definition test_programs :: "bool \<Rightarrow> test_prog set" where
  "test_programs compat0 =
     {test_simple, test_read_write_simple compat0, test_read_and_write, test_tlc True, test_tlc False}"

text \<open>
  C22. Whatever the simulator does in between, the endpoint of a test program satisfies its invariant, and the program
  never calls an operation on an endpoint that is closing: each of the four programs drops a closed endpoint before
  it goes on, so none of its unwraps can fail with \<^verbatim>\<open>ConnectionClosing\<close>.
\<close>

theorem tests_keep_protocol:
  assumes "ox_link L P" and "p \<in> test_programs compat0" and "test_run L P compat0 p th (Some s)"
  shows "sim_inv L P s \<and> (\<forall>c k. th_prog th = Call c k \<longrightarrow> on_sim c \<longrightarrow> c \<noteq> C_close \<longrightarrow> \<not> connection_closing s)"
proof -
  have "obeys compat0 Usable p" using assms(2) test_programs_obey by (auto simp: test_programs_def)
  from ox_link.test_run_inv [OF assms(1,3) this] show ?thesis
    by (auto simp: test_inv_def elim: obeys_CallE)
qed

text \<open>The simple program after its first step, with the endpoint it has made.\<close>

definition sample_thread :: test_thread where
  "sample_thread = (thread_new test_simple)\<lparr>th_prog := wait_active (seq C_close (seq C_drop finish))\<rparr>"

theorem tests_keep_protocol_witness:
  "\<exists>s. test_run std_modular std_pnet False test_simple sample_thread (Some s) \<and> sim_inv std_modular std_pnet s \<and> \<not> connection_closing s"
proof -
  let ?s = "sim_establish_connection (sim_new std_modular 0 42 False (MacAddr 0 0 0 0 0 42) (MacAddr 0 0 0 0 0 0))"
  have "test_step std_modular 0 42 False (MacAddr 0 0 0 0 0 42) (MacAddr 0 0 0 0 0 0) 0 False (thread_new test_simple, None) =
      Returns (sample_thread, Some ?s)"
    by (simp add: test_step_def thread_new_def test_simple_def seq_def answer_call_def get_sim_def sample_thread_def)
  then have r: "test_run std_modular std_pnet False test_simple sample_thread (Some ?s)" by (rule te_step [OF te_new])
  have "th_prog sample_thread = Call C_active (\<lambda>a. if a = A_bool True then seq C_close (seq C_drop finish)
      else wait_active (seq C_close (seq C_drop finish)))"
    unfolding sample_thread_def by (subst wait_active.code) simp
  with tests_keep_protocol [OF lk.ox_link_axioms _ r] r show ?thesis by (auto simp: test_programs_def)
qed

section \<open>What the programs test\<close>

text \<open>A memory of 64-bit words that answers every call at once, with the numbers that are drawn next.\<close>

record ideal =
  mem :: "u64 \<Rightarrow> u64"
  randoms :: "nat \<Rightarrow> u64"
  drawn :: nat
  verdicts :: "bool list"
  running :: bool

definition store_word :: "u64 \<Rightarrow> u64 \<Rightarrow> ideal \<Rightarrow> ideal" where
  "store_word a d s = s\<lparr>mem := (mem s)(a := d)\<rparr>"

fun ideal_call :: "bool \<Rightarrow> test_call \<Rightarrow> ideal \<Rightarrow> test_answer \<times> ideal" where
  "ideal_call stop C_active s = (A_bool True, s)"
| "ideal_call stop C_ticks s = (A_num 0, s)"
| "ideal_call stop (C_cached_read a) s = (A_num (mem s a), s)"
| "ideal_call stop (C_cached_write a d) s = (A_none, store_word a d s)"
| "ideal_call stop (C_cached_rmw a f) s = (A_num (f (mem s a)), store_word a (f (mem s a)) s)"
| "ideal_call stop (C_write a d) s = (A_none, store_word a (u64_from_ne_bytes d) s)"
| "ideal_call stop (C_read_word a) s = (A_num (mem s a), s)"
| "ideal_call stop (C_write_64 a v) s = (A_none, store_word a v s)"
| "ideal_call stop (C_read_64 a) s = (A_num (mem s a), s)"
| "ideal_call stop C_stopped s = (A_bool stop, s)"
| "ideal_call stop C_random s = (A_num (randoms s (drawn s)), s\<lparr>drawn := drawn s + 1\<rparr>)"
| "ideal_call stop (C_verdict b) s = (A_none, s\<lparr>verdicts := verdicts s @ [b]\<rparr>)"
| "ideal_call stop C_inactive s = (A_none, s\<lparr>running := False\<rparr>)"
| "ideal_call stop _ s = (A_none, s)"

inductive ideal_run :: "bool \<Rightarrow> test_prog \<Rightarrow> ideal \<Rightarrow> ideal \<Rightarrow> bool" for stop where
  ir_finished: "ideal_run stop Finished s s"
| ir_call: "ideal_call stop c s = (a, s1) \<Longrightarrow> ideal_run stop (k a) s1 s' \<Longrightarrow> ideal_run stop (Call c k) s s'"

inductive_simps ideal_run_Call [simp]: "ideal_run stop (Call c k) s s'"

inductive_simps ideal_run_Finished [simp]: "ideal_run stop Finished s s'"

lemma ideal_run_seq [simp]: "ideal_run stop (seq c k) s s' \<longleftrightarrow> ideal_run stop k (snd (ideal_call stop c s)) s'"
  by (cases "ideal_call stop c s") (simp add: seq_def)

lemma ideal_run_finish [simp]: "ideal_run stop finish s s' \<longleftrightarrow> s' = s\<lparr>running := False\<rparr>"
  by (auto simp: finish_def)

lemma ideal_run_wait_active [simp]: "ideal_run stop (wait_active k) s s' \<longleftrightarrow> ideal_run stop k s s'"
  by (subst wait_active.code) simp

lemma ideal_run_wait_value: "mem s a = v \<Longrightarrow> ideal_run stop (wait_value a v k) s s' \<longleftrightarrow> ideal_run stop k s s'"
  by (subst wait_value.code) simp

lemma store_word_simps [simp]:
  "mem (store_word a d s) = (mem s)(a := d)" "verdicts (store_word a d s) = verdicts s"
  "running (store_word a d s) = running s" "drawn (store_word a d s) = drawn s" "randoms (store_word a d s) = randoms s"
  by (simp_all add: store_word_def)

lemma read_write_loop_passes:
  "\<exists>s'. ideal_run stop (read_write_loop compat0 n) s s' \<and> verdicts s' = verdicts s @ replicate n True \<and> \<not> running s'"
proof (induction n arbitrary: s)
  case (Suc n)
  let ?s = "store_word 0xAB00 0x42 s\<lparr>verdicts := verdicts s @ [True]\<rparr>"
  from Suc [of ?s] show ?case by (auto simp: replicate_append_same [symmetric])
qed simp

lemma random_loop_passes:
  "\<exists>s'. ideal_run False (random_loop n) s s' \<and> verdicts s' = verdicts s @ replicate n True \<and> \<not> running s'"
proof (induction n arbitrary: s)
  case (Suc n)
  let ?v = "randoms s (drawn s + 1)" and ?a = "randoms s (drawn s) AND NOT 0xF"
  let ?s = "(store_word ?a ?v (s\<lparr>drawn := drawn s + 2\<rparr>))\<lparr>verdicts := verdicts s @ [True]\<rparr>"
  from Suc [of ?s] show ?case by (auto simp: replicate_append_same [symmetric] Let_def)
qed simp

text \<open>The two loops of \<^verbatim>\<open>test_tlc\<close>: clearing the counters, and counting.\<close>

definition cleared :: "nat list \<Rightarrow> ideal \<Rightarrow> ideal" where
  "cleared is s = s\<lparr>mem := (\<lambda>a. if a \<in> counter_address ` set is then 0 else mem s a)\<rparr>"

definition counted :: "nat list \<Rightarrow> ideal \<Rightarrow> ideal" where
  "counted is s = s\<lparr>mem := (\<lambda>a. mem s a + of_nat (length (filter (\<lambda>i. counter_address i = a) is)))\<rparr>"

lemma clear_loop_run: "ideal_run stop (clear_loop is k) s s' \<longleftrightarrow> ideal_run stop k (cleared is s) s'"
proof (induction "is" arbitrary: s)
  case (Cons i "is")
  have "cleared is (store_word (counter_address i) 0 s) = cleared (i # is) s"
    by (auto simp: cleared_def store_word_def fun_eq_iff intro!: arg_cong [where f = "\<lambda>m. s\<lparr>mem := m\<rparr>"])
  with Cons show ?case by simp
qed (simp add: cleared_def)

lemma count_loop_run: "ideal_run False (count_loop is k) s s' \<longleftrightarrow> ideal_run False k (counted is s) s'"
proof (induction "is" arbitrary: s)
  case (Cons i "is")
  have "counted is (store_word (counter_address i) (mem s (counter_address i) + 1) s) = counted (i # is) s"
    by (auto simp: counted_def store_word_def fun_eq_iff intro!: arg_cong [where f = "\<lambda>m. s\<lparr>mem := m\<rparr>"])
  with Cons show ?case by simp
qed (simp add: counted_def)

lemma unat_counter_address: "unat (counter_address i) = 0x0ABC0000 + 0x1000 * (i mod 16)"
proof -
  have "i mod 16 < 16" by simp
  then show ?thesis by (simp add: counter_address_def unat_word_ariths unat_of_nat)
qed

lemma counter_address_eq: "counter_address i = counter_address j \<longleftrightarrow> i mod 16 = j mod 16"
  by (simp add: word_unat_eq_iff unat_counter_address)

lemma other_addresses [simp]:
  "counter_address i \<noteq> address_barrier" "counter_address i \<noteq> address_cmp" "address_barrier \<noteq> address_cmp"
proof -
  have "i mod 16 < 16" by simp
  then show "counter_address i \<noteq> address_barrier" "counter_address i \<noteq> address_cmp"
    by (auto simp: word_unat_eq_iff unat_counter_address address_barrier_def address_cmp_def)
qed (simp add: address_barrier_def address_cmp_def)

lemma count_residues:
  "j < m \<Longrightarrow> length (filter (\<lambda>i. i mod m = j) [0..<n]) = n div m + (if j < n mod m then 1 else 0)"
  by (induction n) (auto simp: div_Suc mod_Suc)

lemma counts: "map (\<lambda>j. length (filter (\<lambda>i. counter_address i = counter_address j) [0..<50])) [0..<16] = [4, 4] @ replicate 14 3"
proof -
  have "map (\<lambda>j. length (filter (\<lambda>i. i mod 16 = j mod 16) [0..<50])) [0..<16] =
      map (\<lambda>j. 3 + (if j < 2 then 1 else 0)) [0..<(16 :: nat)]"
    by (rule map_cong) (simp_all add: count_residues)
  also have "\<dots> = [4, 4] @ replicate 14 3" by code_simp
  finally show ?thesis unfolding counter_address_eq .
qed

text \<open>The counters, all at zero before, after \<open>n\<close> rounds of counting.\<close>

definition counters :: "ideal \<Rightarrow> u64 list" where
  "counters s = map (\<lambda>j. mem s (counter_address j)) [0..<16]"

lemma counters_counted: "counters (counted [0..<50] s) = map2 (+) (counters s) ([4, 4] @ replicate 14 3)"
proof -
  have "counters (counted [0..<50] s) = map2 (+) (counters s)
      (map of_nat (map (\<lambda>j. length (filter (\<lambda>i. counter_address i = counter_address j) [0..<50])) [0..<16]))"
    unfolding counters_def counted_def map_map map2_map_map by (simp add: comp_def del: upt.upt_Suc)
  also have "\<dots> = map2 (+) (counters s) ([4, 4] @ replicate 14 3)" by (simp only: counts) simp
  finally show ?thesis .
qed

lemma counters_store [simp]:
  "counters (store_word address_barrier d s) = counters s" "counters (store_word address_cmp d s) = counters s"
  "counters (s\<lparr>running := b\<rparr>) = counters s"
  by (simp_all add: counters_def)

lemma counters_cleared: "counters (cleared [0..<16] s) = replicate 16 0"
proof -
  have "counters (cleared [0..<16] s) = map (\<lambda>_. 0) [0..<16]"
    unfolding counters_def cleared_def by (intro map_cong) auto
  then show ?thesis by (simp only: map_replicate_const) simp
qed

lemma loops_elsewhere [simp]:
  "mem (counted is s) address_barrier = mem s address_barrier" "mem (counted is s) address_cmp = mem s address_cmp"
  "mem (cleared is s) address_barrier = mem s address_barrier" "mem (cleared is s) address_cmp = mem s address_cmp"
  by (auto simp: counted_def cleared_def) (metis other_addresses)+

lemma tlc_coordinator:
  "\<exists>s'. ideal_run False (test_tlc True) s s' \<and> mem s' address_barrier = 0 \<and> mem s' address_cmp = success_val \<and>
    counters s' = [4, 4] @ replicate 14 3 \<and> \<not> running s'"
proof -
  let ?c = "counted [0..<50] (cleared [0..<16] (store_word address_barrier 1 s))"
  let ?s = "(store_word address_cmp success_val (store_word address_barrier 0 ?c))\<lparr>running := False\<rparr>"
  have "ideal_run False (test_tlc True) s ?s"
    by (simp add: test_tlc_def clear_loop_run count_loop_run ideal_run_wait_value del: upt.upt_Suc)
  moreover have "counters ?s = [4, 4] @ replicate 14 3"
    by (simp add: counters_counted counters_cleared del: upt.upt_Suc) (simp add: numeral_eq_Suc)
  ultimately show ?thesis by (intro exI [of _ ?s]) simp
qed

lemma tlc_participant:
  assumes "mem s address_cmp = success_val" "mem s address_barrier = 0" "counters s = [4, 4] @ replicate 14 3"
  shows "\<exists>s'. ideal_run False (test_tlc False) s s' \<and> mem s' address_barrier = 0 \<and> counters s' = [8, 8] @ replicate 14 6 \<and> \<not> running s'"
proof -
  let ?s = "(store_word address_barrier 0 (counted [0..<50] (store_word address_barrier 1 s)))\<lparr>running := False\<rparr>"
  have "ideal_run False (test_tlc False) s ?s"
    using assms by (simp add: test_tlc_def count_loop_run ideal_run_wait_value del: upt.upt_Suc)
  moreover have "counters ?s = [8, 8] @ replicate 14 6"
    using assms(3) by (simp add: counters_counted del: upt.upt_Suc)
  ultimately show ?thesis by (intro exI [of _ ?s]) simp
qed

text \<open>
  C23. On a memory that works, every test program ends and passes: the simple program ends, the two programs that
  read back what they have written print 100 verdicts, all of them positive, whatever the random numbers are, and after the
  coordinator and then the other side of the coherence test have run, the barrier is back at zero and each of the 16 counters
  holds the number of its increments.
\<close>

theorem tests_pass_on_memory:
  "\<exists>s1 s2 s3 s4 s5. ideal_run False test_simple s s1 \<and> \<not> running s1 \<and>
    ideal_run False (test_read_write_simple compat0) s s2 \<and> verdicts s2 = verdicts s @ replicate 100 True \<and> \<not> running s2 \<and>
    ideal_run False test_read_and_write s s3 \<and> verdicts s3 = verdicts s @ replicate 100 True \<and> \<not> running s3 \<and>
    ideal_run False (test_tlc True) s s4 \<and> ideal_run False (test_tlc False) s4 s5 \<and> mem s5 address_barrier = 0 \<and>
    counters s5 = [8, 8] @ replicate 14 6 \<and> \<not> running s5"
proof -
  obtain s4 where s4: "ideal_run False (test_tlc True) s s4" "mem s4 address_barrier = 0" "mem s4 address_cmp = success_val"
    "counters s4 = [4, 4] @ replicate 14 3" using tlc_coordinator by blast
  from tlc_participant [OF s4(3,2,4)] s4(1) read_write_loop_passes [of False compat0 100 s] random_loop_passes [of 100 s]
  show ?thesis by (auto simp: test_simple_def test_read_write_simple_def test_read_and_write_def)
qed

end
