(* ===== verification/Ffi.thy ===== *)
theory Ffi
  imports Testcases Socket
begin

text \<open>
  \<^verbatim>\<open>rust_sim/src/ffi.rs\<close>: the C interface through which the hardware simulator drives endpoints and
  sockets. A pointer is an option, \<open>None\<close> the null pointer, and dereferencing it is the outcome
  \<open>NullDereference\<close>; an array that the caller provides is the list returned. The state is the
  last error and the endpoints, in the order in which they are asked for flits.
\<close>

section \<open>Errors\<close>

datatype ffi_error = NullPointer

text \<open>The text of the error, as its \<^verbatim>\<open>display\<close> attribute gives it.\<close>

fun error_text :: "ffi_error \<Rightarrow> string" where
  "error_text NullPointer = ''Got Null pointer as Sim argument.''"

type_synonym last_error = "ffi_error option"

definition take_last_error :: "last_error \<Rightarrow> ffi_error option \<times> last_error" where
  "take_last_error e = (e, None)"

definition update_last_error :: "ffi_error \<Rightarrow> last_error \<Rightarrow> last_error" where
  "update_last_error err e = Some err"

definition sim_last_error_length :: "last_error \<Rightarrow> nat" where
  "sim_last_error_length e = (case e of Some err \<Rightarrow> length (error_text err) + 1 | None \<Rightarrow> 0)"

text \<open>The buffer is the text it holds, with the characters after it; the result is the return value.\<close>

definition sim_last_error_message ::
    "string option \<Rightarrow> last_error \<Rightarrow> int \<times> string option \<times> last_error" where
  "sim_last_error_message buffer e =
     (case buffer of
        None \<Rightarrow> (-1, None, e)
      | Some buf \<Rightarrow>
          (case take_last_error e of
             (None, e) \<Rightarrow> (0, Some buf, e)
           | (Some err, e) \<Rightarrow>
               let msg = error_text err in
               if length msg \<ge> length buf then (-1, Some buf, e)
               else (int (length msg),
                     Some (msg @ [CHR 0x00] @ drop (length msg + 1) buf), e)))"

section \<open>Endpoints\<close>

record 'm SimInfo =
  sims :: "'m Sim option list"
  join_handler :: "(test_thread \<times> bool) list"
  info_compat_mode :: bool

definition ffi_sim_new :: "nat \<Rightarrow> bool \<Rightarrow> 'm SimInfo" where
  "ffi_sim_new number compat0 = \<lparr>sims = replicate number None, join_handler = [], info_compat_mode = compat0\<rparr>"

text \<open>Giving up the pointer; the result is the last error.\<close>

definition ffi_sim_destroy :: "'m SimInfo option \<Rightarrow> last_error \<Rightarrow> last_error" where
  "ffi_sim_destroy t e = (case t of None \<Rightarrow> update_last_error NullPointer e | Some _ \<Rightarrow> e)"

text \<open>The line \<^verbatim>\<open>Reg <name>: <value>\<close> that is printed, as bytes.\<close>

definition sim_print_reg :: "u64 \<Rightarrow> u64 \<Rightarrow> bytes outcome" where
  "sim_print_reg name value =
     (let name_v = u64_to_be_bytes name in
      if utf8_ok name_v
      then Returns (ascii_bytes ''Reg '' @ name_v @ ascii_bytes '': '' @ ascii_bytes (decimal (unat value)))
      else Panics NotUtf8)"

text \<open>\<^verbatim>\<open>sims.iter().find_map(...)\<close>: the first endpoint that has a flit.\<close>

fun find_flit :: "pnet \<Rightarrow> instant \<Rightarrow> 'm Sim option list \<Rightarrow> (flit option \<times> 'm Sim option list) outcome" where
  "find_flit P now [] = Returns (None, [])"
| "find_flit P now (None # ss) =
     and_then (find_flit P now ss) (\<lambda>(f, ss). Returns (f, None # ss))"
| "find_flit P now (Some s # ss) =
     and_then (sim_next_flit P now s) (\<lambda>(f, s).
       case f of
         Some f \<Rightarrow> Returns (Some f, Some s # ss)
       | None \<Rightarrow> and_then (find_flit P now ss) (\<lambda>(f, ss). Returns (f, Some s # ss)))"

abbreviation u64_max :: u64 where
  "u64_max \<equiv> - 1"

definition of_bool64 :: "bool \<Rightarrow> u64" where
  "of_bool64 b = (if b then 1 else 0)"

definition ffi_next_flit ::
    "pnet \<Rightarrow> instant \<Rightarrow> u64 list option \<Rightarrow> 'm SimInfo option \<Rightarrow> last_error \<Rightarrow>
     (u64 list option \<times> 'm SimInfo option \<times> last_error) outcome" where
  "ffi_next_flit P now r t e =
     (case t of
        None \<Rightarrow> Returns (r, t, update_last_error NullPointer e)
      | Some info \<Rightarrow>
          (case r of
             None \<Rightarrow> Panics NullDereference
           | Some _ \<Rightarrow>
               and_then (find_flit P now (sims info)) (\<lambda>(f, ss).
                 case f of
                   None \<Rightarrow> Returns (Some [u64_max, u64_max, u64_max], Some (info\<lparr>sims := ss\<rparr>), e)
                 | Some (flit, last_flit, msk) \<Rightarrow>
                     Returns (Some [flit, of_bool64 last_flit, ucast msk],
                       Some (info\<lparr>sims := if last_flit then rotate1 ss else ss\<rparr>), e))))"

text \<open>A null pointer is recorded and then dereferenced all the same.\<close>

fun push_all ::
    "'m modular \<Rightarrow> pnet \<Rightarrow> instant \<Rightarrow> flit \<Rightarrow> 'm Sim option list \<Rightarrow> 'm Sim option list outcome option" where
  "push_all L P now f [] = Some (Returns [])"
| "push_all L P now f (None # ss) =
     bind_run (push_all L P now f ss) (\<lambda>ss. Some (Returns (None # ss)))"
| "push_all L P now (v, l, m) (Some s # ss) =
     bind_run (sim_push_flit L P now s v l m) (\<lambda>s.
     bind_run (push_all L P now (v, l, m) ss) (\<lambda>ss. Some (Returns (Some s # ss))))"

definition ffi_push_flit ::
    "'m modular \<Rightarrow> pnet \<Rightarrow> instant \<Rightarrow> 'm SimInfo option \<Rightarrow> u64 \<Rightarrow> bool \<Rightarrow> u8 \<Rightarrow> 'm SimInfo outcome option" where
  "ffi_push_flit L P now t val last_flit msk =
     (case t of
        None \<Rightarrow> Some (Panics NullDereference)
      | Some info \<Rightarrow>
          bind_run (push_all L P now (val, last_flit, msk) (sims info)) (\<lambda>ss. Some (Returns (info\<lparr>sims := ss\<rparr>))))"

fun tick_all :: "'m modular \<Rightarrow> pnet \<Rightarrow> instant \<Rightarrow> 'm Sim option list \<Rightarrow> 'm Sim option list outcome" where
  "tick_all L P now [] = Returns []"
| "tick_all L P now (None # ss) = and_then (tick_all L P now ss) (\<lambda>ss. Returns (None # ss))"
| "tick_all L P now (Some s # ss) =
     and_then (sim_tick_once L P now s) (\<lambda>s. and_then (tick_all L P now ss) (\<lambda>ss. Returns (Some s # ss)))"

definition ffi_tick :: "'m modular \<Rightarrow> pnet \<Rightarrow> instant \<Rightarrow> 'm SimInfo option \<Rightarrow> 'm SimInfo outcome" where
  "ffi_tick L P now t =
     (case t of
        None \<Rightarrow> Panics NullDereference
      | Some info \<Rightarrow> and_then (tick_all L P now (sims info)) (\<lambda>ss. Returns (info\<lparr>sims := ss\<rparr>)))"

section \<open>Execution threads\<close>

text \<open>A handler is the thread, which holds its active flag, with its stop flag. It was started on the first
  endpoint, and a step of it works on that endpoint with the identity given here.\<close>

definition handler_step ::
    "'m modular \<Rightarrow> instant \<Rightarrow> u64 \<Rightarrow> bool \<Rightarrow> test_thread \<times> bool \<Rightarrow> 'm Sim option \<Rightarrow> (test_thread \<times> 'm Sim option) outcome" where
  "handler_step L now rnd compat0 = (\<lambda>(th, stop) so.
     test_step L now 42 compat0 (MacAddr 0 0 0 0 0 42) (MacAddr 0 0 0 0 0 0) rnd stop (th, so))"

definition start_execution_thread :: "'m SimInfo option \<Rightarrow> last_error \<Rightarrow> ('m SimInfo option \<times> last_error) outcome" where
  "start_execution_thread t e =
     (case t of
        None \<Rightarrow> Returns (None, update_last_error NullPointer e)
      | Some info \<Rightarrow>
          if sims info = [] then Panics UnwrapOnNone
          else Returns (Some (info\<lparr>join_handler := join_handler info @ [(thread_new (test_read_write_simple (info_compat_mode info)), False)]\<rparr>), e))"

definition stop_execution_thread :: "'m SimInfo option \<Rightarrow> last_error \<Rightarrow> 'm SimInfo option \<times> last_error" where
  "stop_execution_thread t e =
     (case t of
        None \<Rightarrow> (None, update_last_error NullPointer e)
      | Some info \<Rightarrow> (Some (info\<lparr>join_handler := map (\<lambda>(th, stop). (th, True)) (join_handler info)\<rparr>), e))"

definition can_destroy_execution_thread :: "'m SimInfo option \<Rightarrow> last_error \<Rightarrow> bool \<times> last_error" where
  "can_destroy_execution_thread t e =
     (case t of
        None \<Rightarrow> (False, update_last_error NullPointer e)
      | Some info \<Rightarrow> (foldl (\<lambda>can_do (th, stop). can_do \<and> \<not> th_active th) True (join_handler info), e))"

text \<open>\<^verbatim>\<open>destroy_execution_thread\<close> waits for the threads to end.\<close>

definition destroy_execution_thread ::
    "'m SimInfo option \<Rightarrow> last_error \<Rightarrow> ('m SimInfo option \<times> last_error) outcome" where
  "destroy_execution_thread t e =
     (case t of
        None \<Rightarrow> Returns (None, update_last_error NullPointer e)
      | Some info \<Rightarrow>
          if list_ex (\<lambda>(th, stop). case th_prog th of Finished \<Rightarrow> False | Call _ _ \<Rightarrow> True) (join_handler info) then Waits
          else Returns (Some (info\<lparr>join_handler := []\<rparr>), e))"

section \<open>Sockets\<close>

text \<open>
  The argument of \<^verbatim>\<open>socket_new\<close> is the string up to its null character; text that is not UTF-8 is recorded as a null
  pointer. The options that the new socket's threads have are returned with it.
\<close>

definition ffi_socket_new ::
    "(string \<Rightarrow> (socket_opt \<times> Socket) outcome) \<Rightarrow> string option \<Rightarrow> last_error \<Rightarrow>
     ((socket_opt \<times> Socket) option \<times> last_error) outcome" where
  "ffi_socket_new new opt e =
     (case opt of
        None \<Rightarrow> Returns (None, update_last_error NullPointer e)
      | Some m \<Rightarrow>
          if utf8_ok (ascii_bytes m) then and_then (new m) (\<lambda>s. Returns (Some s, e))
          else Returns (None, update_last_error NullPointer e))"

text \<open>Giving up the pointer drops the socket, so its threads end.\<close>

definition ffi_socket_destroy :: "Socket option \<Rightarrow> last_error \<Rightarrow> Socket option \<times> last_error" where
  "ffi_socket_destroy t e =
     (case t of None \<Rightarrow> (None, update_last_error NullPointer e) | Some s \<Rightarrow> (Some (socket_drop s), e))"

definition ffi_socket_active :: "Socket option \<Rightarrow> last_error \<Rightarrow> bool \<times> last_error" where
  "ffi_socket_active t e =
     (case t of None \<Rightarrow> (False, update_last_error NullPointer e) | Some s \<Rightarrow> (active s, e))"

definition ffi_socket_next_flit ::
    "u64 list option \<Rightarrow> Socket option \<Rightarrow> last_error \<Rightarrow> (u64 list option \<times> Socket option \<times> last_error) outcome" where
  "ffi_socket_next_flit r t e =
     (case r of
        None \<Rightarrow> Returns (None, t, update_last_error NullPointer e)
      | Some rl \<Rightarrow>
          (case t of
             None \<Rightarrow> Returns (Some (rl[0 := u64_max]), None, update_last_error NullPointer e)
           | Some s \<Rightarrow>
               and_then (socket_next_flit s) (\<lambda>(f, s).
                 case f of
                   Some (flit, last_flit, msk) \<Rightarrow>
                     Returns (Some [flit, of_bool64 last_flit, ucast msk, 1], Some s, e)
                 | None \<Rightarrow> Returns (Some (rl[3 := 0]), Some s, e))))"

definition ffi_socket_push_flit :: "Socket option \<Rightarrow> u64 \<Rightarrow> bool \<Rightarrow> u8 \<Rightarrow> Socket outcome" where
  "ffi_socket_push_flit t val last_flit msk =
     (case t of None \<Rightarrow> Panics NullDereference | Some s \<Rightarrow> Returns (socket_push_flit s val last_flit msk))"

section \<open>Properties\<close>

text \<open>With one endpoint the interface hands out exactly the flits of that endpoint.\<close>

lemma single_endpoint_flits:
  assumes "sims info = [Some s]" "sim_next_flit P now s = Returns (Some (flit, l, m), s')"
  shows "ffi_next_flit P now (Some r) (Some info) e =
    Returns (Some [flit, of_bool64 l, ucast m], Some (info\<lparr>sims := [Some s']\<rparr>), e)"
  using assms by (simp add: ffi_next_flit_def)

text \<open>
  C37. With two endpoints the interface can interleave packets: while the second one is in the middle of a
  packet, a packet that becomes ready at the first one takes over with its first flit, and the
  flits of the unfinished packet follow only later, so the receiver assembles neither.
\<close>

theorem flits_of_endpoints_interleave:
  assumes "pnet_laws P" and "sims info = [Some a, Some b]"
    and "sim_ready a" and "sim_packet_cur a = []" and "sim_queue a = p # ps"
    and "sim_packet_cur b = x # rest"
  shows "\<exists>v m a' info'. ffi_next_flit P now (Some r) (Some info) e = Returns (Some [v, 0, m], Some info', e) \<and>
    v = hd (chunkize_packet p) \<and> sims info' = [Some a', Some b]"
proof -
  have p: "22 \<le> length p" using assms(3,5) by (simp add: sim_ready_def)
  then have "8 < length p" by simp
  then obtain xs ys where xy: "p = xs @ ys" "length xs = 8" "ys \<noteq> []" by (rule split8)
  then have "chunkize_packet ys \<noteq> []" by (simp add: length_chunkize flip: length_greater_0_conv)
  then have f: "hd (flits_of p) = (hd (chunkize_packet p), False, 255)"
    using xy by (simp add: flits_of_def chunkize_append8 emit_def)
  from pnet_laws.sim_next_load [OF assms(1,3,4,5), of now] f obtain a'
    where "sim_next_flit P now a = Returns (Some (hd (chunkize_packet p), False, 255), a')" by auto
  then show ?thesis using assms(2) by (simp add: ffi_next_flit_def of_bool64_def)
qed

definition busy_sim :: "(int \<times> nat) Sim" where
  "busy_sim = sample_sim\<lparr>sim_packet_cur := [1, 2]\<rparr>"

theorem flits_of_endpoints_interleave_witness:
  "\<exists>v m a' info'. ffi_next_flit std_pnet 0 (Some [0, 0, 0])
     (Some \<lparr>sims = [Some sending_sim, Some busy_sim], join_handler = [], info_compat_mode = False\<rparr>) None =
     Returns (Some [v, 0, m], Some info', None) \<and> sims info' = [Some a', Some busy_sim]"
proof -
  let ?info = "\<lparr>sims = [Some sending_sim, Some busy_sim], join_handler = [], info_compat_mode = False\<rparr>"
  obtain p where "sim_queue sending_sim = [p]" using sending_sim_ready(3) by blast
  moreover have "sims ?info = [Some sending_sim, Some busy_sim]" "sim_packet_cur busy_sim = [1, 2]"
    by (simp_all add: busy_sim_def)
  ultimately show ?thesis
    using flits_of_endpoints_interleave [OF sp.pnet_laws_axioms _ sending_sim_ready(1,2), of ?info busy_sim p "[]" 1 "[2]"]
    by fast
qed

end
