(* ===== verification/Bitload.thy ===== *)
theory Bitload
  imports Endpoint
begin

text \<open>
  \<^verbatim>\<open>bitload/src/main.rs\<close>: the tool that writes a file to a remote memory, or reads it from there, in chunks
  of 1024 bytes over one connection. The closures of the parallel iterators are definitions; the
  order in which they run is left open. An iteration of each thread handler returns whether the
  thread ends. How the threads run together is in \<open>Bitload_Run\<close>.
\<close>

section \<open>Threads\<close>

text \<open>\<^verbatim>\<open>create_ox_handling\<close>.\<close>

definition create_ox_handling ::
    "'m modular \<Rightarrow> instant \<Rightarrow> bool \<Rightarrow> MacAddr \<Rightarrow> MacAddr \<Rightarrow> 'm Connection \<times> Cache \<times> Operations" where
  "create_ox_handling L now ox10_mode mine other =
     (establish_connection (conn_new L now now ox10_mode 0 mine other), cache_new 0, operations_new)"

text \<open>The loop \<^verbatim>\<open>while let Some(x) = get_packet()\<close>; every packet taken shortens what is queued.\<close>

function drain_packets :: "instant \<Rightarrow> 'm Connection \<Rightarrow> bytes list \<times> 'm Connection" where
  "drain_packets now c =
     (case get_packet now c of
        (None, c) \<Rightarrow> ([], c)
      | (Some p, c) \<Rightarrow> let (ps, c) = drain_packets now c in (p # ps, c))"
  by pat_completeness auto
termination
  by (relation "measure (\<lambda>(now, c). length (resend_data c) + length (case packet_data c of Some p \<Rightarrow> [p] | None \<Rightarrow> []))")
    (auto simp: get_packet_def split: list.splits option.splits)

declare drain_packets.simps [simp del]

definition tx_thread_step :: "instant \<Rightarrow> 'm Connection \<Rightarrow> bool \<times> bytes list \<times> 'm Connection" where
  "tx_thread_step now c =
     (let (ps, c) = drain_packets now c in (connection_state c = Idle, ps, c))"

definition bitload_tick :: "instant \<Rightarrow> Tick" where
  "bitload_tick now = tick_new now 1000000 100000000 1000 (Some 1000000000)"

definition tick_thread_step ::
    "'m modular \<Rightarrow> pnet \<Rightarrow> instant \<Rightarrow> Tick \<Rightarrow> Operations \<Rightarrow> 'm Connection \<Rightarrow> Cache \<Rightarrow>
     (bool \<times> Tick \<times> Operations \<times> 'm Connection \<times> Cache) outcome" where
  "tick_thread_step L P now t ops c ca =
     and_then (tick L P now t ops c ca) (\<lambda>(t, ops, c, ca).
       Returns (connection_state c = Idle, t, ops, c, ca))"

text \<open>\<open>received\<close> is the result of \<^verbatim>\<open>rx.next()\<close>.\<close>

definition rx_thread_step ::
    "'m modular \<Rightarrow> pnet \<Rightarrow> instant \<Rightarrow> bytes option \<Rightarrow> 'm Connection \<Rightarrow> Cache \<Rightarrow> Operations \<Rightarrow>
     (bool \<times> 'm Connection \<times> Cache \<times> Operations) outcome option" where
  "rx_thread_step L P now received c ca ops =
     (case received of
        None \<Rightarrow> Some (Returns (connection_state c = Idle, c, ca, ops))
      | Some packet \<Rightarrow>
          map_option (\<lambda>m. and_then m (\<lambda>(r, c, ca, ops). Returns (connection_state c = Idle, c, ca, ops)))
            (process_packet L P now packet c ca ops))"

section \<open>Chunks\<close>

text \<open>\<^verbatim>\<open>par_chunks(n)\<close>, in the order of the indices; \<open>n\<close> is 1024.\<close>

function par_chunks :: "nat \<Rightarrow> 'a list \<Rightarrow> 'a list list" where
  "par_chunks n xs = (if n = 0 \<or> xs = [] then [] else take n xs # par_chunks n (drop n xs))"
  by pat_completeness auto
termination
  by (relation "measure (\<lambda>(n, xs). length xs)") auto

declare par_chunks.simps [simp del]

definition is_power_of_two :: "nat \<Rightarrow> bool" where
  "is_power_of_two n \<longleftrightarrow> n = 2 ^ floor_log2 n"

definition chunk_address :: "u64 \<Rightarrow> nat \<Rightarrow> nat \<Rightarrow> u64" where
  "chunk_address base_addr chunk_size idx = base_addr + of_nat (chunk_size * idx)"

text \<open>The closure of \<^verbatim>\<open>do_parallel_write\<close>: the operation it performs, unless Ctrl-C was pressed.\<close>

definition write_op :: "u64 \<Rightarrow> nat \<Rightarrow> nat \<Rightarrow> bytes \<Rightarrow> TLOperations" where
  "write_op base_addr chunk_size idx c =
     (let addr = chunk_address base_addr chunk_size idx in
      if is_power_of_two (length c)
      then WriteLen \<lparr>writelen_address = addr, writelen_data = c\<rparr>
      else WritePartial \<lparr>partial_address = addr, partial_data = c\<rparr>)"

definition write_chunk :: "u64 \<Rightarrow> nat \<Rightarrow> bool \<Rightarrow> nat \<Rightarrow> bytes \<Rightarrow> TLOperations option" where
  "write_chunk base_addr chunk_size ctrl_c idx c =
     (if ctrl_c then None else Some (write_op base_addr chunk_size idx c))"

text \<open>\<open>ctrl_c idx\<close> is what the closure for chunk \<open>idx\<close> reads of the flag.\<close>

definition do_parallel_write :: "(nat \<Rightarrow> bool) \<Rightarrow> u64 \<Rightarrow> nat \<Rightarrow> bytes \<Rightarrow> TLOperations list" where
  "do_parallel_write ctrl_c base_addr chunk_size mmap =
     List.map_filter (\<lambda>(idx, c). write_chunk base_addr chunk_size (ctrl_c idx) idx c)
       (enumerate 0 (par_chunks chunk_size mmap))"

text \<open>The closure of \<^verbatim>\<open>do_parallel_read\<close>; \<open>respond\<close> stands for what \<^verbatim>\<open>perform\<close> returns.\<close>

definition read_op :: "u64 \<Rightarrow> nat \<Rightarrow> nat \<Rightarrow> TLOperations" where
  "read_op base_addr chunk_size idx =
     ReadLen \<lparr>readlen_address = chunk_address base_addr chunk_size idx, readlen_bytes = of_nat chunk_size\<rparr>"

fun store_response :: "bytes \<Rightarrow> (TLResult, op_error) result \<Rightarrow> bytes outcome" where
  "store_response v (Ok (ResData d)) = and_then (slice_range d 0 (length v)) (\<lambda>s. copy_into v 0 (length v) s)"
| "store_response v (Err e) = Returns v"
| "store_response v (Ok _) = Returns v"

definition read_chunk ::
    "(TLOperations \<Rightarrow> (TLResult, op_error) result) \<Rightarrow> u64 \<Rightarrow> nat \<Rightarrow> bool \<Rightarrow> nat \<Rightarrow> bytes \<Rightarrow> bytes outcome" where
  "read_chunk respond base_addr chunk_size ctrl_c idx v =
     (if ctrl_c then Returns v else store_response v (respond (read_op base_addr chunk_size idx)))"

fun read_chunks ::
    "(TLOperations \<Rightarrow> (TLResult, op_error) result) \<Rightarrow> (nat \<Rightarrow> bool) \<Rightarrow> u64 \<Rightarrow> nat \<Rightarrow> nat \<Rightarrow> bytes list \<Rightarrow> bytes outcome" where
  "read_chunks respond ctrl_c base_addr chunk_size idx [] = Returns []"
| "read_chunks respond ctrl_c base_addr chunk_size idx (v # vs) =
     and_then (read_chunk respond base_addr chunk_size (ctrl_c idx) idx v) (\<lambda>w.
     and_then (read_chunks respond ctrl_c base_addr chunk_size (Suc idx) vs) (\<lambda>ws. Returns (w @ ws)))"

definition do_parallel_read ::
    "(TLOperations \<Rightarrow> (TLResult, op_error) result) \<Rightarrow> (nat \<Rightarrow> bool) \<Rightarrow> nat \<Rightarrow> nat \<Rightarrow> u64 \<Rightarrow> bytes outcome" where
  "do_parallel_read respond ctrl_c size_bytes chunk_size base_addr =
     read_chunks respond ctrl_c base_addr chunk_size 0 (par_chunks chunk_size (replicate size_bytes 0xFF))"

section \<open>The transmit thread\<close>

lemma drain_packets_spec:
  "\<exists>c'. drain_packets now c =
     (resend_data c @ (case packet_data c of Some p \<Rightarrow> [p] | None \<Rightarrow> []), c') \<and>
     resend_data c' = [] \<and> packet_data c' = None \<and> connection_state c' = connection_state c"
proof (induction now c rule: drain_packets.induct)
  case (1 now c)
  show ?case
  proof (cases "resend_data c")
    case (Cons p rest)
    then have g: "get_packet now c = (Some p, c\<lparr>resend_data := rest, last_message_sent_at := now\<rparr>)"
      by (simp add: get_packet_def)
    from 1 [OF g [symmetric] refl] g Cons show ?thesis by (subst drain_packets.simps) auto
  next
    case Nil
    show ?thesis
    proof (cases "packet_data c")
      case None
      with Nil show ?thesis by (subst drain_packets.simps) (simp add: get_packet_def)
    next
      case (Some p)
      with Nil have g: "get_packet now c = (Some p, c\<lparr>packet_data := None, last_message_sent_at := now\<rparr>)"
        by (simp add: get_packet_def)
      from 1 [OF g [symmetric] refl] g Nil Some show ?thesis by (subst drain_packets.simps) auto
    qed
  qed
qed

section \<open>Chunks cover the data\<close>

lemma par_chunks_map:
  assumes "0 < n"
  shows "par_chunks n xs = map (\<lambda>i. take n (drop (n * i) xs)) [0..<(length xs + n - 1) div n]"
  using assms
proof (induction n xs rule: par_chunks.induct)
  case (1 n xs)
  show ?case
  proof (cases "xs = []")
    case True
    with 1(2) show ?thesis by (simp add: par_chunks.simps)
  next
    case False
    have len: "(length xs + n - 1) div n = Suc ((length (drop n xs) + n - 1) div n)"
    proof (cases "length xs \<le> n")
      case True
      have "(length xs + n - 1) div n = 1"
        using True False 1(2) by (intro div_nat_eqI) (cases xs; simp)+
      moreover have "(length (drop n xs) + n - 1) div n = 0" using True 1(2) by simp
      ultimately show ?thesis by simp
    next
      case F: False
      then have e: "length xs + n - 1 = (length (drop n xs) + n - 1) + n" by simp
      show ?thesis unfolding e
        using div_add_self2 [of n "length (drop n xs) + n - 1"] 1(2) by (metis Suc_eq_plus1 less_not_refl)
    qed
    have "map (\<lambda>i. take n (drop (n * i) xs)) [0..<Suc m] =
        take n xs # map (\<lambda>i. take n (drop (n * i) (drop n xs))) [0..<m]" for m
      by (simp only: upt_conv_Cons zero_less_Suc map_Suc_upt [symmetric])
        (simp add: comp_def add.commute)
    from this [of "(length (drop n xs) + n - 1) div n"] 1(1) [OF _ 1(2)] 1(2) False show ?thesis
      unfolding len by (subst par_chunks.simps) simp
  qed
qed

lemma concat_par_chunks: "0 < n \<Longrightarrow> concat (par_chunks n xs) = xs"
  by (induction n xs rule: par_chunks.induct) (subst par_chunks.simps, auto)

lemma nth_par_chunks:
  assumes "0 < n" "i < length (par_chunks n xs)"
  shows "par_chunks n xs ! i = take n (drop (n * i) xs)" "n * i < length xs"
proof -
  have i: "i < (length xs + n - 1) div n" using assms by (simp add: par_chunks_map)
  with assms(1) show "par_chunks n xs ! i = take n (drop (n * i) xs)" by (simp add: par_chunks_map)
  have "Suc i * n \<le> length xs + n - 1" using i assms(1) by (simp only: Suc_le_eq [symmetric] less_eq_div_iff_mult_less_eq)
  with assms(1) show "n * i < length xs" by (simp add: mult.commute)
qed

section \<open>Memory\<close>

text \<open>
  An ideal memory that carries out operations, before they are encoded: it stores all data of a
  write. With it the set of operations that a transfer starts is stated in terms of the file. A
  memory that sees only the encoded messages, with the masks of partial writes as they are, is
  in \<open>Bitload_Memory\<close>.
\<close>

definition store :: "(u64 \<Rightarrow> u8) \<Rightarrow> u64 \<Rightarrow> bytes \<Rightarrow> u64 \<Rightarrow> u8" where
  "store m a d = (\<lambda>x. if unat (x - a) < length d then d ! unat (x - a) else m x)"

fun op_target :: "TLOperations \<Rightarrow> (u64 \<times> bytes) option" where
  "op_target (WriteLen r) = Some (writelen_address r, writelen_data r)"
| "op_target (WritePartial r) = Some (partial_address r, partial_data r)"
| "op_target _ = None"

definition mem_write :: "(u64 \<Rightarrow> u8) \<Rightarrow> TLOperations \<Rightarrow> u64 \<Rightarrow> u8" where
  "mem_write m oper = (case op_target oper of Some (a, d) \<Rightarrow> store m a d | None \<Rightarrow> m)"

definition covers :: "TLOperations \<Rightarrow> u64 \<Rightarrow> bool" where
  "covers oper x = (case op_target oper of Some (a, d) \<Rightarrow> unat (x - a) < length d | None \<Rightarrow> False)"

text \<open>Writes that all agree with \<open>T\<close> leave it wherever they reach, in any order.\<close>

lemma writes_agree:
  assumes "\<And>oper a d x. oper \<in> set ops \<Longrightarrow> op_target oper = Some (a, d) \<Longrightarrow> unat (x - a) < length d \<Longrightarrow>
      d ! unat (x - a) = T x"
  shows "foldl mem_write m ops x = (if \<exists>oper \<in> set ops. covers oper x then T x else m x)"
  using assms
proof (induction ops rule: rev_induct)
  case (snoc oper ops)
  have IH: "foldl mem_write m ops x = (if \<exists>oper \<in> set ops. covers oper x then T x else m x)"
    using snoc.prems by (intro snoc.IH) auto
  have "mem_write M oper x = (if covers oper x then T x else M x)" for M
    using snoc.prems [of oper _ _ x]
    by (auto simp: mem_write_def covers_def store_def split: option.splits)
  with IH show ?case by auto
qed simp

text \<open>The operation for chunk \<open>idx\<close>.\<close>

lemma do_parallel_write_set:
  assumes "0 < n"
  shows "oper \<in> set (do_parallel_write (\<lambda>_. False) base n file) \<longleftrightarrow>
    (\<exists>idx < length (par_chunks n file). write_chunk base n False idx (take n (drop (n * idx) file)) = Some oper)"
proof -
  have "set (enumerate 0 (par_chunks n file)) =
      {(idx, take n (drop (n * idx) file)) |idx. idx < length (par_chunks n file)}"
    using nth_par_chunks(1) [OF assms] by (auto simp: in_set_enumerate_eq)
  then show ?thesis by (force simp: do_parallel_write_def map_filter_def image_iff)
qed

lemma write_chunk_target:
  "write_chunk base n False idx c = Some oper \<Longrightarrow> op_target oper = Some (base + of_nat (n * idx), c)"
  by (auto simp: write_chunk_def write_op_def Let_def chunk_address_def)

lemma unat_chunk_offset:
  assumes "unat ((x :: u64) - (base + of_nat k)) = j" "k + j < 2 ^ 64"
  shows "unat (x - base) = k + j"
proof -
  have "x - (base + of_nat k) = of_nat j" by (simp flip: assms(1))
  then have "x - base = of_nat (k + j)" by (simp add: algebra_simps)
  then show ?thesis using assms(2) by (simp add: unat_of_nat del: of_nat_add)
qed

lemma writes_store_file:
  assumes n: "0 < n" and small: "length file \<le> 2 ^ 64" and ops: "set ops = set (do_parallel_write (\<lambda>_. False) base n file)"
    and i: "i < length file"
  shows "foldl mem_write m ops (base + of_nat i) = file ! i"
proof -
  define T where "T = (\<lambda>x. file ! unat (x - base))"
  have agree: "d ! unat (x - a) = T x"
    if "oper \<in> set ops" "op_target oper = Some (a, d)" "unat (x - a) < length d" for oper a d x
  proof -
    from that(1) obtain idx where idx: "write_chunk base n False idx (take n (drop (n * idx) file)) = Some oper"
      unfolding ops do_parallel_write_set [OF n] by blast
    with that(2) have ad: "a = base + of_nat (n * idx)" "d = take n (drop (n * idx) file)"
      using write_chunk_target by fastforce+
    have lt: "n * idx + unat (x - a) < length file" using that(3) by (simp add: ad(2)) linarith
    have "unat (x - base) = n * idx + unat (x - a)"
      using small lt by (intro unat_chunk_offset) (simp_all add: ad(1))
    with that(3) lt show ?thesis by (simp add: T_def ad(2))
  qed
  have u: "unat (base + of_nat i - base) = i" using i small by (simp add: unat_of_nat)
  let ?k = "i div n"
  have k: "n * ?k + i mod n = i" by simp
  have "?k < (length file + n - 1) div n"
  proof -
    have "n * ?k \<le> i" by simp
    then have "Suc ?k * n \<le> length file + n - 1" using i by (simp add: mult.commute del: times_div_less_eq_dividend)
    then show ?thesis using n by (simp only: Suc_le_eq [symmetric] less_eq_div_iff_mult_less_eq)
  qed
  then have lt: "?k < length (par_chunks n file)" using n by (simp add: par_chunks_map)
  obtain oper where w: "write_chunk base n False ?k (take n (drop (n * ?k) file)) = Some oper"
    by (simp add: write_chunk_def Let_def)
  with lt have oper: "oper \<in> set ops" "write_chunk base n False ?k (take n (drop (n * ?k) file)) = Some oper"
    unfolding ops do_parallel_write_set [OF n] by blast+
  have "i mod n \<le> i" by simp
  then have mod_small: "i mod n < 2 ^ 64" using i small by linarith
  have e: "(of_nat i :: u64) = of_nat (n * ?k) + of_nat (i mod n)" by (metis k of_nat_add)
  have "base + of_nat i - (base + of_nat (n * ?k)) = of_nat (i mod n)"
    by (simp only: e add_diff_cancel_left add_diff_cancel_left')
  then have "unat (base + of_nat i - (base + of_nat (n * ?k))) = i mod n"
    using mod_small by (simp add: unat_of_nat)
  moreover have "i mod n < length file - n * ?k" using i k by linarith
  ultimately have "covers oper (base + of_nat i)"
    using write_chunk_target [OF oper(2)] n by (auto simp: covers_def)
  moreover have "foldl mem_write m ops x = (if \<exists>oper \<in> set ops. covers oper x then T x else m x)" for x
    by (rule writes_agree) (rule agree)
  ultimately show ?thesis using oper(1) u by (auto simp: T_def)
qed

lemma read_chunks_concat:
  assumes "length ws = length vs"
    and "\<And>i. i < length vs \<Longrightarrow> read_chunk respond base n (ctrl_c (idx + i)) (idx + i) (vs ! i) = Returns (ws ! i)"
  shows "read_chunks respond ctrl_c base n idx vs = Returns (concat ws)"
  using assms
proof (induction vs arbitrary: ws idx)
  case (Cons v vs)
  then obtain w ws' where ws: "ws = w # ws'" by (cases ws) auto
  have "read_chunk respond base n (ctrl_c idx) idx v = Returns w" using Cons.prems(2) [of 0] ws by simp
  moreover have "read_chunks respond ctrl_c base n (Suc idx) vs = Returns (concat ws')"
    using Cons.prems(1) Cons.prems(2) [of "Suc _"] ws by (intro Cons.IH) auto
  ultimately show ?case using ws by simp
qed simp

section \<open>A last chunk that cannot be sent\<close>

text \<open>A last chunk of three bytes is sent as a partial write, whose encoding panics.\<close>

lemma bitload_three_byte_tail_panics:
  assumes "length c = 3" "write_chunk base n False idx c = Some oper"
  shows "pack_operation \<lparr>os_operation = oper, os_source = source\<rparr> = Panics SliceOutOfRange"
proof -
  have "\<not> is_power_of_two 3" by (simp add: is_power_of_two_def floor_log2.simps)
  then have "oper = WritePartial \<lparr>partial_address = chunk_address base n idx, partial_data = c\<rparr>"
    using assms by (simp add: write_chunk_def write_op_def)
  with assms(1) show ?thesis by (simp add: pack_operation_def pack_write_partial_tiny)
qed

end
