(* ===== verification/Cmdline.thy ===== *)
theory Cmdline
  imports Ox_Packet
begin

text \<open>
  The command line of \<^verbatim>\<open>omnixtend-tui/src/tui.rs\<close>: editing with the keys, the history, and the
  recognition of commands. A Rust string is the list of its code points; indices into it are
  byte offsets into its UTF-8 form, and an index that is not at the boundary of a character panics. The
  three functions that extract arguments with regular expressions are arguments here and defined in \<open>Tui_Args\<close>.
\<close>

section \<open>UTF-8 strings\<close>

type_synonym uchar = nat
type_synonym ustring = "uchar list"

definition utf8_len :: "uchar \<Rightarrow> nat" where
  "utf8_len c = (if c < 0x80 then 1 else if c < 0x800 then 2 else if c < 0x10000 then 3 else 4)"

definition str_len :: "ustring \<Rightarrow> nat" where
  "str_len s = sum_list (map utf8_len s)"

text \<open>The string split at a byte offset, if that is the boundary of a character.\<close>

fun split_str :: "ustring \<Rightarrow> nat \<Rightarrow> (ustring \<times> ustring) option" where
  "split_str s 0 = Some ([], s)"
| "split_str [] (Suc n) = None"
| "split_str (c # s) (Suc n) =
     (if utf8_len c \<le> Suc n
      then map_option (\<lambda>(a, b). (c # a, b)) (split_str s (Suc n - utf8_len c)) else None)"

text \<open>\<^verbatim>\<open>String::insert\<close>, \<^verbatim>\<open>String::remove\<close> and \<^verbatim>\<open>&s[i..j]\<close>.\<close>

definition str_insert :: "ustring \<Rightarrow> nat \<Rightarrow> uchar \<Rightarrow> ustring outcome" where
  "str_insert s i c =
     (case split_str s i of Some (a, b) \<Rightarrow> Returns (a @ [c] @ b) | None \<Rightarrow> Panics SliceOutOfRange)"

definition str_remove :: "ustring \<Rightarrow> nat \<Rightarrow> ustring outcome" where
  "str_remove s i =
     (case split_str s i of Some (a, c # b) \<Rightarrow> Returns (a @ b) | _ \<Rightarrow> Panics SliceOutOfRange)"

definition str_slice :: "ustring \<Rightarrow> nat \<Rightarrow> nat \<Rightarrow> ustring outcome" where
  "str_slice s i j =
     (if i \<le> j then
        case split_str s j of
          Some (a, _) \<Rightarrow> (case split_str a i of Some (_, b) \<Rightarrow> Returns b | None \<Rightarrow> Panics SliceOutOfRange)
        | None \<Rightarrow> Panics SliceOutOfRange
      else Panics SliceOutOfRange)"

section \<open>Editing\<close>

record Cmdline =
  cmdline :: "ustring list"
  cmdline_selected :: nat
  cursor :: nat

definition cmdline_new :: Cmdline where
  "cmdline_new = \<lparr>cmdline = [[]], cmdline_selected = 0, cursor = 0\<rparr>"

text \<open>\<^verbatim>\<open>self.cmdline[self.cmdline_selected]\<close>, to be read and to be changed.\<close>

definition selected :: "Cmdline \<Rightarrow> ustring outcome" where
  "selected l = (if cmdline_selected l < length (cmdline l) then Returns (cmdline l ! cmdline_selected l)
                 else Panics SliceOutOfRange)"

definition put_line :: "Cmdline \<Rightarrow> ustring \<Rightarrow> Cmdline" where
  "put_line l s = l\<lparr>cmdline := (cmdline l)[cmdline_selected l := s]\<rparr>"

definition cmd_char :: "uchar \<Rightarrow> Cmdline \<Rightarrow> Cmdline outcome" where
  "cmd_char c l =
     and_then (selected l) (\<lambda>s. and_then (str_insert s (cursor l) c) (\<lambda>s.
       Returns ((put_line l s)\<lparr>cursor := cursor l + 1\<rparr>)))"

definition cmd_backspace :: "Cmdline \<Rightarrow> Cmdline outcome" where
  "cmd_backspace l =
     (if cursor l > 0 then
        and_then (selected l) (\<lambda>s. and_then (str_remove s (cursor l - 1)) (\<lambda>s.
          Returns ((put_line l s)\<lparr>cursor := cursor l - 1\<rparr>)))
      else Returns l)"

definition cmd_del :: "Cmdline \<Rightarrow> Cmdline outcome" where
  "cmd_del l =
     and_then (selected l) (\<lambda>s.
       if cursor l < str_len s then and_then (str_remove s (cursor l)) (\<lambda>s. Returns (put_line l s))
       else Returns l)"

definition cmd_home :: "Cmdline \<Rightarrow> Cmdline outcome" where
  "cmd_home l = Returns (l\<lparr>cursor := 0\<rparr>)"

definition cmd_end :: "Cmdline \<Rightarrow> Cmdline outcome" where
  "cmd_end l = and_then (selected l) (\<lambda>s. Returns (l\<lparr>cursor := str_len s\<rparr>))"

definition cmd_up :: "Cmdline \<Rightarrow> Cmdline outcome" where
  "cmd_up l =
     (if cmdline_selected l > 0 then
        let l = l\<lparr>cmdline_selected := cmdline_selected l - 1\<rparr>
        in and_then (selected l) (\<lambda>s. Returns (l\<lparr>cursor := str_len s\<rparr>))
      else Returns l)"

definition cmd_left :: "Cmdline \<Rightarrow> Cmdline outcome" where
  "cmd_left l = Returns (if cursor l > 0 then l\<lparr>cursor := cursor l - 1\<rparr> else l)"

definition cmd_right :: "Cmdline \<Rightarrow> Cmdline outcome" where
  "cmd_right l =
     and_then (selected l) (\<lambda>s. Returns (if cursor l < str_len s then l\<lparr>cursor := cursor l + 1\<rparr> else l))"

definition cmd_down :: "Cmdline \<Rightarrow> Cmdline outcome" where
  "cmd_down l =
     (if cmdline_selected l + 1 < length (cmdline l) then
        let l = l\<lparr>cmdline_selected := cmdline_selected l + 1\<rparr>
        in and_then (selected l) (\<lambda>s. Returns (l\<lparr>cursor := str_len s\<rparr>))
      else and_then (selected l) (\<lambda>s.
        if s \<noteq> [] then
          let l = l\<lparr>cmdline := cmdline l @ [[]], cmdline_selected := cmdline_selected l + 1\<rparr>
          in and_then (selected l) (\<lambda>s. Returns (l\<lparr>cursor := str_len s\<rparr>))
        else Returns l))"

text \<open>\<^verbatim>\<open>self.cmdline.len() - 1\<close>: the list is never empty (\<open>cmdline_ok\<close> below).\<close>

definition cmd_new_line :: "Cmdline \<Rightarrow> Cmdline outcome" where
  "cmd_new_line l =
     (let l = l\<lparr>cmdline_selected := length (cmdline l) - 1\<rparr>
      in and_then (selected l) (\<lambda>s.
           let l = (if s \<noteq> []
                    then l\<lparr>cmdline := cmdline l @ [[]], cmdline_selected := cmdline_selected l + 1\<rparr> else l)
           in Returns (l\<lparr>cursor := 0\<rparr>)))"

definition cmd_get :: "Cmdline \<Rightarrow> (ustring \<times> nat) outcome" where
  "cmd_get l = and_then (selected l) (\<lambda>s. Returns (s @ [0x20], cursor l))"

text \<open>The slices of \<^verbatim>\<open>render_commandline\<close>.\<close>

definition render_commandline :: "ustring \<Rightarrow> nat \<Rightarrow> (ustring \<times> ustring \<times> ustring) outcome" where
  "render_commandline line cur =
     and_then (str_slice line 0 cur) (\<lambda>before.
     and_then (str_slice line cur (cur + 1)) (\<lambda>under.
     and_then (str_slice line (cur + 1) (str_len line)) (\<lambda>after.
     Returns (before, under, after))))"

section \<open>Commands\<close>

datatype CmdlineEvents =
    Ev_Quit
  | Ev_Connect MacAddr
  | Ev_Disconnect MacAddr
  | Ev_None
  | Ev_Read u64
  | Ev_Write u64 u64
  | Ev_CacheRelease u64
  | Ev_CacheReleaseAll
  | Ev_CacheRead u64
  | Ev_CacheWrite u64 u64
  | Ev_Help

text \<open>\<^verbatim>\<open>get_mac\<close>, \<^verbatim>\<open>get_read\<close> and \<^verbatim>\<open>get_write\<close>, whose regular expressions belong to a library.\<close>

record 'e arguments =
  arg_mac :: "ustring \<Rightarrow> (MacAddr, 'e) result"
  arg_read :: "ustring \<Rightarrow> (u64, 'e) result"
  arg_write :: "ustring \<Rightarrow> (u64 \<times> u64, 'e) result"

text \<open>\<^verbatim>\<open>char::is_whitespace\<close>: the characters with the Unicode property \<^verbatim>\<open>White_Space\<close>.\<close>

definition is_space :: "uchar \<Rightarrow> bool" where
  "is_space c \<longleftrightarrow>
     c \<in> {0x20, 0x09, 0x0A, 0x0B, 0x0C, 0x0D, 0x85, 0xA0, 0x1680, 0x2000, 0x2001, 0x2002, 0x2003, 0x2004, 0x2005, 0x2006,
       0x2007, 0x2008, 0x2009, 0x200A, 0x2028, 0x2029, 0x202F, 0x205F, 0x3000}"

definition trim :: "ustring \<Rightarrow> ustring" where
  "trim s = rev (dropWhile is_space (rev (dropWhile is_space s)))"

definition first_word :: "ustring \<Rightarrow> ustring" where
  "first_word s = takeWhile (\<lambda>c. \<not> is_space c) (dropWhile is_space s)"

definition ascii :: "string \<Rightarrow> ustring" where
  "ascii s = map of_char s"

fun map_ok :: "('a \<Rightarrow> 'b) \<Rightarrow> ('a, 'e) result \<Rightarrow> ('b, 'e) result" where
  "map_ok f (Ok x) = Ok (f x)"
| "map_ok f (Err e) = Err e"

definition parse_command :: "'e arguments \<Rightarrow> ustring \<Rightarrow> (CmdlineEvents, 'e) result" where
  "parse_command A line =
     (let line = trim line; w = first_word line in
      if w \<in> {ascii ''quit'', ascii ''q''} then Ok Ev_Quit
      else if w \<in> {ascii ''c'', ascii ''connect''} then map_ok Ev_Connect (arg_mac A line)
      else if w \<in> {ascii ''d'', ascii ''disconnect''} then map_ok Ev_Disconnect (arg_mac A line)
      else if w \<in> {ascii ''w'', ascii ''write''} then map_ok (\<lambda>(a, d). Ev_Write a d) (arg_write A line)
      else if w \<in> {ascii ''r'', ascii ''read''} then map_ok Ev_Read (arg_read A line)
      else if w \<in> {ascii ''cw'', ascii ''cwrite''} then map_ok (\<lambda>(a, d). Ev_CacheWrite a d) (arg_write A line)
      else if w \<in> {ascii ''cr'', ascii ''cread''} then map_ok Ev_CacheRead (arg_read A line)
      else if w \<in> {ascii ''cd'', ascii ''cdestroy''} then map_ok Ev_CacheRelease (arg_read A line)
      else if w \<in> {ascii ''cda'', ascii ''cdestroyall''} then Ok Ev_CacheReleaseAll
      else if w \<in> {ascii ''h'', ascii ''help''} then Ok Ev_Help
      else Ok Ev_None)"

definition tui_process_message ::
    "'e arguments \<Rightarrow> Cmdline \<Rightarrow> ((CmdlineEvents, 'e) result \<times> Cmdline) outcome" where
  "tui_process_message A l =
     and_then (cmd_get l) (\<lambda>(line, _).
       case parse_command A line of
         Err e \<Rightarrow> Returns (Err e, l)
       | Ok event \<Rightarrow>
           if event \<noteq> Ev_None then and_then (cmd_new_line l) (\<lambda>l. Returns (Ok event, l))
           else Returns (Ok event, l))"

datatype key =
    Key_enter | Key_ctrl_c | Key_char uchar | Key_down | Key_up | Key_left | Key_right
  | Key_backspace | Key_delete | Key_home | Key_end | Key_other

text \<open>\<^verbatim>\<open>events\<close>, with the key that was pressed, if any.\<close>

definition edit :: "(Cmdline \<Rightarrow> Cmdline outcome) \<Rightarrow> Cmdline \<Rightarrow> ((CmdlineEvents, 'e) result \<times> Cmdline) outcome" where
  "edit f l = and_then (f l) (\<lambda>l. Returns (Ok Ev_None, l))"

fun tui_events :: "'e arguments \<Rightarrow> key option \<Rightarrow> Cmdline \<Rightarrow> ((CmdlineEvents, 'e) result \<times> Cmdline) outcome" where
  "tui_events A None l = Returns (Ok Ev_None, l)"
| "tui_events A (Some Key_enter) l = tui_process_message A l"
| "tui_events A (Some Key_ctrl_c) l = Returns (Ok Ev_Quit, l)"
| "tui_events A (Some (Key_char c)) l = edit (cmd_char c) l"
| "tui_events A (Some Key_down) l = edit cmd_down l"
| "tui_events A (Some Key_up) l = edit cmd_up l"
| "tui_events A (Some Key_left) l = edit cmd_left l"
| "tui_events A (Some Key_right) l = edit cmd_right l"
| "tui_events A (Some Key_backspace) l = edit cmd_backspace l"
| "tui_events A (Some Key_delete) l = edit cmd_del l"
| "tui_events A (Some Key_home) l = edit cmd_home l"
| "tui_events A (Some Key_end) l = edit cmd_end l"
| "tui_events A (Some Key_other) l = Returns (Ok Ev_None, l)"

section \<open>ASCII input\<close>

definition is_ascii :: "ustring \<Rightarrow> bool" where
  "is_ascii s \<longleftrightarrow> (\<forall>c \<in> set s. c < 0x80)"

definition cmdline_ok :: "Cmdline \<Rightarrow> bool" where
  "cmdline_ok l \<longleftrightarrow> cmdline_selected l < length (cmdline l) \<and> (\<forall>s \<in> set (cmdline l). is_ascii s) \<and>
     cursor l \<le> length (cmdline l ! cmdline_selected l)"

lemma is_ascii_Nil [simp]: "is_ascii []"
  by (simp add: is_ascii_def)

lemma str_len_ascii: "is_ascii s \<Longrightarrow> str_len s = length s"
  by (induction s) (auto simp: is_ascii_def str_len_def utf8_len_def)

lemma split_str_ascii: "is_ascii s \<Longrightarrow> i \<le> length s \<Longrightarrow> split_str s i = Some (take i s, drop i s)"
  by (induction s i rule: split_str.induct) (auto simp: is_ascii_def utf8_len_def)

lemma selected_ok: "cmdline_ok l \<Longrightarrow> selected l = Returns (cmdline l ! cmdline_selected l) \<and>
    is_ascii (cmdline l ! cmdline_selected l)"
  by (simp add: cmdline_ok_def selected_def)

lemma ascii_take_drop: "is_ascii s \<Longrightarrow> is_ascii (take i s) \<and> is_ascii (drop i s)"
  by (meson is_ascii_def in_set_takeD in_set_dropD)

lemma put_line_ok:
  assumes "cmdline_ok l" "is_ascii s" "k \<le> length s"
  shows "cmdline_ok ((put_line l s)\<lparr>cursor := k\<rparr>)"
  using assms by (auto simp: cmdline_ok_def put_line_def dest!: set_update_subset_insert [THEN subsetD])

text \<open>A command returns and keeps the invariant.\<close>

definition safe :: "(Cmdline \<Rightarrow> Cmdline outcome) \<Rightarrow> bool" where
  "safe f \<longleftrightarrow> (\<forall>l. cmdline_ok l \<longrightarrow> (\<exists>l'. f l = Returns l' \<and> cmdline_ok l'))"

lemma safe_char [intro]:
  assumes "c < 0x80"
  shows "safe (cmd_char c)"
  unfolding safe_def
proof (intro allI impI)
  fix l assume ok: "cmdline_ok l"
  let ?s = "cmdline l ! cmdline_selected l"
  have s: "is_ascii ?s" "cursor l \<le> length ?s" using ok by (auto simp: cmdline_ok_def)
  have "is_ascii (take (cursor l) ?s @ [c] @ drop (cursor l) ?s)"
    using s(1) assms ascii_take_drop [OF s(1), of "cursor l"] by (auto simp: is_ascii_def)
  then have "cmdline_ok ((put_line l (take (cursor l) ?s @ [c] @ drop (cursor l) ?s))\<lparr>cursor := cursor l + 1\<rparr>)"
    using s ok by (intro put_line_ok) auto
  then show "\<exists>l'. cmd_char c l = Returns l' \<and> cmdline_ok l'"
    using s selected_ok [OF ok] by (simp add: cmd_char_def str_insert_def split_str_ascii)
qed

lemma remove_ascii:
  assumes "is_ascii s" "i < length s"
  shows "str_remove s i = Returns (take i s @ drop (Suc i) s) \<and> is_ascii (take i s @ drop (Suc i) s)"
proof -
  have "is_ascii (take i s @ drop (Suc i) s)"
    using assms(1) by (auto simp: is_ascii_def dest: in_set_takeD in_set_dropD)
  with assms show ?thesis
    by (simp add: str_remove_def split_str_ascii Cons_nth_drop_Suc [symmetric])
qed

lemma safe_backspace [intro]: "safe cmd_backspace"
  unfolding safe_def
proof (intro allI impI)
  fix l assume ok: "cmdline_ok l"
  let ?s = "cmdline l ! cmdline_selected l"
  show "\<exists>l'. cmd_backspace l = Returns l' \<and> cmdline_ok l'"
  proof (cases "cursor l > 0")
    case True
    then have i: "cursor l - 1 < length ?s" using ok by (auto simp: cmdline_ok_def)
    from remove_ascii [OF _ i] selected_ok [OF ok] i True put_line_ok [OF ok, of _ "cursor l - 1"] show ?thesis
      by (simp add: cmd_backspace_def)
  qed (use ok in \<open>simp add: cmd_backspace_def\<close>)
qed

lemma safe_del [intro]: "safe cmd_del"
  unfolding safe_def
proof (intro allI impI)
  fix l assume ok: "cmdline_ok l"
  let ?s = "cmdline l ! cmdline_selected l"
  show "\<exists>l'. cmd_del l = Returns l' \<and> cmdline_ok l'"
  proof (cases "cursor l < length ?s")
    case True
    let ?t = "take (cursor l) ?s @ drop (Suc (cursor l)) ?s"
    from remove_ascii [OF _ True] selected_ok [OF ok] have t: "str_remove ?s (cursor l) = Returns ?t" "is_ascii ?t" by auto
    have "cmdline_ok ((put_line l ?t)\<lparr>cursor := cursor l\<rparr>)" using True t by (intro put_line_ok ok) auto
    moreover have "(put_line l ?t)\<lparr>cursor := cursor l\<rparr> = put_line l ?t" by (simp add: put_line_def)
    ultimately show ?thesis using t selected_ok [OF ok] True by (simp add: cmd_del_def str_len_ascii)
  qed (use ok selected_ok [OF ok] in \<open>simp add: cmd_del_def str_len_ascii\<close>)
qed

lemma safe_moves [intro]:
  "safe cmd_home" "safe cmd_end" "safe cmd_left" "safe cmd_right" "safe cmd_up" "safe cmd_down" "safe cmd_new_line"
  unfolding safe_def
  by (auto simp: cmd_home_def cmd_end_def cmd_left_def cmd_right_def cmd_up_def cmd_down_def cmd_new_line_def
      cmdline_ok_def selected_def str_len_ascii nth_append Let_def)

lemma edit_ok: "safe f \<Longrightarrow> cmdline_ok l \<Longrightarrow> \<exists>l'. edit f l = Returns (Ok Ev_None, l') \<and> cmdline_ok l'"
  by (auto simp: safe_def edit_def)

lemma process_message_ok:
  assumes "cmdline_ok l"
  shows "\<exists>r l'. tui_process_message A l = Returns (r, l') \<and> cmdline_ok l'"
proof -
  obtain l' where "cmd_new_line l = Returns l'" "cmdline_ok l'" using safe_moves(7) assms by (auto simp: safe_def)
  then show ?thesis using selected_ok [OF assms] assms
    by (auto simp: tui_process_message_def cmd_get_def split: result.split)
qed

fun key_ok :: "key \<Rightarrow> bool" where
  "key_ok (Key_char c) \<longleftrightarrow> c < 0x80"
| "key_ok _ \<longleftrightarrow> True"

lemma events_ok:
  assumes "cmdline_ok l" "\<forall>k. key = Some k \<longrightarrow> key_ok k"
  shows "\<exists>r l'. tui_events A key l = Returns (r, l') \<and> cmdline_ok l'"
proof (cases key)
  case (Some k)
  with assms show ?thesis by (cases k) (use edit_ok process_message_ok in \<open>simp_all; blast\<close>)+
qed (use assms in simp)

fun run_keys :: "'e arguments \<Rightarrow> key list \<Rightarrow> Cmdline \<Rightarrow> Cmdline outcome" where
  "run_keys A [] l = Returns l"
| "run_keys A (k # ks) l = and_then (tui_events A (Some k) l) (\<lambda>(r, l). run_keys A ks l)"

lemma run_keys_ok:
  "cmdline_ok l \<Longrightarrow> \<forall>k \<in> set ks. key_ok k \<Longrightarrow> \<exists>l'. run_keys A ks l = Returns l' \<and> cmdline_ok l'"
proof (induction ks arbitrary: l)
  case (Cons k ks)
  then obtain r l' where "tui_events A (Some k) l = Returns (r, l')" "cmdline_ok l'"
    using events_ok [of l "Some k" A] by auto
  with Cons show ?case by simp
qed simp

lemma render_ok:
  assumes "cmdline_ok l"
  shows "\<exists>line cur p. cmd_get l = Returns (line, cur) \<and> render_commandline line cur = Returns p"
proof -
  let ?s = "cmdline l ! cmdline_selected l"
  have s: "selected l = Returns ?s" "is_ascii (?s @ [32])" "cursor l \<le> length ?s"
    using assms selected_ok [OF assms] by (auto simp: cmdline_ok_def is_ascii_def)
  have "split_str (take j (?s @ [32])) i = Some (take i (take j (?s @ [32])), drop i (take j (?s @ [32])))"
    if "i \<le> j" "j \<le> length (?s @ [32])" for i j
    using that ascii_take_drop [OF s(2), of j] by (intro split_str_ascii) auto
  then have "str_slice (?s @ [32]) i j = Returns (drop i (take j (?s @ [32])))"
    if "i \<le> j" "j \<le> length (?s @ [32])" for i j
    using that split_str_ascii [OF s(2), of j] by (simp add: str_slice_def)
  with s show ?thesis by (simp add: cmd_get_def render_commandline_def str_len_ascii)
qed

text \<open>
  C38. Typing never brings the tool down as long as only ASCII characters are typed: every sequence of keys is
  processed without a panic, the selected line and the cursor stay within bounds, and the line can be drawn.
\<close>

theorem ascii_input_never_panics:
  assumes "\<forall>k \<in> set ks. key_ok k"
  shows "\<exists>l line cur p. run_keys A ks cmdline_new = Returns l \<and>
    cmdline_selected l < length (cmdline l) \<and> cursor l \<le> length (cmdline l ! cmdline_selected l) \<and>
    cmd_get l = Returns (line, cur) \<and> render_commandline line cur = Returns p"
proof -
  have "cmdline_ok cmdline_new" by (simp add: cmdline_ok_def cmdline_new_def is_ascii_def)
  from run_keys_ok [OF this assms] obtain l where l: "run_keys A ks cmdline_new = Returns l" "cmdline_ok l" by blast
  with render_ok [OF l(2)] show ?thesis by (auto simp: cmdline_ok_def)
qed

definition no_arguments :: "unit arguments" where
  "no_arguments = \<lparr>arg_mac = (\<lambda>_. Err ()), arg_read = (\<lambda>_. Err ()), arg_write = (\<lambda>_. Err ())\<rparr>"

theorem ascii_input_never_panics_witness:
  "\<exists>l p. run_keys no_arguments [Key_char 0x61, Key_left, Key_char 0x62, Key_backspace] cmdline_new = Returns l \<and>
     render_commandline [0x61, 0x20] 0 = Returns p"
  using ascii_input_never_panics [of "[Key_char 0x61, Key_left, Key_char 0x62, Key_backspace]" no_arguments]
  by (auto simp: cmdline_new_def edit_def cmd_char_def cmd_left_def cmd_backspace_def selected_def str_insert_def
      str_remove_def put_line_def utf8_len_def numeral_2_eq_2 cmd_get_def)

text \<open>The byte offset of the cursor advances by one also for a character of two bytes, so the next one panics.\<close>

lemma second_umlaut_panics:
  assumes "0x80 \<le> c"
  shows "run_keys A [Key_char c, Key_char d] cmdline_new = Panics SliceOutOfRange"
  using assms
  by (simp add: cmdline_new_def edit_def cmd_char_def selected_def str_insert_def put_line_def utf8_len_def)

end
