(* ===== verification/Tui_Args.thy ===== *)
theory Tui_Args
  imports Cache Cmdline
begin

text \<open>
  The errors of \<^verbatim>\<open>omnixtend-tui\<close> and the extraction of addresses, data and MAC addresses from a command
  (\<^verbatim>\<open>get_read\<close>, \<^verbatim>\<open>get_write\<close> and \<^verbatim>\<open>get_mac\<close> of \<^verbatim>\<open>tui.rs\<close>). Regular expressions belong to the crate \<^verbatim>\<open>regex\<close> and the
  parser of MAC addresses to \<^verbatim>\<open>pnet\<close>: both are parameters, and the locale \<open>command_regex\<close> states what the two patterns for
  numbers match. Conversion of digits is that of the standard library. The lemmas show that what is typed is
  what the tool does.
\<close>

section \<open>Errors\<close>

text \<open>\<^verbatim>\<open>enum Error\<close> of \<^verbatim>\<open>main.rs\<close>; the sources of errors that libraries produce are left out.\<close>

datatype int_error = Empty | InvalidDigit | PosOverflow

datatype tui_error =
    TuiIOError
  | TuiIOBorrowError ustring
  | TuiInterfaceNotFound ustring
  | TuiCTRLCError
  | TuiUnhandledChannelType
  | TuiInvalidMac
  | TuiInvalidMacRegex ustring
  | TuiInvalidAddrRegex ustring
  | TuiInvalidDataRegex ustring
  | TuiInvalidWriteRegex ustring
  | TuiThreadError
  | TuiLockPoisoned
  | TuiEthernetPacketError
  | TuiRegexError
  | TuiParseIntError int_error
  | TuiOmnixtendError
  | TuiCacheError cache_error
  | TuiOperationsError op_error
  | TuiConversionError
  | TuiLoggerError
  | TuiPoisonError ustring
  | TuiThreadSendError
  | TuiThreadPanicError ustring ustring
  | TuiWrongReturnType
  | ConnectionNotActive

section \<open>Numbers\<close>

text \<open>\<^verbatim>\<open>char::to_digit(16)\<close> and \<^verbatim>\<open>u64::from_str_radix(_, 16)\<close>.\<close>

definition hex_digit :: "uchar \<Rightarrow> nat option" where
  "hex_digit c =
     (if 0x30 \<le> c \<and> c \<le> 0x39 then Some (c - 0x30)
      else if 0x61 \<le> c \<and> c \<le> 0x66 then Some (c - 0x61 + 10)
      else if 0x41 \<le> c \<and> c \<le> 0x46 then Some (c - 0x41 + 10) else None)"

fun radix_digits :: "nat \<Rightarrow> ustring \<Rightarrow> (nat, int_error) result" where
  "radix_digits acc [] = Ok acc"
| "radix_digits acc (c # cs) =
     (case hex_digit c of
        None \<Rightarrow> Err InvalidDigit
      | Some d \<Rightarrow> if 2 ^ 64 \<le> acc * 16 + d then Err PosOverflow else radix_digits (acc * 16 + d) cs)"

definition from_str_radix16 :: "ustring \<Rightarrow> (u64, int_error) result" where
  "from_str_radix16 s =
     (if s = [] then Err Empty
      else if s = [0x2B] \<or> s = [0x2D] then Err InvalidDigit
      else map_ok of_nat (radix_digits 0 (if hd s = 0x2B then tl s else s)))"

section \<open>Arguments\<close>

text \<open>\<^verbatim>\<open>Regex::new\<close> (whether the pattern compiles) and \<^verbatim>\<open>captures\<close>, whose result are the groups from the first on;
  \<^verbatim>\<open>MacAddr::from_str\<close>.\<close>

record regexes =
  regex_new :: "string \<Rightarrow> bool"
  captures :: "string \<Rightarrow> ustring \<Rightarrow> ustring option list option"
  mac_from_str :: "ustring \<Rightarrow> MacAddr option"

definition read_pattern :: string where
  "read_pattern = ''.*0x([0-9A-Za-z]+)''"

definition write_pattern :: string where
  "write_pattern = ''.*0x([0-9A-Za-z]+).*0x([0-9A-Za-z]+)''"

definition mac_pattern :: string where
  "mac_pattern = ''.*((?:[a-zA-Z0-9]{2}.?){6}).*''"

text \<open>\<^verbatim>\<open>c.get(i + 1)\<close>.\<close>

definition group :: "ustring option list \<Rightarrow> nat \<Rightarrow> ustring option" where
  "group gs i = (if i < length gs then gs ! i else None)"

definition parse_u64 :: "ustring \<Rightarrow> (u64, tui_error) result" where
  "parse_u64 s = map_err TuiParseIntError (from_str_radix16 s)"

definition get_write :: "regexes \<Rightarrow> ustring \<Rightarrow> (u64 \<times> u64, tui_error) result" where
  "get_write R s =
     (if \<not> regex_new R write_pattern then Err TuiRegexError
      else case captures R write_pattern s of
        None \<Rightarrow> Err (TuiInvalidWriteRegex s)
      | Some gs \<Rightarrow>
          (case group gs 0 of
             None \<Rightarrow> Err (TuiInvalidAddrRegex s)
           | Some address \<Rightarrow>
               (case group gs 1 of
                  None \<Rightarrow> Err (TuiInvalidDataRegex s)
                | Some d \<Rightarrow>
                    (case parse_u64 address of
                       Err e \<Rightarrow> Err e
                     | Ok a \<Rightarrow> map_ok (Pair a) (parse_u64 d)))))"

definition get_read :: "regexes \<Rightarrow> ustring \<Rightarrow> (u64, tui_error) result" where
  "get_read R s =
     (if \<not> regex_new R read_pattern then Err TuiRegexError
      else case captures R read_pattern s of
        None \<Rightarrow> Err (TuiInvalidWriteRegex s)
      | Some gs \<Rightarrow>
          (case group gs 0 of
             None \<Rightarrow> Err (TuiInvalidAddrRegex s)
           | Some address \<Rightarrow> parse_u64 address))"

definition get_mac :: "regexes \<Rightarrow> ustring \<Rightarrow> (MacAddr, tui_error) result" where
  "get_mac R s =
     (if \<not> regex_new R mac_pattern then Err TuiRegexError
      else case captures R mac_pattern s of
        None \<Rightarrow> Err (TuiInvalidMacRegex s)
      | Some gs \<Rightarrow>
          (case group gs 0 of
             None \<Rightarrow> Err (TuiInvalidMacRegex s)
           | Some m \<Rightarrow> (case mac_from_str R m of None \<Rightarrow> Err TuiInvalidMac | Some m \<Rightarrow> Ok m)))"

definition tui_arguments :: "regexes \<Rightarrow> tui_error arguments" where
  "tui_arguments R = \<lparr>arg_mac = get_mac R, arg_read = get_read R, arg_write = get_write R\<rparr>"

section \<open>Hexadecimal numbers\<close>

definition hex_char :: "nat \<Rightarrow> uchar" where
  "hex_char d = (if d < 10 then 0x30 + d else 0x61 + (d - 10))"

fun hex :: "nat \<Rightarrow> ustring" where
  "hex n = (if n < 16 then [hex_char n] else hex (n div 16) @ [hex_char (n mod 16)])"

declare hex.simps [simp del]

lemma hex_digit_char [simp]: "d < 16 \<Longrightarrow> hex_digit (hex_char d) = Some d"
  by (simp add: hex_digit_def hex_char_def)

lemma hex_not_Nil [simp]: "hex n \<noteq> []"
  by (subst hex.simps) simp

definition is_hex :: "ustring \<Rightarrow> bool" where
  "is_hex w \<longleftrightarrow> w \<noteq> [] \<and> (\<forall>c \<in> set w. hex_digit c \<noteq> None)"

lemma set_hex: "c \<in> set (hex n) \<Longrightarrow> hex_digit c \<noteq> None"
proof (induction n rule: hex.induct)
  case (1 n)
  have "hex n = (if n < 16 then [hex_char n] else hex (n div 16) @ [hex_char (n mod 16)])" by (rule hex.simps)
  with 1 show ?case by (auto split: if_splits)
qed

lemma is_hex_hex [simp]: "is_hex (hex n)"
  using set_hex by (auto simp: is_hex_def)

lemma radix_digits_append:
  "radix_digits acc (s @ t) = (case radix_digits acc s of Ok v \<Rightarrow> radix_digits v t | Err e \<Rightarrow> Err e)"
  by (induction s arbitrary: acc) (auto split: option.split)

lemma radix_digits_hex: "n < 2 ^ 64 \<Longrightarrow> radix_digits 0 (hex n) = Ok n"
proof (induction n rule: hex.induct)
  case (1 n)
  have eq: "hex n = (if n < 16 then [hex_char n] else hex (n div 16) @ [hex_char (n mod 16)])" by (rule hex.simps)
  show ?case
  proof (cases "n < 16")
    case False
    with 1 have "radix_digits 0 (hex (n div 16)) = Ok (n div 16)" by simp
    with 1(2) False show ?thesis by (simp add: eq radix_digits_append)
  qed (simp add: eq)
qed

lemma hd_hex: "is_hex w \<Longrightarrow> hd w \<noteq> 0x2B \<and> w \<noteq> [0x2B] \<and> w \<noteq> [0x2D]"
  by (cases w) (auto simp: is_hex_def hex_digit_def split: if_splits)

lemma unat_u64: "unat (a :: u64) < 2 ^ 64"
  using unsigned_less [of a] by simp

lemma parse_u64_hex [simp]: "parse_u64 (hex (unat a)) = Ok a"
proof -
  have "unat a < 2 ^ 64" by (rule unat_u64)
  from radix_digits_hex [OF this] show ?thesis
    using hd_hex [OF is_hex_hex [of "unat a"]] by (simp add: parse_u64_def from_str_radix16_def)
qed

text \<open>Numbers that do not fit are refused, whatever follows the digits that overflow.\<close>

lemma radix_digits_overflow:
  "\<forall>c \<in> set w. hex_digit c \<noteq> None \<Longrightarrow> (\<exists>v. radix_digits acc w = Ok v) \<or> radix_digits acc w = Err PosOverflow"
  by (induction w arbitrary: acc) (auto split: option.split)

lemma radix_digits_large:
  "2 ^ 64 \<le> n \<Longrightarrow> radix_digits 0 (hex n) = Err PosOverflow"
proof (induction n rule: hex.induct)
  case (1 n)
  have eq: "hex n = hex (n div 16) @ [hex_char (n mod 16)]" using 1(2) by (subst hex.simps) simp
  show ?case
  proof (cases "2 ^ 64 \<le> n div 16")
    case True
    with 1 have "radix_digits 0 (hex (n div 16)) = Err PosOverflow" by simp
    then show ?thesis by (simp add: eq radix_digits_append)
  next
    case False
    then have "radix_digits 0 (hex (n div 16)) = Ok (n div 16)" by (intro radix_digits_hex) simp
    with 1(2) show ?thesis by (simp add: eq radix_digits_append)
  qed
qed

lemma parse_u64_hex_nat:
  "parse_u64 (hex n) = (if n < 2 ^ 64 then Ok (of_nat n) else Err (TuiParseIntError PosOverflow))"
  using radix_digits_hex [of n] radix_digits_large [of n] hd_hex [OF is_hex_hex [of n]]
  by (auto simp: parse_u64_def from_str_radix16_def)

section \<open>Typed commands\<close>

text \<open>
  What the patterns for numbers match: the greedy \<^verbatim>\<open>.*\<close> runs up to the last \<^verbatim>\<open>0x\<close> of a line, and the group
  takes the digits after it. Without an \<^verbatim>\<open>x\<close> there is no match.
\<close>

locale command_regex =
  fixes R :: regexes
  assumes patterns: "regex_new R read_pattern" "regex_new R write_pattern"
    and read_captures: "0x0A \<notin> set pre \<Longrightarrow> is_hex w \<Longrightarrow>
      captures R read_pattern (pre @ ascii ''0x'' @ w) = Some [Some w]"
    and write_captures: "0x0A \<notin> set pre \<Longrightarrow> is_hex v \<Longrightarrow> is_hex w \<Longrightarrow>
      captures R write_pattern (pre @ ascii ''0x'' @ v @ ascii '' 0x'' @ w) = Some [Some v, Some w]"
    and no_captures: "0x78 \<notin> set s \<Longrightarrow> captures R read_pattern s = None \<and> captures R write_pattern s = None"
begin

lemma get_read_hex:
  "0x0A \<notin> set pre \<Longrightarrow> get_read R (pre @ ascii ''0x'' @ hex n) =
     (if n < 2 ^ 64 then Ok (of_nat n) else Err (TuiParseIntError PosOverflow))"
  using parse_u64_hex_nat by (simp add: get_read_def patterns read_captures group_def)

lemma get_write_hex:
  "0x0A \<notin> set pre \<Longrightarrow> get_write R (pre @ ascii ''0x'' @ hex (unat a) @ ascii '' 0x'' @ hex (unat d)) = Ok (a, d)"
  by (simp add: get_write_def patterns write_captures group_def)

lemma no_number:
  "0x78 \<notin> set s \<Longrightarrow> get_read R s = Err (TuiInvalidWriteRegex s) \<and> get_write R s = Err (TuiInvalidWriteRegex s)"
  by (simp add: get_read_def get_write_def patterns no_captures)

end

text \<open>The commands without a MAC address, as the help text lists them, with numbers in hexadecimal.\<close>

definition number :: "u64 \<Rightarrow> ustring" where
  "number a = ascii ''0x'' @ hex (unat a)"

fun command :: "CmdlineEvents \<Rightarrow> ustring option" where
  "command Ev_Quit = Some (ascii ''quit'')"
| "command (Ev_Read a) = Some (ascii ''read '' @ number a)"
| "command (Ev_Write a d) = Some (ascii ''write '' @ number a @ ascii '' '' @ number d)"
| "command (Ev_CacheRead a) = Some (ascii ''cread '' @ number a)"
| "command (Ev_CacheWrite a d) = Some (ascii ''cwrite '' @ number a @ ascii '' '' @ number d)"
| "command (Ev_CacheRelease a) = Some (ascii ''cdestroy '' @ number a)"
| "command Ev_CacheReleaseAll = Some (ascii ''cdestroyall'')"
| "command Ev_Help = Some (ascii ''help'')"
| "command _ = None"

lemma not_space_hex: "c \<in> set (hex n) \<Longrightarrow> \<not> is_space c"
  using set_hex [of c n] by (auto simp: is_space_def hex_digit_def split: if_splits)

lemma last_number: "\<not> is_space (last (number a))"
  using not_space_hex [of "last (hex (unat a))" "unat a"] by (simp add: number_def)

lemma trim_pad:
  assumes "s \<noteq> []" "\<not> is_space (hd s)" "\<not> is_space (last s)"
  shows "trim (replicate m 0x20 @ s @ replicate n 0x20) = s"
proof -
  have d: "dropWhile is_space (replicate k 0x20 @ t) = dropWhile is_space t" for k t
    by (induction k) (auto simp: is_space_def)
  have "dropWhile is_space (s @ replicate n 0x20) = s @ replicate n 0x20" using assms(1,2) by (cases s) auto
  moreover have "dropWhile is_space (rev s) = rev s"
    using assms(1,3) by (cases s rule: rev_cases) auto
  ultimately show ?thesis by (simp add: trim_def d)
qed

lemma first_word_space:
  "s \<noteq> [] \<Longrightarrow> \<forall>c \<in> set s. \<not> is_space c \<Longrightarrow> first_word (s @ 0x20 # t) = s"
  "s \<noteq> [] \<Longrightarrow> \<forall>c \<in> set s. \<not> is_space c \<Longrightarrow> first_word s = s"
proof -
  have "dropWhile is_space (s @ u) = s @ u" if "s \<noteq> []" "\<forall>c \<in> set s. \<not> is_space c" for u
    using that by (cases s) auto
  moreover have "takeWhile (\<lambda>c. \<not> is_space c) (s @ 0x20 # t) = s" if "\<forall>c \<in> set s. \<not> is_space c"
    using that by (subst takeWhile_append2) (auto simp: is_space_def)
  ultimately show "s \<noteq> [] \<Longrightarrow> \<forall>c \<in> set s. \<not> is_space c \<Longrightarrow> first_word (s @ 0x20 # t) = s"
    "s \<noteq> [] \<Longrightarrow> \<forall>c \<in> set s. \<not> is_space c \<Longrightarrow> first_word s = s"
    by (auto simp: first_word_def)
qed

lemma command_trimmed:
  assumes "command e = Some s"
  shows "trim (replicate m 0x20 @ s @ replicate n 0x20) = s"
proof (rule trim_pad)
  show "s \<noteq> []" "\<not> is_space (hd s)"
    using assms by (cases e; auto simp: ascii_def is_space_def)+
  have n: "last (u @ number a) = last (number a)" "last (u @ v @ w @ number a) = last (number a)" for u v w a
    by (simp_all add: number_def)
  have "\<not> is_space (last (ascii ''quit''))" "\<not> is_space (last (ascii ''cdestroyall''))" "\<not> is_space (last (ascii ''help''))"
    by (simp_all add: ascii_def is_space_def)
  then show "\<not> is_space (last s)"
    using assms by (cases e) (auto simp: n last_number)
qed

text \<open>The word that selects a command, and what follows it.\<close>

lemma command_word:
  "first_word (ascii ''read '' @ t) = ascii ''read''" "first_word (ascii ''write '' @ t) = ascii ''write''"
  "first_word (ascii ''cread '' @ t) = ascii ''cread''" "first_word (ascii ''cwrite '' @ t) = ascii ''cwrite''"
  "first_word (ascii ''cdestroy '' @ t) = ascii ''cdestroy''" "first_word (ascii ''quit'') = ascii ''quit''"
  "first_word (ascii ''cdestroyall'') = ascii ''cdestroyall''" "first_word (ascii ''help'') = ascii ''help''"
  by (simp_all add: ascii_def first_word_def is_space_def)

lemma no_newline [simp]:
  "0x0A \<notin> set (ascii ''read '')" "0x0A \<notin> set (ascii ''write '')" "0x0A \<notin> set (ascii ''cread '')"
  "0x0A \<notin> set (ascii ''cwrite '')" "0x0A \<notin> set (ascii ''cdestroy '')"
  by (simp_all add: ascii_def)

lemma ascii_space: "ascii '' '' @ ascii ''0x'' @ t = ascii '' 0x'' @ t"
  by (simp add: ascii_def)

lemma ascii_inj: "ascii s = ascii t \<longleftrightarrow> s = t"
  unfolding ascii_def by (rule inj_map_eq_map) (simp add: inj_def)

context command_regex
begin

lemma parse_typed:
  assumes "command e = Some s"
  shows "parse_command (tui_arguments R) (replicate m 0x20 @ s @ replicate n 0x20) = Ok e"
proof -
  note t = command_trimmed [OF assms, of m n]
  have r: "get_read R (w @ number a) = Ok a" if "0x0A \<notin> set w" for w a
    using get_read_hex [OF that, of "unat a"] unat_u64 [of a] by (simp add: number_def)
  have w: "get_write R (w @ number a @ ascii '' '' @ number d) = Ok (a, d)" if "0x0A \<notin> set w" for w a d
    using get_write_hex [OF that, of a d] by (simp add: number_def ascii_space)
  from assms show ?thesis
    unfolding parse_command_def Let_def t
    by (cases e) (auto simp: command_word ascii_inj tui_arguments_def r w)
qed

end

text \<open>
  C25. What is typed is what is done: every command without a MAC address, typed with its long name and its numbers in
  hexadecimal and with any blanks around it, is recognised as that command with those numbers. A number of more than 64 bits is
  refused with an overflow error, and a line without a number with an error that quotes it.
\<close>

theorem typed_commands_parse:
  assumes "command_regex R"
  shows "(command e = Some s \<longrightarrow>
      parse_command (tui_arguments R) (replicate m 0x20 @ s @ replicate n 0x20) = Ok e) \<and>
    get_read R (ascii ''read 0x'' @ hex k) =
      (if k < 2 ^ 64 then Ok (of_nat k) else Err (TuiParseIntError PosOverflow)) \<and>
    (0x78 \<notin> set line \<longrightarrow>
      get_read R line = Err (TuiInvalidWriteRegex line) \<and> get_write R line = Err (TuiInvalidWriteRegex line))"
  using command_regex.parse_typed [OF assms] command_regex.no_number [OF assms]
    command_regex.get_read_hex [OF assms no_newline(1), of k]
  by (simp add: ascii_def)

section \<open>An implementation of the patterns\<close>

definition alnum :: "uchar \<Rightarrow> bool" where
  "alnum c \<longleftrightarrow> 0x30 \<le> c \<and> c \<le> 0x39 \<or> 0x41 \<le> c \<and> c \<le> 0x5A \<or> 0x61 \<le> c \<and> c \<le> 0x7A"

text \<open>The line before and after its last \<^verbatim>\<open>0x\<close> that a letter or digit follows.\<close>

fun last_0x :: "ustring \<Rightarrow> (ustring \<times> ustring) option" where
  "last_0x (c # cs) =
     (case last_0x cs of
        Some (p, r) \<Rightarrow> Some (c # p, r)
      | None \<Rightarrow>
          (case cs of
             x # y # r \<Rightarrow> if c = 0x30 \<and> x = 0x78 \<and> alnum y then Some ([], y # r) else None
           | _ \<Rightarrow> None))"
| "last_0x [] = None"

definition std_captures :: "string \<Rightarrow> ustring \<Rightarrow> ustring option list option" where
  "std_captures pat s =
     (case last_0x s of
        None \<Rightarrow> None
      | Some (p, r) \<Rightarrow>
          if pat = read_pattern then Some [Some (takeWhile alnum r)]
          else (case last_0x p of
             None \<Rightarrow> None
           | Some (q, v) \<Rightarrow> Some [Some (takeWhile alnum v), Some (takeWhile alnum r)]))"

definition std_regexes :: regexes where
  "std_regexes = \<lparr>regex_new = (\<lambda>_. True), captures = std_captures, mac_from_str = (\<lambda>_. None)\<rparr>"

lemma last_0x_no_x: "0x78 \<notin> set s \<Longrightarrow> last_0x s = None"
  by (induction s) (auto split: list.split)

lemma hex_alnum: "hex_digit c \<noteq> None \<Longrightarrow> alnum c \<and> c \<noteq> 0x78"
  by (auto simp: hex_digit_def alnum_def split: if_splits)

lemma last_0x_append:
  assumes "last_0x t = Some (p, r)"
  shows "last_0x (s @ t) = Some (s @ p, r)"
  by (induction s) (simp_all add: assms)

lemma last_0x_number:
  assumes "is_hex w" "0x78 \<notin> set u"
  shows "last_0x (pre @ ascii ''0x'' @ w @ u) = Some (pre, w @ u)"
proof -
  obtain c cs where w: "w = c # cs" "alnum c" "0x78 \<notin> set w"
    using assms(1) hex_alnum by (cases w) (auto simp: is_hex_def)
  have n: "last_0x (c # cs @ u) = None" using w assms(2) by (intro last_0x_no_x) auto
  then have "last_0x (0x78 # c # cs @ u) = None"
    by (subst last_0x.simps(1)) (simp only: n option.case list.case split: list.split, simp)
  then have "last_0x (0x30 # 0x78 # c # cs @ u) = Some ([], c # cs @ u)"
    using w(2) by (subst last_0x.simps(1)) (simp only: option.case list.case, simp)
  then have "last_0x (ascii ''0x'' @ w @ u) = Some ([], w @ u)" by (simp add: ascii_def w(1))
  then show ?thesis using last_0x_append by fastforce
qed

lemma take_hex: "is_hex w \<Longrightarrow> (u = [] \<or> \<not> alnum (hd u)) \<Longrightarrow> takeWhile alnum (w @ u) = w"
  using hex_alnum by (cases u) (auto simp: is_hex_def takeWhile_eq_all_conv takeWhile_append)

interpretation sx: command_regex std_regexes
proof
  fix pre v w s :: ustring
  have ne: "write_pattern \<noteq> read_pattern" by (simp add: write_pattern_def read_pattern_def)
  show "regex_new std_regexes read_pattern" "regex_new std_regexes write_pattern" by (simp_all add: std_regexes_def)
  show "captures std_regexes read_pattern (pre @ ascii ''0x'' @ w) = Some [Some w]" if "is_hex w"
    using last_0x_number [OF that, of "[]" pre] take_hex [OF that, of "[]"] by (simp add: std_regexes_def std_captures_def)
  show "captures std_regexes write_pattern (pre @ ascii ''0x'' @ v @ ascii '' 0x'' @ w) = Some [Some v, Some w]"
    if vw: "is_hex v" "is_hex w"
  proof -
    have eq: "pre @ ascii ''0x'' @ v @ ascii '' 0x'' @ w = (pre @ ascii ''0x'' @ v @ [0x20]) @ ascii ''0x'' @ w @ []"
      by (simp add: ascii_def)
    have l: "last_0x (pre @ ascii ''0x'' @ v @ ascii '' 0x'' @ w) = Some (pre @ ascii ''0x'' @ v @ [0x20], w)"
      unfolding eq using last_0x_number [OF vw(2), of "[]" "pre @ ascii ''0x'' @ v @ [0x20]"] by simp
    have "last_0x (pre @ ascii ''0x'' @ v @ [0x20]) = Some (pre, v @ [0x20])"
      using last_0x_number [OF vw(1)] by simp
    moreover have "takeWhile alnum (v @ [0x20]) = v" "takeWhile alnum w = w"
      using take_hex [OF vw(1), of "[0x20]"] take_hex [OF vw(2), of "[]"] by (simp_all add: alnum_def)
    ultimately show ?thesis using ne by (simp add: std_regexes_def std_captures_def l)
  qed
  show "captures std_regexes read_pattern s = None \<and> captures std_regexes write_pattern s = None" if "0x78 \<notin> set s"
    using that by (simp add: std_regexes_def std_captures_def last_0x_no_x)
qed

theorem typed_commands_parse_witness:
  "parse_command (tui_arguments std_regexes) (ascii ''  write 0x1f 0x2 '') = Ok (Ev_Write 0x1F 2) \<and>
   get_read std_regexes (ascii ''read'') = Err (TuiInvalidWriteRegex (ascii ''read''))"
proof -
  have h: "hex 31 = ascii ''1f''" "hex 2 = ascii ''2''" by (simp_all add: hex.simps hex_char_def ascii_def)
  have "command (Ev_Write 0x1F 2) = Some (ascii ''write 0x1f 0x2'')"
    by (simp add: number_def h) (simp add: ascii_def)
  moreover have "replicate 2 0x20 @ ascii ''write 0x1f 0x2'' @ replicate 1 0x20 = ascii ''  write 0x1f 0x2 ''"
    by code_simp
  moreover have "0x78 \<notin> set (ascii ''read'')" by (simp add: ascii_def)
  ultimately show ?thesis
    using typed_commands_parse [OF sx.command_regex_axioms, of "Ev_Write 0x1F 2" "ascii ''write 0x1f 0x2''" 2 1 0 "ascii ''read''"]
    by simp
qed

end
