(* ===== verification/Tui.thy ===== *)
theory Tui
  imports Endpoint Tui_Args
begin

text \<open>
  \<^verbatim>\<open>omnixtend-tui/src/connection.rs\<close> and the event handling of \<^verbatim>\<open>omnixtend-tui/src/main.rs\<close>: a table of
  connections by MAC address, each responsible for a range of addresses. Calls that wait are polled, with
  \<open>None\<close> as the phase in which they start; the order in which the concurrent table is iterated is an argument.
  Drawing, the threads and the network interface follow in other theories.
\<close>

section \<open>A connection of the tool\<close>

record 'm TuiConnection =
  tc_connection :: "'m Connection"
  tc_cache :: Cache
  tc_operations :: Operations
  tc_addr :: u64
  tc_size :: u64
  tc_tick :: Tick

definition tc_new ::
    "'m modular \<Rightarrow> instant \<Rightarrow> u8 \<Rightarrow> MacAddr \<Rightarrow> MacAddr \<Rightarrow> u64 \<Rightarrow> u64 \<Rightarrow> bool \<Rightarrow> 'm TuiConnection" where
  "tc_new L now i mine other address range_size ox10mode =
     \<lparr>tc_connection = establish_connection (conn_new L now now ox10mode i mine other),
      tc_cache = cache_new i, tc_operations = operations_new, tc_addr = address, tc_size = range_size,
      tc_tick = tick_new now 1000000 100000000 1000 (Some 1000000000)\<rparr>"

definition tc_status :: "'m TuiConnection \<Rightarrow> ConnectionState" where
  "tc_status c = connection_state (tc_connection c)"

definition tc_tick_once :: "'m modular \<Rightarrow> pnet \<Rightarrow> instant \<Rightarrow> 'm TuiConnection \<Rightarrow> 'm TuiConnection outcome" where
  "tc_tick_once L P now c =
     and_then (tick L P now (tc_tick c) (tc_operations c) (tc_connection c) (tc_cache c)) (\<lambda>(t, ops, cn, ca).
       Returns (c\<lparr>tc_tick := t, tc_operations := ops, tc_connection := cn, tc_cache := ca\<rparr>))"

definition tc_process_packet ::
    "'m modular \<Rightarrow> pnet \<Rightarrow> instant \<Rightarrow> bytes \<Rightarrow> 'm TuiConnection \<Rightarrow> 'm TuiConnection outcome option" where
  "tc_process_packet L P now d c =
     map_option (\<lambda>m. and_then m (\<lambda>(r, cn, ca, ops).
       Returns (c\<lparr>tc_connection := cn, tc_cache := ca, tc_operations := ops\<rparr>)))
       (process_packet L P now d (tc_connection c) (tc_cache c) (tc_operations c))"

definition tc_get_packet :: "instant \<Rightarrow> 'm TuiConnection \<Rightarrow> bytes option \<times> 'm TuiConnection" where
  "tc_get_packet now c = (let (p, cn) = get_packet now (tc_connection c) in (p, c\<lparr>tc_connection := cn\<rparr>))"

definition deals_with :: "'m TuiConnection \<Rightarrow> u64 \<Rightarrow> bool" where
  "deals_with c address \<longleftrightarrow> address \<ge> tc_addr c \<and> address < tc_addr c + tc_size c"

definition reject_inactive :: "'m TuiConnection \<Rightarrow> (unit, tui_error) result" where
  "reject_inactive c = (if \<not> is_active (tc_connection c) then Err ConnectionNotActive else Ok ())"

definition tc_put :: "'m TuiConnection \<Rightarrow> Cache \<Rightarrow> Operations \<Rightarrow> credits \<Rightarrow> 'm TuiConnection" where
  "tc_put c ca ops cr = c\<lparr>tc_cache := ca, tc_operations := ops,
     tc_connection := (tc_connection c)\<lparr>credits_send := cr\<rparr>\<rparr>"

subsection \<open>Cached accesses\<close>

definition tc_cached ::
    "(Cache \<Rightarrow> Operations \<Rightarrow> credits \<Rightarrow> 'v access_result outcome) \<Rightarrow> 'm TuiConnection \<Rightarrow>
     ((access_phase + ('v, tui_error) result) \<times> 'm TuiConnection) outcome" where
  "tc_cached f c =
     and_then (f (tc_cache c) (tc_operations c) (credits_send (tc_connection c))) (\<lambda>(x, ca, ops, cr).
       Returns (map_sum id (map_err TuiCacheError) x, tc_put c ca ops cr))"

definition tc_cache_read ::
    "access_phase option \<Rightarrow> u64 \<Rightarrow> 'm TuiConnection \<Rightarrow>
     ((access_phase + (u64, tui_error) result) \<times> 'm TuiConnection) outcome" where
  "tc_cache_read ph address c =
     (let address = address - tc_addr c in
      case ph of
        Some ph \<Rightarrow> tc_cached (cache_read ph address) c
      | None \<Rightarrow>
          (case reject_inactive c of
             Err e \<Rightarrow> Returns (Inr (Err e), c)
           | Ok _ \<Rightarrow> tc_cached (cache_read Access_try address) c))"

definition tc_cache_write ::
    "access_phase option \<Rightarrow> u64 \<Rightarrow> u64 \<Rightarrow> 'm TuiConnection \<Rightarrow>
     ((access_phase + (unit, tui_error) result) \<times> 'm TuiConnection) outcome" where
  "tc_cache_write ph address d c =
     (let address = address - tc_addr c in
      case ph of
        Some ph \<Rightarrow> tc_cached (cache_write ph address d) c
      | None \<Rightarrow>
          (case reject_inactive c of
             Err e \<Rightarrow> Returns (Inr (Err e), c)
           | Ok _ \<Rightarrow> tc_cached (cache_write Access_try address d) c))"

text \<open>Unlike the accesses, a release of one line takes the address as it was typed.\<close>

definition tc_release_line ::
    "release_phase \<Rightarrow> u64 \<Rightarrow> 'm TuiConnection \<Rightarrow>
     ((release_phase + (unit, tui_error) result) \<times> 'm TuiConnection) outcome" where
  "tc_release_line ph address c =
     and_then (release_addr ph address (tc_cache c) (tc_operations c) (credits_send (tc_connection c)))
       (\<lambda>(x, ca, ops, cr). Returns (map_sum id (map_err TuiCacheError) x, tc_put c ca ops cr))"

definition tc_cache_release_single ::
    "release_phase option \<Rightarrow> u64 \<Rightarrow> 'm TuiConnection \<Rightarrow>
     ((release_phase + (unit, tui_error) result) \<times> 'm TuiConnection) outcome" where
  "tc_cache_release_single ph address c =
     (case ph of
        Some ph \<Rightarrow> tc_release_line ph address c
      | None \<Rightarrow>
          (case reject_inactive c of
             Err e \<Rightarrow> Returns (Inr (Err e), c)
           | Ok _ \<Rightarrow> tc_release_line Release_start address c))"

text \<open>The release of all lines: the phase carries the line in progress and the lines to come.\<close>

type_synonym releases = "(u64 \<times> perform_phase) \<times> u64 list"

definition tc_release_lines ::
    "(u64 \<times> perform_phase) option \<Rightarrow> u64 list \<Rightarrow> 'm TuiConnection \<Rightarrow> (releases option \<times> 'm TuiConnection) outcome" where
  "tc_release_lines ph keys c =
     and_then (release ph keys (tc_cache c) (tc_operations c) (credits_send (tc_connection c)))
       (\<lambda>(x, ca, ops, cr). Returns (x, tc_put c ca ops cr))"

definition tc_cache_release ::
    "releases option \<Rightarrow> u64 list \<Rightarrow> 'm TuiConnection \<Rightarrow>
     ((releases + (unit, tui_error) result) \<times> 'm TuiConnection) outcome" where
  "tc_cache_release ph keys c =
     (let finish = (\<lambda>(x, c). case x of Some r \<Rightarrow> (Inl r, c) | None \<Rightarrow> (Inr (Ok ()), c)) in
      case ph of
        Some (line, keys) \<Rightarrow> and_then (tc_release_lines (Some line) keys c) (\<lambda>r. Returns (finish r))
      | None \<Rightarrow>
          (case reject_inactive c of
             Err e \<Rightarrow> Returns (Inr (Err e), c)
           | Ok _ \<Rightarrow> and_then (tc_release_lines None keys c) (\<lambda>r. Returns (finish r))))"

subsection \<open>Uncached accesses\<close>

definition tc_poll ::
    "(TLResult \<Rightarrow> ('v, tui_error) result) \<Rightarrow> perform_phase \<Rightarrow> 'm TuiConnection \<Rightarrow>
     ((perform_phase + ('v, tui_error) result) \<times> 'm TuiConnection) outcome" where
  "tc_poll ret ph c =
     and_then (perform ph (tc_operations c) (credits_send (tc_connection c))) (\<lambda>(x, ops, cr).
       Returns
         (case x of
            Inl ph \<Rightarrow> Inl ph
          | Inr (Ok v) \<Rightarrow> Inr (ret v)
          | Inr (Err e) \<Rightarrow> Inr (Err (TuiOperationsError e)), tc_put c (tc_cache c) ops cr))"

definition tc_call ::
    "(TLResult \<Rightarrow> ('v, tui_error) result) \<Rightarrow> TLOperations \<Rightarrow> perform_phase option \<Rightarrow> 'm TuiConnection \<Rightarrow>
     ((perform_phase + ('v, tui_error) result) \<times> 'm TuiConnection) outcome" where
  "tc_call ret oper ph c =
     (case ph of
        Some ph \<Rightarrow> tc_poll ret ph c
      | None \<Rightarrow>
          (case reject_inactive c of
             Err e \<Rightarrow> Returns (Inr (Err e), c)
           | Ok _ \<Rightarrow> tc_poll ret (Get_source oper) (c\<lparr>tc_operations := perform_enter (tc_operations c)\<rparr>)))"

fun tui_data64 :: "TLResult \<Rightarrow> (u64, tui_error) result" where
  "tui_data64 (Data64 v) = Ok v"
| "tui_data64 _ = Err TuiWrongReturnType"

definition tc_read ::
    "u64 \<Rightarrow> perform_phase option \<Rightarrow> 'm TuiConnection \<Rightarrow>
     ((perform_phase + (u64, tui_error) result) \<times> 'm TuiConnection) outcome" where
  "tc_read address ph c = tc_call tui_data64 (Read \<lparr>read_address = address - tc_addr c\<rparr>) ph c"

definition tc_write ::
    "u64 \<Rightarrow> u64 \<Rightarrow> perform_phase option \<Rightarrow> 'm TuiConnection \<Rightarrow>
     ((perform_phase + (unit, tui_error) result) \<times> 'm TuiConnection) outcome" where
  "tc_write address d ph c =
     tc_call (\<lambda>_. Ok ()) (Write \<lparr>write_address = address - tc_addr c, write_data = d\<rparr>) ph c"

subsection \<open>Disconnecting\<close>

datatype disconnect_phase = Dc_release "releases option" | Dc_close close_phase

definition dc_close ::
    "'m modular \<Rightarrow> instant \<Rightarrow> close_phase \<Rightarrow> 'm TuiConnection \<Rightarrow> disconnect_phase option \<times> 'm TuiConnection" where
  "dc_close L now ph c =
     (let (x, cn) = close_connection L (Some 500000000) now ph (tc_connection c) in
      (case x of Inl ph \<Rightarrow> Some (Dc_close ph) | Inr _ \<Rightarrow> None, c\<lparr>tc_connection := cn\<rparr>))"

text \<open>Errors of the two steps are only logged. \<open>keys\<close> is the order of the cache's iterator.\<close>

fun disconnect ::
    "'m modular \<Rightarrow> instant \<Rightarrow> u64 list \<Rightarrow> disconnect_phase \<Rightarrow> 'm TuiConnection \<Rightarrow>
     (disconnect_phase option \<times> 'm TuiConnection) outcome" where
  "disconnect L now keys (Dc_release ph) c =
     and_then (tc_cache_release ph keys c) (\<lambda>(x, c).
       case x of
         Inl r \<Rightarrow> Returns (Some (Dc_release (Some r)), c)
       | Inr _ \<Rightarrow> Returns (dc_close L now Close_start c))"
| "disconnect L now keys (Dc_close ph) c = Returns (dc_close L now ph c)"

section \<open>The table of connections\<close>

record 'm Tui_app =
  connections :: "MacAddr \<rightharpoonup> 'm TuiConnection"
  con_cntr :: u8

text \<open>The part of the connection thread that handles a received packet.\<close>

definition dispatch_packet ::
    "'m modular \<Rightarrow> pnet \<Rightarrow> instant \<Rightarrow> MacAddr \<Rightarrow> bytes \<Rightarrow> (MacAddr \<rightharpoonup> 'm TuiConnection) \<Rightarrow>
     (MacAddr \<rightharpoonup> 'm TuiConnection) outcome option" where
  "dispatch_packet L P now mine x cs =
     (if eth_new P x \<and> eth_get_ethertype P x = 0xAAAA \<and> eth_get_destination P x = mine then
        (case cs (eth_get_source P x) of
           Some c \<Rightarrow>
             map_option (\<lambda>m. and_then m (\<lambda>c. Returns (cs(eth_get_source P x \<mapsto> c))))
               (tc_process_packet L P now x c)
         | None \<Rightarrow> Some (Returns cs))
      else Some (Returns cs))"

text \<open>The loop over the connections, in the order \<open>macs\<close>: one packet is handed to the network, then the tick.\<close>

fun serve_connections ::
    "'m modular \<Rightarrow> pnet \<Rightarrow> instant \<Rightarrow> MacAddr list \<Rightarrow> (MacAddr \<rightharpoonup> 'm TuiConnection) \<Rightarrow>
     (bytes list \<times> (MacAddr \<rightharpoonup> 'm TuiConnection)) outcome" where
  "serve_connections L P now [] cs = Returns ([], cs)"
| "serve_connections L P now (m # macs) cs =
     (case cs m of
        None \<Rightarrow> serve_connections L P now macs cs
      | Some c \<Rightarrow>
          let (p, c) = tc_get_packet now c in
          and_then (tc_tick_once L P now c) (\<lambda>c.
          and_then (serve_connections L P now macs (cs(m \<mapsto> c))) (\<lambda>(ps, cs).
          Returns (case p of Some p \<Rightarrow> p # ps | None \<Rightarrow> ps, cs))))"

text \<open>
  What the tool writes to its log. A message holds the values that its text is formatted from; its level
  is that of the call of \<^verbatim>\<open>log_message\<close>.
\<close>

datatype level = L_Error | L_Warn | L_Info | L_Debug | L_Trace

datatype message =
    Msg_text ustring
  | Msg_connected MacAddr
  | Msg_disconnecting MacAddr
  | Msg_no_connection u64
  | Msg_read u64 "(u64, tui_error) result"
  | Msg_cache_read u64 "(u64, tui_error) result"
  | Msg_write u64 u64 "(unit, tui_error) result"
  | Msg_cache_write u64 u64 "(unit, tui_error) result"
  | Msg_release "(unit, tui_error) result"
  | Msg_release_all "(unit, tui_error) result"
  | Msg_failed_tui tui_error
  | Msg_failed_draw tui_error

fun result_level :: "('v, 'e) result \<Rightarrow> level" where
  "result_level (Ok _) = L_Info"
| "result_level (Err _) = L_Error"

fun message_level :: "message \<Rightarrow> level" where
  "message_level (Msg_read _ r) = result_level r"
| "message_level (Msg_cache_read _ r) = result_level r"
| "message_level (Msg_write _ _ r) = result_level r"
| "message_level (Msg_cache_write _ _ r) = result_level r"
| "message_level (Msg_release r) = result_level r"
| "message_level (Msg_release_all r) = result_level r"
| "message_level (Msg_failed_tui _) = L_Error"
| "message_level (Msg_failed_draw _) = L_Error"
| "message_level _ = L_Info"

definition help_lines :: "message list" where
  "help_lines = map (Msg_text \<circ> ascii)
     [''Help'', ''Command is enclosed in ()'', ''(c)onnnect MAC'', ''(d)isconnnect MAC'', ''(r)ead 0xADDR'',
      ''(w)rite 0xADDR 0xDATA'', ''(cr)ead 0xADDR (Cached read)'', ''(cw)rite 0xADDR 0xDATA (Cached write)'',
      ''(cd)estroy 0xADDR (Cache release all)'']"

text \<open>\<^verbatim>\<open>handle_tui_events\<close>, for the event that \<^verbatim>\<open>events()\<close> returned: whether the tool quits, what it logs, and
  the event it sends to the operation thread.\<close>

fun handle_tui_events :: "CmdlineEvents \<Rightarrow> bool \<times> message list \<times> CmdlineEvents option" where
  "handle_tui_events Ev_Quit = (True, [], None)"
| "handle_tui_events Ev_None = (False, [], None)"
| "handle_tui_events Ev_Help = (False, help_lines, None)"
| "handle_tui_events e = (False, [], Some e)"

text \<open>\<^verbatim>\<open>connections_local.retain(...)\<close> of the operation thread.\<close>

definition retain_open :: "(MacAddr \<rightharpoonup> 'm TuiConnection) \<Rightarrow> MacAddr \<rightharpoonup> 'm TuiConnection" where
  "retain_open cs = (\<lambda>m. case cs m of Some c \<Rightarrow> if tc_status c \<noteq> Idle then Some c else None | None \<Rightarrow> None)"

definition execute_for_connection :: "MacAddr list \<Rightarrow> (MacAddr \<rightharpoonup> 'm TuiConnection) \<Rightarrow> u64 \<Rightarrow> MacAddr option" where
  "execute_for_connection macs cs address =
     find (\<lambda>m. case cs m of Some c \<Rightarrow> deals_with c address | None \<Rightarrow> False) macs"

text \<open>
  \<^verbatim>\<open>handle_connection_events\<close>: what it logs before it calls a connection, the calls that the event makes in order,
  and the change of the table. Each call is polled to its end, so a disconnect ends before its connection is removed
  from the table.
\<close>

datatype tui_call =
    Call_disconnect MacAddr
  | Call_read MacAddr u64
  | Call_write MacAddr u64 u64
  | Call_cache_read MacAddr u64
  | Call_cache_write MacAddr u64 u64
  | Call_cache_release MacAddr u64
  | Call_cache_release_all MacAddr
  | Call_remove MacAddr

text \<open>The first connection that deals with the address; when there is none, \<^verbatim>\<open>execute_for_connection\<close> says so.\<close>

definition call_for ::
    "MacAddr list \<Rightarrow> 'm Tui_app \<Rightarrow> u64 \<Rightarrow> (MacAddr \<Rightarrow> tui_call) \<Rightarrow> message list \<times> tui_call list \<times> 'm Tui_app" where
  "call_for macs app a f =
     (case execute_for_connection macs (connections app) a of
        Some m \<Rightarrow> ([], [f m], app)
      | None \<Rightarrow> ([Msg_no_connection a], [], app))"

fun handle_connection_events ::
    "'m modular \<Rightarrow> instant \<Rightarrow> MacAddr \<Rightarrow> bool \<Rightarrow> MacAddr list \<Rightarrow> CmdlineEvents \<Rightarrow> 'm Tui_app \<Rightarrow>
     message list \<times> tui_call list \<times> 'm Tui_app" where
  "handle_connection_events L now mine ox10mode macs (Ev_Connect mac) app =
     (if connections app mac = None then
        ([Msg_connected mac], [],
         app\<lparr>connections := (connections app)
               (mac \<mapsto> tc_new L now (con_cntr app) mine mac 0 (8 * 1024 * 1024) ox10mode),
             con_cntr := con_cntr app + 1\<rparr>)
      else ([], [], app))"
| "handle_connection_events L now mine ox10mode macs (Ev_Disconnect mac) app =
     (case connections app mac of
        Some c \<Rightarrow> ([Msg_disconnecting mac], [Call_disconnect mac, Call_remove mac], app)
      | None \<Rightarrow> ([], [Call_remove mac], app))"
| "handle_connection_events L now mine ox10mode macs (Ev_Read a) app = call_for macs app a (\<lambda>m. Call_read m a)"
| "handle_connection_events L now mine ox10mode macs (Ev_CacheRead a) app =
     (case find (\<lambda>m. case connections app m of Some c \<Rightarrow> deals_with c a | None \<Rightarrow> False) macs of
        Some m \<Rightarrow> ([], [Call_cache_read m a], app)
      | None \<Rightarrow> ([], [], app))"
| "handle_connection_events L now mine ox10mode macs (Ev_Write a d) app = call_for macs app a (\<lambda>m. Call_write m a d)"
| "handle_connection_events L now mine ox10mode macs (Ev_CacheWrite a d) app =
     call_for macs app a (\<lambda>m. Call_cache_write m a d)"
| "handle_connection_events L now mine ox10mode macs (Ev_CacheRelease a) app =
     call_for macs app a (\<lambda>m. Call_cache_release m a)"
| "handle_connection_events L now mine ox10mode macs Ev_CacheReleaseAll app =
     ([], map Call_cache_release_all (filter (\<lambda>m. connections app m \<noteq> None) macs), app)"
| "handle_connection_events L now mine ox10mode macs _ app = ([], [], app)"

text \<open>A call is polled like the operations it performs; \<open>None\<close> is the start of the call. What it returns is
  logged; a disconnect logs nothing here.\<close>

datatype call_phase =
    Ph_perform perform_phase
  | Ph_access access_phase
  | Ph_release release_phase
  | Ph_releases releases
  | Ph_disconnect disconnect_phase

fun as_perform :: "call_phase option \<Rightarrow> perform_phase option" where
  "as_perform (Some (Ph_perform ph)) = Some ph"
| "as_perform _ = None"

fun as_access :: "call_phase option \<Rightarrow> access_phase option" where
  "as_access (Some (Ph_access ph)) = Some ph"
| "as_access _ = None"

fun as_release :: "call_phase option \<Rightarrow> release_phase option" where
  "as_release (Some (Ph_release ph)) = Some ph"
| "as_release _ = None"

fun as_releases :: "call_phase option \<Rightarrow> releases option" where
  "as_releases (Some (Ph_releases ph)) = Some ph"
| "as_releases _ = None"

fun as_disconnect :: "call_phase option \<Rightarrow> disconnect_phase" where
  "as_disconnect (Some (Ph_disconnect ph)) = ph"
| "as_disconnect _ = Dc_release None"

definition logged ::
    "('p \<Rightarrow> call_phase) \<Rightarrow> ('r \<Rightarrow> message) \<Rightarrow> (('p + 'r) \<times> 'm TuiConnection) outcome \<Rightarrow>
     ((call_phase + message list) \<times> 'm TuiConnection) outcome" where
  "logged f g m = and_then m (\<lambda>(x, c). Returns (map_sum f (\<lambda>r. [g r]) x, c))"

fun poll_call ::
    "'m modular \<Rightarrow> instant \<Rightarrow> u64 list \<Rightarrow> tui_call \<Rightarrow> call_phase option \<Rightarrow> 'm TuiConnection \<Rightarrow>
     ((call_phase + message list) \<times> 'm TuiConnection) outcome" where
  "poll_call L now keys (Call_disconnect m) ph c =
     and_then (disconnect L now keys (as_disconnect ph) c) (\<lambda>(x, c).
       Returns (case x of Some ph \<Rightarrow> Inl (Ph_disconnect ph) | None \<Rightarrow> Inr [], c))"
| "poll_call L now keys (Call_read m a) ph c = logged Ph_perform (Msg_read a) (tc_read a (as_perform ph) c)"
| "poll_call L now keys (Call_write m a d) ph c = logged Ph_perform (Msg_write a d) (tc_write a d (as_perform ph) c)"
| "poll_call L now keys (Call_cache_read m a) ph c =
     logged Ph_access (Msg_cache_read a) (tc_cache_read (as_access ph) a c)"
| "poll_call L now keys (Call_cache_write m a d) ph c =
     logged Ph_access (Msg_cache_write a d) (tc_cache_write (as_access ph) a d c)"
| "poll_call L now keys (Call_cache_release m a) ph c =
     logged Ph_release Msg_release (tc_cache_release_single (as_release ph) a c)"
| "poll_call L now keys (Call_cache_release_all m) ph c =
     logged Ph_releases Msg_release_all (tc_cache_release (as_releases ph) keys c)"
| "poll_call L now keys (Call_remove m) ph c = Returns (Inr [], c)"

text \<open>One pass of the loop that waits for the connections to stop: whether it is the last one.\<close>

definition shutdown_pass :: "'m TuiConnection list \<Rightarrow> bool" where
  "shutdown_pass cs \<longleftrightarrow> \<not> (\<exists>c \<in> set cs. tc_status c = Idle)"

section \<open>Properties\<close>

fun access_target :: "tui_call \<Rightarrow> (MacAddr \<times> u64) option" where
  "access_target (Call_read m a) = Some (m, a)"
| "access_target (Call_write m a d) = Some (m, a)"
| "access_target (Call_cache_read m a) = Some (m, a)"
| "access_target (Call_cache_write m a d) = Some (m, a)"
| "access_target _ = None"

lemma deals_with_offset:
  "deals_with c a \<Longrightarrow> a - tc_addr c < tc_size c"
proof -
  assume "deals_with c a"
  then have le: "tc_addr c \<le> a" and lt: "a < tc_addr c + tc_size c" by (simp_all add: deals_with_def)
  have "unat (tc_addr c + tc_size c) \<le> unat (tc_addr c) + unat (tc_size c)"
    by (simp add: unat_word_ariths(1))
  moreover have "unat a < unat (tc_addr c + tc_size c)" using lt by (simp add: word_less_nat_alt)
  moreover have "unat (tc_addr c) \<le> unat a" using le by (simp add: word_le_nat_alt)
  ultimately show ?thesis using unat_sub [OF le] by (simp add: word_less_nat_alt)
qed

lemma execute_for_connection_deals:
  "execute_for_connection macs cs a = Some m \<Longrightarrow> m \<in> set macs \<and> (\<exists>c. cs m = Some c \<and> deals_with c a)"
  by (auto simp: execute_for_connection_def find_Some_iff split: option.splits)

text \<open>
  The phases in which a call on connection \<open>c\<close> waits. Between two polls other threads may change anything
  about the connection but its range, whose fields are never written.
\<close>

definition same_range :: "'m TuiConnection \<Rightarrow> 'm TuiConnection \<Rightarrow> bool" where
  "same_range c c' \<longleftrightarrow> tc_addr c' = tc_addr c \<and> tc_size c' = tc_size c"

inductive call_waits :: "'m modular \<Rightarrow> tui_call \<Rightarrow> 'm TuiConnection \<Rightarrow> call_phase \<Rightarrow> bool" for L call c where
  cw_start: "same_range c c1 \<Longrightarrow> poll_call L now keys call None c1 = Returns (Inl ph, c2) \<Longrightarrow> call_waits L call c ph"
| cw_poll: "call_waits L call c ph \<Longrightarrow> same_range c c1 \<Longrightarrow>
    poll_call L now keys call (Some ph) c1 = Returns (Inl ph', c2) \<Longrightarrow> call_waits L call c ph'"

text \<open>The request a waiting call has under way, and the address in it.\<close>

fun phase_request :: "call_phase \<Rightarrow> TLOperations option" where
  "phase_request (Ph_perform ph) = Some (phase_oper ph)"
| "phase_request (Ph_access (Access_acquire ph)) = Some (phase_oper ph)"
| "phase_request _ = None"

fun request_address :: "TLOperations \<Rightarrow> u64 option" where
  "request_address (Read r) = Some (read_address r)"
| "request_address (Write r) = Some (write_address r)"
| "request_address (AcquireBlock r) = Some (perm_address r)"
| "request_address _ = None"

definition asks_for :: "u64 \<Rightarrow> TLOperations \<Rightarrow> bool" where
  "asks_for x oper \<longleftrightarrow> request_address oper = Some x \<and> has_return oper"

lemma asks_for_simps [simp]:
  "asks_for x (Read \<lparr>read_address = x\<rparr>)"
  "asks_for x (Write \<lparr>write_address = x, write_data = d\<rparr>)"
  "asks_for x (acquire_op x p q)"
  by (simp_all add: asks_for_def acquire_op_def)

lemma perform_asks:
  assumes "perform ph ops cr = Returns (Inl ph', ops', cr')" "asks_for x (phase_oper ph)"
  shows "asks_for x (phase_oper ph')"
  using perform_fits [OF assms(1) has_return_phase] assms(2) by (simp add: asks_for_def)

lemma cache_acquire_asks:
  assumes "cache_acquire ph a perm ca ops cr = Returns (Inl (Access_acquire ph'), r)" "asks_for x (phase_oper ph)"
  shows "asks_for x (phase_oper ph')"
  using assms by (auto simp: cache_acquire_def elim!: and_then_ReturnsE split: sum.splits result.splits dest: perform_asks)

lemma cache_access_asks:
  assumes "cache_read ph x ca ops cr = Returns (Inl (Access_acquire ph'), r) \<or>
      cache_write ph x d ca ops cr = Returns (Inl (Access_acquire ph'), r')"
    and "\<And>p. ph = Access_acquire p \<Longrightarrow> asks_for x (phase_oper p)"
  shows "asks_for x (phase_oper ph')"
proof (cases ph)
  case (Access_acquire p)
  with assms show ?thesis by (auto dest: cache_acquire_asks)
next
  case Access_try
  with assms(1) show ?thesis
    by (auto simp: read_try_def write_try_def cache_attempt_def elim!: and_then_ReturnsE cache_acquire_asks
      split: option.splits if_splits)
qed

lemma tc_poll_asks:
  assumes "tc_poll ret ph c = Returns (Inl ph', c')" "asks_for x (phase_oper ph)"
  shows "asks_for x (phase_oper ph')"
  using assms by (auto simp: tc_poll_def elim!: and_then_ReturnsE split: result.splits sum.splits dest: perform_asks)

lemma tc_call_asks:
  assumes "tc_call ret oper ph c = Returns (Inl ph', c')" "asks_for x oper"
    and "\<And>p. ph = Some p \<Longrightarrow> asks_for x (phase_oper p)"
  shows "asks_for x (phase_oper ph')"
  using assms by (auto simp: tc_call_def split: option.splits result.splits dest: tc_poll_asks)

lemma tc_cached_waits:
  assumes "tc_cached f c = Returns (Inl ph, c')"
  obtains r where "f (tc_cache c) (tc_operations c) (credits_send (tc_connection c)) = Returns (Inl ph, r)"
  using assms by (auto simp: tc_cached_def map_sum_def elim!: and_then_ReturnsE split: sum.splits)

lemma tc_cache_read_asks:
  assumes "tc_cache_read ph a c = Returns (Inl (Access_acquire ph'), c')"
    and "\<And>p. ph = Some (Access_acquire p) \<Longrightarrow> asks_for (a - tc_addr c) (phase_oper p)"
  shows "asks_for (a - tc_addr c) (phase_oper ph')"
proof -
  have "tc_cached (cache_read (case_option Access_try id ph) (a - tc_addr c)) c = Returns (Inl (Access_acquire ph'), c')"
    using assms(1) by (auto simp: tc_cache_read_def split: option.splits result.splits)
  then obtain r where "cache_read (case_option Access_try id ph) (a - tc_addr c) (tc_cache c) (tc_operations c)
      (credits_send (tc_connection c)) = Returns (Inl (Access_acquire ph'), r)"
    by (rule tc_cached_waits)
  then show ?thesis
    by (rule cache_access_asks [OF disjI1]) (use assms(2) in \<open>auto split: option.splits\<close>)
qed

lemma tc_cache_write_asks:
  assumes "tc_cache_write ph a d c = Returns (Inl (Access_acquire ph'), c')"
    and "\<And>p. ph = Some (Access_acquire p) \<Longrightarrow> asks_for (a - tc_addr c) (phase_oper p)"
  shows "asks_for (a - tc_addr c) (phase_oper ph')"
proof -
  have "tc_cached (cache_write (case_option Access_try id ph) (a - tc_addr c) d) c = Returns (Inl (Access_acquire ph'), c')"
    using assms(1) by (auto simp: tc_cache_write_def split: option.splits result.splits)
  then obtain r where "cache_write (case_option Access_try id ph) (a - tc_addr c) d (tc_cache c) (tc_operations c)
      (credits_send (tc_connection c)) = Returns (Inl (Access_acquire ph'), r)"
    by (rule tc_cached_waits)
  then show ?thesis
    by (rule cache_access_asks [OF disjI2]) (use assms(2) in \<open>auto split: option.splits\<close>)
qed

lemma logged_waits:
  assumes "logged f g m = Returns (Inl q, c')"
  obtains x where "m = Returns (Inl x, c')" "q = f x"
  using assms by (auto simp: logged_def map_sum_def elim!: and_then_ReturnsE split: sum.splits)

lemma poll_call_asks:
  assumes "poll_call L now keys call ph c = Returns (Inl ph', c')" "access_target call = Some (m, a)"
    and "\<And>p oper. ph = Some p \<Longrightarrow> phase_request p = Some oper \<Longrightarrow> asks_for (a - tc_addr c) oper"
    and "phase_request ph' = Some oper"
  shows "asks_for (a - tc_addr c) oper"
proof -
  have p: "asks_for (a - tc_addr c) (phase_oper p)" if "as_perform ph = Some p" for p
    using that assms(3) by (cases ph rule: as_perform.cases) auto
  have q: "asks_for (a - tc_addr c) (phase_oper p)" if "as_access ph = Some (Access_acquire p)" for p
    using that assms(3) by (cases ph rule: as_access.cases) auto
  show ?thesis
  proof (cases call)
    case (Call_read m' a')
    with assms(1,2) obtain x where "tc_read a (as_perform ph) c = Returns (Inl x, c')" "ph' = Ph_perform x"
      by (auto elim: logged_waits)
    with assms(4) p show ?thesis by (auto simp: tc_read_def elim!: tc_call_asks)
  next
    case (Call_write m' a' d)
    with assms(1,2) obtain x where "tc_write a d (as_perform ph) c = Returns (Inl x, c')" "ph' = Ph_perform x"
      by (auto elim: logged_waits)
    with assms(4) p show ?thesis by (auto simp: tc_write_def elim!: tc_call_asks)
  next
    case (Call_cache_read m' a')
    with assms(1,2) obtain x where "tc_cache_read (as_access ph) a c = Returns (Inl x, c')" "ph' = Ph_access x"
      by (auto elim: logged_waits)
    with assms(4) q show ?thesis by (cases x) (auto elim!: tc_cache_read_asks)
  next
    case (Call_cache_write m' a' d)
    with assms(1,2) obtain x where "tc_cache_write (as_access ph) a d c = Returns (Inl x, c')" "ph' = Ph_access x"
      by (auto elim: logged_waits)
    with assms(4) q show ?thesis by (cases x) (auto elim!: tc_cache_write_asks)
  qed (use assms(2) in auto)
qed

text \<open>Every request that an access sends has the offset into the range of its connection as address.\<close>

lemma call_waits_offset:
  assumes "call_waits L call c ph" "access_target call = Some (m, a)" "phase_request ph = Some oper"
  shows "asks_for (a - tc_addr c) oper"
  using assms(1,3)
proof (induction arbitrary: oper rule: call_waits.induct)
  case (cw_start c1 now keys ph c2)
  then show ?case using assms(2) poll_call_asks [of L now keys call None c1 ph c2 m a oper]
    by (simp add: same_range_def)
next
  case (cw_poll ph c1 now keys ph' c2)
  then show ?case using assms(2) poll_call_asks [of L now keys call "Some ph" c1 ph' c2 m a oper]
    by (simp add: same_range_def)
qed

text \<open>
  C39. A command reaches the connection that owns its address: whatever is typed, a read or write, cached or not,
  is performed only on a connection of the table whose range contains the address, and every request
  that the call has under way while it waits asks for the offset into that range, which is below its size.
\<close>

theorem commands_stay_in_range:
  assumes "call \<in> set (fst (snd (handle_connection_events L now mine ox10mode macs e app)))"
    and "access_target call = Some (m, a)"
  shows "\<exists>c. connections app m = Some c \<and> tc_addr c \<le> a \<and> a - tc_addr c < tc_size c \<and>
    (\<forall>ph oper. call_waits L call c ph \<longrightarrow> phase_request ph = Some oper \<longrightarrow>
       request_address oper = Some (a - tc_addr c))"
proof -
  have "execute_for_connection macs (connections app) a = Some m"
    using assms by (cases e) (auto simp: call_for_def execute_for_connection_def split: if_splits option.splits)
  then obtain c where c: "connections app m = Some c" "deals_with c a"
    using execute_for_connection_deals by blast
  moreover have "request_address oper = Some (a - tc_addr c)"
    if "call_waits L call c ph" "phase_request ph = Some oper" for ph oper
    using call_waits_offset [OF that(1) assms(2) that(2)] by (simp add: asks_for_def)
  ultimately show ?thesis using deals_with_offset by (auto simp: deals_with_def)
qed

text \<open>A connection that owns the 4096 addresses from 8192 on and whose source ids are all in use.\<close>

definition busy_connection :: "(int \<times> nat) TuiConnection" where
  "busy_connection =
     (let c = tc_new std_modular 0 0 (MacAddr 2 0 0 0 0 1) (MacAddr 2 0 0 0 0 2) 8192 4096 False in
      c\<lparr>tc_connection := (tc_connection c)\<lparr>connection_state := Active\<rparr>,
        tc_operations := (tc_operations c)\<lparr>available_sources := []\<rparr>\<rparr>)"

definition sample_app :: "(int \<times> nat) Tui_app" where
  "sample_app = \<lparr>connections = [MacAddr 2 0 0 0 0 2 \<mapsto> busy_connection], con_cntr = 1\<rparr>"

lemma busy_connection_simps [simp]:
  "tc_addr busy_connection = 8192" "tc_size busy_connection = 4096" "is_active (tc_connection busy_connection)"
  "available_sources (tc_operations busy_connection) = []"
  by (simp_all add: busy_connection_def tc_new_def is_active_def)

lemma busy_connection_waits:
  "call_waits L (Call_read (MacAddr 2 0 0 0 0 2) 8256) busy_connection (Ph_perform (Get_source (Read \<lparr>read_address = 64\<rparr>)))"
  by (rule cw_start [of _ busy_connection])
    (simp_all add: same_range_def logged_def tc_read_def tc_call_def tc_poll_def reject_inactive_def perform_enter_def get_source_def)

theorem commands_stay_in_range_witness:
  "request_address (Read \<lparr>read_address = 64\<rparr>) = Some (8256 - tc_addr busy_connection) \<and>
   8256 - tc_addr busy_connection < tc_size busy_connection"
proof -
  have "Call_read (MacAddr 2 0 0 0 0 2) 8256 \<in> set (fst (snd (handle_connection_events std_modular 0 (MacAddr 2 0 0 0 0 1) False
      [MacAddr 2 0 0 0 0 2] (Ev_Read 8256) sample_app)))"
    by (simp add: call_for_def execute_for_connection_def sample_app_def deals_with_def)
  from commands_stay_in_range [OF this, of "MacAddr 2 0 0 0 0 2" 8256] busy_connection_waits [of std_modular]
  show ?thesis by (auto simp: sample_app_def)
qed

text \<open>A received packet changes at most the connection of its source.\<close>

lemma dispatch_only_source:
  assumes "dispatch_packet L P now mine x cs = Some (Returns cs')" "m \<noteq> eth_get_source P x"
  shows "cs' m = cs m"
  using assms by (auto simp: dispatch_packet_def elim!: and_then_ReturnsE split: if_splits option.splits)

text \<open>The loop at the end waits for the wrong state: it ends at once while all connections are still open, and goes
  on while one is idle.\<close>

lemma shutdown_waits_for_wrong_state:
  "(\<forall>c \<in> set cs. tc_status c = Active) \<Longrightarrow> shutdown_pass cs"
  "c \<in> set cs \<Longrightarrow> tc_status c = Idle \<Longrightarrow> \<not> shutdown_pass cs"
  by (auto simp: shutdown_pass_def)

text \<open>A line that was cached through a connection with a base address is not found by its release.\<close>

lemma release_single_misses:
  assumes "is_active (tc_connection c)" "cache (tc_cache c) a = None"
  shows "\<exists>c'. tc_cache_release_single None a c = Returns (Inr (Err (TuiCacheError (NotInCache a))), c')"
  using assms by (simp add: tc_cache_release_single_def reject_inactive_def tc_release_line_def)

end
