(* ===== verification/Network.thy ===== *)
theory Network
  imports Tui_Args
begin

text \<open>
  \<^verbatim>\<open>omnixtend-tui/src/network.rs\<close>: two threads that move packets between a raw socket and two queues. What the
  operating system offers (the interfaces and the result of opening one) and what the socket receives are arguments;
  a thread is one iteration of its loop, which also says whether the thread ends. The locale \<open>packet_queue\<close> is the
  contract of such a queue for the two sides that share it, and both queues meet it.
\<close>

section \<open>Queues\<close>

text \<open>A queue between a producer and a consumer, seen in the state that holds it.\<close>

locale packet_queue =
  fixes push :: "'a \<Rightarrow> 's \<Rightarrow> 's"
    and pop :: "'s \<Rightarrow> 'a option \<times> 's"
    and content :: "'s \<Rightarrow> 'a list"
  assumes push_content: "content (push x s) = content s @ [x]"
    and pop_content: "pop s = (r, s') \<Longrightarrow>
      (case content s of [] \<Rightarrow> r = None \<and> s' = s | x # xs \<Rightarrow> r = Some x \<and> content s' = xs)"
begin

text \<open>What was pushed is what was popped, followed by the content; both operations keep that.\<close>

lemma push_order: "pushed = popped @ content s \<Longrightarrow> pushed @ [x] = popped @ content (push x s)"
  by (simp add: push_content)

lemma pop_order:
  assumes "pushed = popped @ content s" "pop s = (r, s')"
  shows "pushed = (popped @ (case r of Some x \<Rightarrow> [x] | None \<Rightarrow> [])) @ content s'"
  using assms(1) pop_content [OF assms(2)] by (cases "content s") auto

end

section \<open>The interface\<close>

record Network =
  tx_queue :: "bytes list"
  rx_queue :: "bytes list"
  net_terminate :: bool
  net_mac :: MacAddr

text \<open>An interface of the machine, and what opening it gives.\<close>

record interface =
  ifc_name :: ustring
  ifc_mac :: "MacAddr option"

datatype channel = Ethernet | OtherChannel

definition network_drop :: "Network \<Rightarrow> Network" where
  "network_drop n = n\<lparr>net_terminate := True\<rparr>"

definition network_new ::
    "interface list \<Rightarrow> (interface \<Rightarrow> (channel, unit) result) \<Rightarrow> ustring \<Rightarrow> (Network, tui_error) result" where
  "network_new interfaces open_channel ifcname =
     (case find (\<lambda>iface. ifc_name iface = trim ifcname) interfaces of
        None \<Rightarrow> Err (TuiInterfaceNotFound ifcname)
      | Some iface \<Rightarrow>
          let mac = (case ifc_mac iface of Some m \<Rightarrow> m | None \<Rightarrow> MacAddr 0 0 0 0 0 1) in
          (case open_channel iface of
             Ok Ethernet \<Rightarrow> Ok \<lparr>tx_queue = [], rx_queue = [], net_terminate = False, net_mac = mac\<rparr>
           | Ok OtherChannel \<Rightarrow> Err TuiUnhandledChannelType
           | Err _ \<Rightarrow> Err TuiIOError))"

text \<open>An iteration of the receive thread, with the packet that \<^verbatim>\<open>rx.next()\<close> returns, if it does not time out.\<close>

definition rx_push :: "bytes \<Rightarrow> Network \<Rightarrow> Network" where
  "rx_push p n = n\<lparr>rx_queue := rx_queue n @ [p]\<rparr>"

definition rx_enqueue_step :: "bytes option \<Rightarrow> Network \<Rightarrow> bool \<times> Network" where
  "rx_enqueue_step received n =
     (let n = (case received of Some p \<Rightarrow> rx_push p n | None \<Rightarrow> n) in (net_terminate n, n))"

text \<open>\<^verbatim>\<open>t_q.pop()\<close>, and an iteration of the transmit thread. \<open>ok k\<close> says whether the \<open>k\<close>-th call of \<^verbatim>\<open>send_to\<close> of the
  iteration succeeds; its result is ignored, so a packet whose call fails is lost. The step returns the packets handed to the
  socket, each with the result.\<close>

definition tx_pop :: "Network \<Rightarrow> bytes option \<times> Network" where
  "tx_pop n = (case tx_queue n of [] \<Rightarrow> (None, n) | p # ps \<Rightarrow> (Some p, n\<lparr>tx_queue := ps\<rparr>))"

function tx_drain :: "(nat \<Rightarrow> bool) \<Rightarrow> nat \<Rightarrow> Network \<Rightarrow> (bytes \<times> bool) list \<times> Network" where
  "tx_drain ok k n =
     (case tx_pop n of
        (None, n) \<Rightarrow> ([], n)
      | (Some p, n) \<Rightarrow> (let (ps, n) = tx_drain ok (Suc k) n in ((p, ok k) # ps, n)))"
  by pat_completeness auto
termination
  by (relation "measure (\<lambda>(ok, k, n). length (tx_queue n))") (auto simp: tx_pop_def split: list.splits)

declare tx_drain.simps [simp del]

definition net_tx_step :: "(nat \<Rightarrow> bool) \<Rightarrow> Network \<Rightarrow> (bytes \<times> bool) list \<times> bool \<times> Network" where
  "net_tx_step ok n = (let (ps, n) = tx_drain ok 0 n in (ps, net_terminate n, n))"

definition net_get_packet :: "Network \<Rightarrow> bytes option \<times> Network" where
  "net_get_packet n = (case rx_queue n of [] \<Rightarrow> (None, n) | p # ps \<Rightarrow> (Some p, n\<lparr>rx_queue := ps\<rparr>))"

definition net_put_packet :: "bytes \<Rightarrow> Network \<Rightarrow> Network" where
  "net_put_packet p n = n\<lparr>tx_queue := tx_queue n @ [p]\<rparr>"

section \<open>Properties\<close>

interpretation tx: packet_queue net_put_packet tx_pop tx_queue
  by unfold_locales (auto simp: net_put_packet_def tx_pop_def split: list.splits)

interpretation rx: packet_queue rx_push net_get_packet rx_queue
  by unfold_locales (auto simp: rx_push_def net_get_packet_def split: list.splits)

lemma tx_drain_all:
  "fst (tx_drain ok k n) = zip (tx_queue n) (map ok [k..<k + length (tx_queue n)]) \<and>
   snd (tx_drain ok k n) = n\<lparr>tx_queue := []\<rparr>"
proof (induction ok k n rule: tx_drain.induct)
  case (1 ok k n)
  show ?case
  proof (cases "tx_queue n")
    case Nil
    then show ?thesis by (simp add: tx_pop_def tx_drain.simps [of ok k n])
  next
    case (Cons p ps)
    then have "tx_pop n = (Some p, n\<lparr>tx_queue := ps\<rparr>)" by (simp add: tx_pop_def)
    with 1 [OF this [symmetric] refl] Cons show ?thesis
      by (simp add: tx_drain.simps [of ok k n] case_prod_beta upt_conv_Cons del: upt_Suc)
  qed
qed

lemma net_tx_step_spec:
  assumes "net_tx_step ok n = (ps, ends, n')"
  shows "map fst ps = tx_queue n" "ends = net_terminate n" "n' = n\<lparr>tx_queue := []\<rparr>"
  using assms tx_drain_all [of ok 0 n] by (auto simp: net_tx_step_def case_prod_beta)

text \<open>The network in use: the tool puts and gets packets while the threads run, each until it has seen the flag that
  ends it. The trace keeps what was put, what was handed to the socket with the result, what came in, what the tool got, and
  which of the two threads have ended.\<close>

record net_trace =
  was_put :: "bytes list"
  handed :: "(bytes \<times> bool) list"
  came_in :: "bytes list"
  was_got :: "bytes list"
  rx_done :: bool
  tx_done :: bool

definition went_out :: "net_trace \<Rightarrow> bytes list" where
  "went_out t = map fst (filter snd (handed t))"

inductive net_run :: "Network \<Rightarrow> net_trace \<Rightarrow> bool" where
  nr_new: "network_new ifs open_channel name = Ok n \<Longrightarrow>
    net_run n \<lparr>was_put = [], handed = [], came_in = [], was_got = [], rx_done = False, tx_done = False\<rparr>"
| nr_put: "net_run n t \<Longrightarrow> net_run (net_put_packet p n) (t\<lparr>was_put := was_put t @ [p]\<rparr>)"
| nr_get: "net_run n t \<Longrightarrow> net_get_packet n = (r, n') \<Longrightarrow>
    net_run n' (t\<lparr>was_got := was_got t @ (case r of Some p \<Rightarrow> [p] | None \<Rightarrow> [])\<rparr>)"
| nr_rx: "net_run n t \<Longrightarrow> \<not> rx_done t \<Longrightarrow> rx_enqueue_step received n = (ends, n') \<Longrightarrow>
    net_run n' (t\<lparr>came_in := came_in t @ (case received of Some p \<Rightarrow> [p] | None \<Rightarrow> []), rx_done := ends\<rparr>)"
| nr_tx: "net_run n t \<Longrightarrow> \<not> tx_done t \<Longrightarrow> net_tx_step ok n = (ps, ends, n') \<Longrightarrow>
    net_run n' (t\<lparr>handed := handed t @ ps, tx_done := ends\<rparr>)"
| nr_drop: "net_run n t \<Longrightarrow> net_run (network_drop n) t"

text \<open>
  The queues keep the order: the packets handed to the socket are the first ones that were put and the others wait; the
  packets that the tool got are the first ones that came in. What goes out is what was handed without the packets whose
  \<^verbatim>\<open>send_to\<close> failed, and a packet that is put after the last iteration of the transmit thread stays in the queue for good.
\<close>

lemma network_keeps_order:
  assumes "net_run n t"
  shows "was_put t = map fst (handed t) @ tx_queue n \<and> came_in t = was_got t @ rx_queue n"
  using assms
proof (induction rule: net_run.induct)
  case (nr_new ifs open_channel name n)
  then show ?case by (auto simp: network_new_def Let_def split: option.splits result.splits channel.splits)
next
  case (nr_put n t p)
  then show ?case using tx.push_order [of "was_put t" "map fst (handed t)" n p] by (simp add: net_put_packet_def)
next
  case (nr_get n t r n')
  then show ?case using rx.pop_order [of "came_in t" "was_got t" n r n'] by (auto simp: net_get_packet_def split: list.splits)
next
  case (nr_rx n t received ends n')
  then show ?case using rx.push_order [of "came_in t" "was_got t" n]
    by (auto simp: rx_enqueue_step_def rx_push_def Let_def split: option.splits)
next
  case (nr_tx n t ok ps ends n')
  then show ?case using net_tx_step_spec [OF nr_tx.hyps(3)] by simp
qed (simp add: network_drop_def)

lemma network_loses_failed_sends:
  assumes "net_run n t" "\<forall>(p, ok) \<in> set (handed t). ok"
  shows "was_put t = went_out t @ tx_queue n"
proof -
  have "filter snd (handed t) = handed t" using assms(2) by (auto simp: filter_id_conv)
  then show ?thesis using network_keeps_order [OF assms(1)] by (simp add: went_out_def)
qed

end
