(* ===== verification/Tui_Tool.thy ===== *)
theory Tui_Tool
  imports Tui Network Endpoint_Inv
begin

text \<open>
  \<^verbatim>\<open>run\<close> of \<^verbatim>\<open>omnixtend-tui/src/main.rs\<close>: the threads of the tool, the state they share and the shutdown. A step is one
  iteration of a thread, or one poll of a call that waits; the steps of all threads and of the network interleave
  in any order. The clock, the keys and the order in which the table is iterated are arguments of a step, and so is
  whether drawing on the terminal fails. A thread may panic: it takes no further step, the others go on, and the main thread,
  which joins it, only logs that. The property says what holds of the table, the queues and the packets handed to the socket
  in every state of the tool.
\<close>

section \<open>The shared state\<close>

text \<open>Where the main thread is: it waits for the event thread, disconnects the connections one after the other,
  waits for them, stops the other threads and joins them.\<close>

datatype main_phase =
    Main_events
  | Main_closing "MacAddr list" "disconnect_phase option"
  | Main_waiting
  | Main_joining
  | Main_done

text \<open>\<open>pending\<close> holds the calls that the operation thread still has to make for the event it handles and the phase of
  the first one, \<open>blocked\<close> the event that the event thread cannot send because the channel is full. A thread has ended when
  its loop was left or it has panicked.\<close>

record 'm Tool =
  network :: Network
  app :: "'m Tui_app"
  line :: Cmdline
  events :: "CmdlineEvents list"
  blocked :: "CmdlineEvents option"
  pending :: "tui_call list \<times> call_phase option"
  log_messages :: "message list"
  stopped :: bool
  main :: main_phase
  draw_ended :: bool
  connection_ended :: bool
  event_ended :: bool
  operation_ended :: bool
  net_rx_ended :: bool
  net_tx_ended :: bool

definition channel_bound :: nat where
  "channel_bound = 16"

definition tool_new :: "Network \<Rightarrow> 'm Tool" where
  "tool_new n =
     \<lparr>network = n, app = \<lparr>connections = Map.empty, con_cntr = 0\<rparr>, line = cmdline_new, events = [], blocked = None,
      pending = ([], None), log_messages = [], stopped = False, main = Main_events, draw_ended = False,
      connection_ended = False, event_ended = False, operation_ended = False, net_rx_ended = False, net_tx_ended = False\<rparr>"

definition log_all :: "message list \<Rightarrow> 'm Tool \<Rightarrow> 'm Tool" where
  "log_all ms t = t\<lparr>log_messages := log_messages t @ ms\<rparr>"

definition table :: "'m Tool \<Rightarrow> MacAddr \<rightharpoonup> 'm TuiConnection" where
  "table t = connections (app t)"

definition set_table :: "(MacAddr \<rightharpoonup> 'm TuiConnection) \<Rightarrow> 'm Tool \<Rightarrow> 'm Tool" where
  "set_table cs t = t\<lparr>app := (app t)\<lparr>connections := cs\<rparr>\<rparr>"

section \<open>The threads\<close>

text \<open>An iteration of the connection thread.\<close>

definition put_packets :: "bytes list \<Rightarrow> Network \<Rightarrow> Network" where
  "put_packets ps n = foldl (\<lambda>n p. net_put_packet p n) n ps"

definition receive_one ::
    "'m modular \<Rightarrow> pnet \<Rightarrow> instant \<Rightarrow> 'm Tool \<Rightarrow> 'm Tool outcome option" where
  "receive_one L P now t =
     (case net_get_packet (network t) of
        (None, n) \<Rightarrow> Some (Returns (t\<lparr>network := n\<rparr>))
      | (Some x, n) \<Rightarrow>
          map_option (\<lambda>m. and_then m (\<lambda>cs. Returns (set_table cs (t\<lparr>network := n\<rparr>))))
            (dispatch_packet L P now (net_mac n) x (table t)))"

text \<open>The connection thread owns the network, which is dropped when the thread ends.\<close>

definition connection_end :: "bool \<Rightarrow> 'm Tool \<Rightarrow> 'm Tool" where
  "connection_end ends t =
     (if ends then t\<lparr>network := network_drop (network t), connection_ended := True\<rparr> else t)"

definition serve_all ::
    "'m modular \<Rightarrow> pnet \<Rightarrow> instant \<Rightarrow> MacAddr list \<Rightarrow> 'm Tool \<Rightarrow> 'm Tool outcome" where
  "serve_all L P now macs t =
     and_then (serve_connections L P now macs (table t)) (\<lambda>(ps, cs).
       Returns (connection_end (stopped t) (set_table cs (t\<lparr>network := put_packets ps (network t)\<rparr>))))"

text \<open>An iteration of the draw thread: when drawing fails it logs the error and stops the tool.\<close>

definition draw_step :: "(unit, tui_error) result \<Rightarrow> 'm Tool \<Rightarrow> 'm Tool" where
  "draw_step r t =
     (let t = (case r of Ok _ \<Rightarrow> t | Err e \<Rightarrow> log_all [Msg_failed_draw e] (t\<lparr>stopped := True\<rparr>)) in
      t\<lparr>draw_ended := stopped t\<rparr>)"

text \<open>\<^verbatim>\<open>send\<close> on the bounded channel: it waits while the channel is full, and fails once the receiver is gone.\<close>

definition send_event :: "CmdlineEvents \<Rightarrow> 'm Tool \<Rightarrow> 'm Tool" where
  "send_event e t =
     (if operation_ended t then log_all [Msg_failed_tui TuiThreadSendError] (t\<lparr>blocked := None\<rparr>)
      else if length (events t) < channel_bound then t\<lparr>events := events t @ [e], blocked := None\<rparr>
      else t\<lparr>blocked := Some e\<rparr>)"

text \<open>An iteration of the event thread, or another attempt to send.\<close>

definition event_step :: "tui_error arguments \<Rightarrow> key option \<Rightarrow> 'm Tool \<Rightarrow> 'm Tool outcome" where
  "event_step A key t =
     (case blocked t of
        Some e \<Rightarrow> Returns (send_event e t)
      | None \<Rightarrow>
          and_then (tui_events A key (line t)) (\<lambda>(r, l).
            let t = t\<lparr>line := l\<rparr> in
            Returns
              (case r of
                 Err e \<Rightarrow> log_all [Msg_failed_tui e] t
               | Ok ev \<Rightarrow>
                   let (quit, ms, e) = handle_tui_events ev; t = log_all ms t in
                   if quit then t\<lparr>event_ended := True\<rparr>
                   else (case e of Some e \<Rightarrow> send_event e t | None \<Rightarrow> t))))"

text \<open>
  The operation thread. Between events it removes idle connections, takes an event if there is one, and ends if it
  is stopped; while calls are pending it polls the first of them. A call on a connection that has left the table in
  the meantime cannot occur, as only this thread removes connections.
\<close>

definition poll_pending ::
    "'m modular \<Rightarrow> instant \<Rightarrow> u64 list \<Rightarrow> MacAddr \<Rightarrow> tui_call \<Rightarrow> tui_call list \<Rightarrow> call_phase option \<Rightarrow> 'm Tool \<Rightarrow>
     'm Tool outcome" where
  "poll_pending L now keys m call calls ph t =
     (case table t m of
        None \<Rightarrow> Returns (t\<lparr>pending := (calls, None)\<rparr>)
      | Some c \<Rightarrow>
          and_then (poll_call L now keys call ph c) (\<lambda>(x, c).
            let t = set_table ((table t)(m \<mapsto> c)) t in
            Returns
              (case x of
                 Inl ph \<Rightarrow> t\<lparr>pending := (call # calls, Some ph)\<rparr>
               | Inr ms \<Rightarrow> log_all ms (t\<lparr>pending := (calls, None)\<rparr>))))"

fun call_mac :: "tui_call \<Rightarrow> MacAddr" where
  "call_mac (Call_disconnect m) = m"
| "call_mac (Call_read m a) = m"
| "call_mac (Call_write m a d) = m"
| "call_mac (Call_cache_read m a) = m"
| "call_mac (Call_cache_write m a d) = m"
| "call_mac (Call_cache_release m a) = m"
| "call_mac (Call_cache_release_all m) = m"
| "call_mac (Call_remove m) = m"

definition take_event ::
    "'m modular \<Rightarrow> instant \<Rightarrow> bool \<Rightarrow> MacAddr list \<Rightarrow> 'm Tool \<Rightarrow> 'm Tool" where
  "take_event L now ox10mode macs t =
     (let t = set_table (retain_open (table t)) t in
      case events t of
        [] \<Rightarrow> t
      | e # es \<Rightarrow>
          let (ms, calls, a) = handle_connection_events L now (net_mac (network t)) ox10mode macs e (app t) in
          log_all ms (t\<lparr>app := a, events := es, pending := (calls, None)\<rparr>))"

definition pending_step ::
    "'m modular \<Rightarrow> instant \<Rightarrow> bool \<Rightarrow> MacAddr list \<Rightarrow> u64 list \<Rightarrow> 'm Tool \<Rightarrow> 'm Tool outcome" where
  "pending_step L now ox10mode macs keys t =
     (case pending t of
        ([], _) \<Rightarrow> Returns (take_event L now ox10mode macs t)
      | (Call_remove m # calls, _) \<Rightarrow> Returns (set_table ((table t)(m := None)) (t\<lparr>pending := (calls, None)\<rparr>))
      | (call # calls, ph) \<Rightarrow> poll_pending L now keys (call_mac call) call calls ph t)"

definition operation_step ::
    "'m modular \<Rightarrow> instant \<Rightarrow> bool \<Rightarrow> MacAddr list \<Rightarrow> u64 list \<Rightarrow> 'm Tool \<Rightarrow> 'm Tool outcome" where
  "operation_step L now ox10mode macs keys t =
     and_then (pending_step L now ox10mode macs keys t) (\<lambda>t.
       Returns (t\<lparr>operation_ended := (fst (pending t) = [] \<and> stopped t)\<rparr>))"

section \<open>The main thread\<close>

text \<open>A poll of the disconnect of one connection; a connection that has left the table is passed over.\<close>

definition close_one ::
    "'m modular \<Rightarrow> instant \<Rightarrow> u64 list \<Rightarrow> MacAddr \<Rightarrow> MacAddr list \<Rightarrow> disconnect_phase option \<Rightarrow> 'm Tool \<Rightarrow> 'm Tool outcome" where
  "close_one L now keys m ms ph t =
     (case table t m of
        None \<Rightarrow> Returns (t\<lparr>main := Main_closing ms None\<rparr>)
      | Some c \<Rightarrow>
          and_then (disconnect L now keys (case_option (Dc_release None) id ph) c) (\<lambda>(x, c).
            Returns (set_table ((table t)(m \<mapsto> c))
              (t\<lparr>main := (case x of Some ph \<Rightarrow> Main_closing (m # ms) (Some ph) | None \<Rightarrow> Main_closing ms None)\<rparr>))))"

fun main_step ::
    "'m modular \<Rightarrow> instant \<Rightarrow> MacAddr list \<Rightarrow> u64 list \<Rightarrow> main_phase \<Rightarrow> 'm Tool \<Rightarrow> 'm Tool outcome" where
  "main_step L now macs keys Main_events t =
     Returns (if event_ended t then t\<lparr>main := Main_closing macs None\<rparr> else t)"
| "main_step L now macs keys (Main_closing [] ph) t = Returns (t\<lparr>main := Main_waiting\<rparr>)"
| "main_step L now macs keys (Main_closing (m # ms) ph) t = close_one L now keys m ms ph t"
| "main_step L now macs keys Main_waiting t =
     Returns (if shutdown_pass (List.map_filter (table t) macs) then t\<lparr>main := Main_joining, stopped := True\<rparr> else t)"
| "main_step L now macs keys Main_joining t =
     Returns (if draw_ended t \<and> connection_ended t \<and> operation_ended t then t\<lparr>main := Main_done\<rparr> else t)"
| "main_step L now macs keys Main_done t = Returns t"

section \<open>Every connection keeps its invariant\<close>

definition tc_ok :: "'m modular \<Rightarrow> pnet \<Rightarrow> MacAddr \<Rightarrow> MacAddr \<Rightarrow> 'm TuiConnection \<Rightarrow> bool" where
  "tc_ok L P mine m c \<longleftrightarrow> endpoint_ok L P mine m (tc_connection c) (tc_cache c)"

lemma length_release_poll:
  "release_poll ph a v c ops cr = Returns (x, c', ops', cr') \<Longrightarrow> length cr' = length cr"
  by (auto simp: release_poll_def elim!: and_then_ReturnsE dest: length_perform split: sum.splits)

lemma length_handle_release:
  "handle_release a v c ops cr = Returns (x, c', ops', cr') \<Longrightarrow> length cr' = length cr"
  by (auto simp: handle_release_def Let_def dest: length_release_poll)

lemma length_release_addr:
  "release_addr ph a c ops cr = Returns (x, c', ops', cr') \<Longrightarrow> length cr' = length cr"
  by (cases ph) (auto simp: and_then_Returns_iff split: option.splits if_splits
      dest: length_handle_release length_release_poll)

lemma length_release:
  "release ph keys c ops cr = Returns (x, c', ops', cr') \<Longrightarrow> length cr' = length cr"
proof (induction ph keys c ops cr arbitrary: x c' ops' cr' rule: release.induct)
  case (2 k keys c ops cr)
  then show ?case
    by (auto simp: and_then_Returns_iff split: option.splits if_splits dest!: length_handle_release)
next
  case (3 k ph keys c ops cr)
  then show ?case
    by (auto simp: and_then_Returns_iff split: option.splits dest!: length_release_poll)
qed simp

lemma tc_ok_put:
  assumes "tc_ok L P mine m c" "cache_ok ca" "length cr = length (credits_send (tc_connection c))"
  shows "tc_ok L P mine m (tc_put c ca ops cr)"
  using assms by (auto simp: tc_ok_def tc_put_def endpoint_ok_def queued_ok_def)

lemma tc_ok_cache: "tc_ok L P mine m c \<Longrightarrow> cache_ok (tc_cache c)"
  by (simp add: tc_ok_def endpoint_ok_def)

lemma tc_ok_put_cached:
  assumes "tc_ok L P mine m c"
  shows "cache_read aph a (tc_cache c) ops (credits_send (tc_connection c)) = Returns (x, ca, ops', cr) \<Longrightarrow>
      tc_ok L P mine m (tc_put c ca ops' cr)"
    and "cache_write aph a d (tc_cache c) ops (credits_send (tc_connection c)) = Returns (y, ca, ops', cr) \<Longrightarrow>
      tc_ok L P mine m (tc_put c ca ops' cr)"
    and "release_addr rph a (tc_cache c) ops (credits_send (tc_connection c)) = Returns (z, ca, ops', cr) \<Longrightarrow>
      tc_ok L P mine m (tc_put c ca ops' cr)"
    and "release ph keys (tc_cache c) ops (credits_send (tc_connection c)) = Returns (u, ca, ops', cr) \<Longrightarrow>
      tc_ok L P mine m (tc_put c ca ops' cr)"
  using tc_ok_put [OF assms] tc_ok_cache [OF assms]
  by (blast dest: length_cache_access length_release_addr length_release
      cache_ok_read cache_ok_write cache_ok_release_addr cache_ok_release)+

lemma tc_cache_read_ok:
  assumes "tc_cache_read ph a c = Returns (x, c')" "tc_ok L P mine m c"
  shows "tc_ok L P mine m c'"
  using assms
  by (auto simp: tc_cache_read_def tc_cached_def Let_def elim!: and_then_ReturnsE
      intro: tc_ok_put_cached split: option.splits result.splits simp del: cache_read.simps)

lemma tc_cache_write_ok:
  assumes "tc_cache_write ph a d c = Returns (x, c')" "tc_ok L P mine m c"
  shows "tc_ok L P mine m c'"
  using assms
  by (auto simp: tc_cache_write_def tc_cached_def Let_def elim!: and_then_ReturnsE
      intro: tc_ok_put_cached split: option.splits result.splits simp del: cache_write.simps)

lemma tc_cache_release_single_ok:
  assumes "tc_cache_release_single ph a c = Returns (x, c')" "tc_ok L P mine m c"
  shows "tc_ok L P mine m c'"
  using assms
  by (auto simp: tc_cache_release_single_def tc_release_line_def elim!: and_then_ReturnsE
      intro: tc_ok_put_cached split: option.splits result.splits simp del: release_addr.simps)

lemma tc_cache_release_ok:
  assumes "tc_cache_release ph keys c = Returns (x, c')" "tc_ok L P mine m c"
  shows "tc_ok L P mine m c'"
  using assms
  by (auto simp: tc_cache_release_def tc_release_lines_def Let_def elim!: and_then_ReturnsE
      intro: tc_ok_put_cached split: option.splits result.splits simp del: release.simps)

lemma tc_call_ok:
  assumes "tc_call ret oper ph c = Returns (x, c')" "tc_ok L P mine m c"
  shows "tc_ok L P mine m c'"
proof -
  have "tc_ok L P mine m c'" if "tc_poll ret q d = Returns (x, c')" "tc_ok L P mine m d" for q d
    using that tc_ok_cache [OF that(2)]
    by (auto simp: tc_poll_def elim!: and_then_ReturnsE intro!: tc_ok_put dest: length_perform simp del: perform.simps)
  from this [of "case_option (Get_source oper) id ph"] assms show ?thesis
    by (auto simp: tc_call_def tc_ok_def split: option.splits result.splits)
qed

text \<open>The table: every connection is kept under the address of its peer. Of a connection in \<open>B\<close>, on which a call has
  panicked, nothing is known.\<close>

definition table_ok :: "'m modular \<Rightarrow> pnet \<Rightarrow> MacAddr set \<Rightarrow> MacAddr \<Rightarrow> (MacAddr \<rightharpoonup> 'm TuiConnection) \<Rightarrow> bool" where
  "table_ok L P B mine cs \<longleftrightarrow> (\<forall>m c. cs m = Some c \<longrightarrow> m \<notin> B \<longrightarrow> tc_ok L P mine m c)"

text \<open>Room in the windows of the connections that a tick serves.\<close>

definition room :: "MacAddr set \<Rightarrow> (MacAddr \<rightharpoonup> 'm TuiConnection) \<Rightarrow> bool" where
  "room B cs \<longleftrightarrow> (\<forall>m c. cs m = Some c \<longrightarrow> m \<notin> B \<longrightarrow> length (resend_buffer (tc_connection c)) + 1 < 2 ^ 22)"

lemma table_ok_update: "table_ok L P B mine cs \<Longrightarrow> (m \<notin> B \<Longrightarrow> tc_ok L P mine m c) \<Longrightarrow> table_ok L P B mine (cs(m \<mapsto> c))"
  by (simp add: table_ok_def)

lemma table_ok_smaller: "table_ok L P B mine cs \<Longrightarrow> cs' \<subseteq>\<^sub>m cs \<Longrightarrow> table_ok L P B mine cs'"
  unfolding table_ok_def map_le_def by (metis domI)

context ox_link
begin

lemma tc_ok_new: "tc_ok L P mine m (tc_new L now i mine m a n ox10mode)"
  by (simp add: tc_ok_def tc_new_def endpoint_new endpoint_establish)

lemma dc_close_ok: "tc_ok L P mine m c \<Longrightarrow> dc_close L now ph c = (x, c') \<Longrightarrow> tc_ok L P mine m c'"
  using endpoint_close [of mine m "tc_connection c" "tc_cache c" "Some 500000000" now ph]
  by (auto simp: dc_close_def tc_ok_def Let_def case_prod_beta)

lemma disconnect_ok:
  assumes "disconnect L now keys ph c = Returns (x, c')" "tc_ok L P mine m c"
  shows "tc_ok L P mine m c'"
proof (cases ph)
  case (Dc_release r)
  with assms(1) obtain y d where y: "tc_cache_release r keys c = Returns (y, d)"
      "(case y of Inl r \<Rightarrow> Returns (Some (Dc_release (Some r)), d) | Inr _ \<Rightarrow> Returns (dc_close L now Close_start d)) = Returns (x, c')"
    by (auto elim!: and_then_ReturnsE)
  have "tc_ok L P mine m d" using y(1) assms(2) by (rule tc_cache_release_ok)
  with y(2) show ?thesis by (auto dest: dc_close_ok split: sum.splits)
qed (use assms dc_close_ok in auto)

lemma poll_call_ok:
  assumes "poll_call L now keys call ph c = Returns (x, c')" "tc_ok L P mine m c"
  shows "tc_ok L P mine m c'"
  using assms
  by (cases call) (auto simp: logged_def tc_read_def tc_write_def elim!: and_then_ReturnsE
      dest: disconnect_ok tc_call_ok tc_cache_read_ok tc_cache_write_ok tc_cache_release_single_ok tc_cache_release_ok)

lemma dispatch_ok:
  assumes "dispatch_packet L P now mine x cs = Some (Returns cs')" "table_ok L P B mine cs"
    and "\<forall>m c. cs' m = Some c \<longrightarrow> m \<notin> B \<longrightarrow> credits_small (credits_receive (tc_connection c))"
  shows "table_ok L P B mine cs' \<and> dom cs' = dom cs"
proof (cases "cs' = cs")
  case False
  with assms(1) obtain m c r cn ca ops where *: "cs m = Some c"
      "process_packet L P now x (tc_connection c) (tc_cache c) (tc_operations c) = Some (Returns (r, cn, ca, ops))"
      "cs' = cs(m \<mapsto> c\<lparr>tc_connection := cn, tc_cache := ca, tc_operations := ops\<rparr>)"
    by (auto simp: dispatch_packet_def tc_process_packet_def elim!: and_then_ReturnsE split: if_splits option.splits)
  have "tc_ok L P mine m (c\<lparr>tc_connection := cn, tc_cache := ca, tc_operations := ops\<rparr>)" if "m \<notin> B"
  proof -
    have "credits_small (credits_receive cn)" using assms(3) [rule_format, of m] *(3) that by fastforce
    then have "endpoint_ok L P mine m cn ca"
      by (rule endpoint_process_packet [OF *(2), rotated]) (use assms(2) *(1) that in \<open>simp add: table_ok_def tc_ok_def\<close>)
    then show ?thesis by (simp add: tc_ok_def)
  qed
  from table_ok_update [OF assms(2) this] *(1,3) show ?thesis by auto
qed (use assms(2) in simp)

lemma serve_one_ok:
  assumes "table_ok L P B mine cs" "cs m = Some c" "m \<notin> B" "get_packet now (tc_connection c) = (r, cn)"
    and "length (resend_buffer (tc_connection c)) + 1 < 2 ^ 22"
  shows "\<forall>p. r = Some p \<longrightarrow> frame_to P m p"
    and "tick L P now (tc_tick c) (tc_operations c) cn (tc_cache c) = Returns (t, ops, c1, ca) \<Longrightarrow>
      tc_ok L P mine m (c\<lparr>tc_tick := t, tc_operations := ops, tc_connection := c1, tc_cache := ca\<rparr>)"
proof -
  have e: "endpoint_ok L P mine m cn (tc_cache c)" "\<forall>p. r = Some p \<longrightarrow> frame_to P m p"
    using endpoint_get_packet [OF _ assms(4), of mine m "tc_cache c"] assms(1-3) by (auto simp: table_ok_def tc_ok_def)
  then show "\<forall>p. r = Some p \<longrightarrow> frame_to P m p" by blast
  have "length (resend_buffer cn) + 1 < 2 ^ 22"
    using assms(4,5) by (auto simp: get_packet_def split: list.splits option.splits)
  with endpoint_tick [OF _ e(1)]
  show "tick L P now (tc_tick c) (tc_operations c) cn (tc_cache c) = Returns (t, ops, c1, ca) \<Longrightarrow>
      tc_ok L P mine m (c\<lparr>tc_tick := t, tc_operations := ops, tc_connection := c1, tc_cache := ca\<rparr>)"
    by (simp add: tc_ok_def)
qed

lemma serve_ok:
  assumes "serve_connections L P now macs cs = Returns (ps, cs')" "table_ok L P B mine cs" "distinct macs"
    and "\<forall>m c. m \<in> set macs \<longrightarrow> cs m = Some c \<longrightarrow> m \<notin> B \<longrightarrow> length (resend_buffer (tc_connection c)) + 1 < 2 ^ 22"
  shows "table_ok L P B mine cs' \<and> dom cs' = dom cs \<and> (B = {} \<longrightarrow> (\<forall>p \<in> set ps. \<exists>m \<in> dom cs. frame_to P m p))"
  using assms
proof (induction macs arbitrary: cs ps cs')
  case (Cons m macs)
  show ?case
  proof (cases "cs m")
    case None
    with Cons.prems(1) have "serve_connections L P now macs cs = Returns (ps, cs')" by simp
    from Cons.IH [OF this Cons.prems(2)] Cons.prems(3,4) show ?thesis by auto
  next
    case (Some c)
    obtain r cn where g: "get_packet now (tc_connection c) = (r, cn)" by fastforce
    with Cons.prems(1) Some obtain t ops c1 ca qs where
      k: "tick L P now (tc_tick c) (tc_operations c) cn (tc_cache c) = Returns (t, ops, c1, ca)"
      "serve_connections L P now macs (cs(m \<mapsto> c\<lparr>tc_tick := t, tc_operations := ops, tc_connection := c1, tc_cache := ca\<rparr>)) =
        Returns (qs, cs')" "ps = case_option qs (\<lambda>p. p # qs) r"
      by (auto simp: tc_get_packet_def tc_tick_once_def Let_def elim!: and_then_ReturnsE split: option.splits)
    let ?cs = "cs(m \<mapsto> c\<lparr>tc_tick := t, tc_operations := ops, tc_connection := c1, tc_cache := ca\<rparr>)"
    have one: "(\<forall>p. r = Some p \<longrightarrow> frame_to P m p) \<and>
        tc_ok L P mine m (c\<lparr>tc_tick := t, tc_operations := ops, tc_connection := c1, tc_cache := ca\<rparr>)" if "m \<notin> B"
      using serve_one_ok [OF Cons.prems(2) Some that g] k(1) Cons.prems(4) Some that by simp
    then have t: "table_ok L P B mine ?cs" by (intro table_ok_update [OF Cons.prems(2)]) blast
    have "length (resend_buffer (tc_connection d)) + 1 < 2 ^ 22"
      if "m' \<in> set macs" "?cs m' = Some d" "m' \<notin> B" for m' d
      using that Cons.prems(3,4) by (metis distinct.simps(2) fun_upd_other list.set_intros(2))
    then have r: "table_ok L P B mine cs' \<and> dom cs' = dom ?cs \<and> (B = {} \<longrightarrow> (\<forall>p \<in> set qs. \<exists>m \<in> dom ?cs. frame_to P m p))"
      by (intro Cons.IH [OF k(2) t]) (use Cons.prems(3) in auto)
    have d: "dom ?cs = dom cs" "m \<in> dom cs" using Some by auto
    have "\<forall>p \<in> set ps. \<exists>m \<in> dom cs. frame_to P m p" if "B = {}"
    proof -
      have "\<forall>p \<in> set qs. \<exists>m \<in> dom cs. frame_to P m p" using r that unfolding d by blast
      moreover have "\<forall>p. r = Some p \<longrightarrow> frame_to P m p" using one that by blast
      ultimately show ?thesis using d(2) k(3) by (cases r) auto
    qed
    with r show ?thesis unfolding d by blast
  qed
qed (simp add: table_ok_def)

end

section \<open>Every run of the tool\<close>

text \<open>The addresses that the user has asked to connect to and that are still in the channel.\<close>

definition asked :: "'m Tool \<Rightarrow> MacAddr set" where
  "asked t = {m. Ev_Connect m \<in> set (events t) \<union> set_option (blocked t)}"

text \<open>
  The states of the tool, with the set \<open>M\<close> of all addresses that the user has asked to connect to, the set \<open>B\<close> of the peers
  on whose connection a call has panicked or has been left waiting for good, and the set \<open>W\<close> of the packets handed to the
  socket. What such a call leaves of its connection is left open. A panic of the main thread ends the process. As for a single
  endpoint, a tick needs room in the windows and returned receive credits must fit their field; an iterator visits a key once.
\<close>

inductive tool_run ::
    "'m modular \<Rightarrow> pnet \<Rightarrow> tui_error arguments \<Rightarrow> bool \<Rightarrow> 'm Tool \<Rightarrow> MacAddr set \<Rightarrow> MacAddr set \<Rightarrow> bytes set \<Rightarrow> bool"
  for L P A ox10mode where
  tr_new: "network_new ifs open_channel name = Ok n \<Longrightarrow> tool_run L P A ox10mode (tool_new n) {} {} {}"
| tr_rx: "tool_run L P A ox10mode t M B W \<Longrightarrow> \<not> net_rx_ended t \<Longrightarrow> rx_enqueue_step received (network t) = (ends, n) \<Longrightarrow>
    tool_run L P A ox10mode (t\<lparr>network := n, net_rx_ended := ends\<rparr>) M B W"
| tr_tx: "tool_run L P A ox10mode t M B W \<Longrightarrow> \<not> net_tx_ended t \<Longrightarrow> net_tx_step ok (network t) = (ps, ends, n) \<Longrightarrow>
    tool_run L P A ox10mode (t\<lparr>network := n, net_tx_ended := ends\<rparr>) M B (W \<union> set (map fst ps))"
| tr_receive: "tool_run L P A ox10mode t M B W \<Longrightarrow> \<not> connection_ended t \<Longrightarrow> receive_one L P now t = Some (Returns t') \<Longrightarrow>
    \<forall>m c. table t' m = Some c \<longrightarrow> m \<notin> B \<longrightarrow> credits_small (credits_receive (tc_connection c)) \<Longrightarrow>
    tool_run L P A ox10mode t' M B W"
| tr_receive_panic: "tool_run L P A ox10mode t M B W \<Longrightarrow> \<not> connection_ended t \<Longrightarrow>
    net_get_packet (network t) = (Some x, n) \<Longrightarrow> receive_one L P now t = Some (Panics p) \<Longrightarrow> m = eth_get_source P x \<Longrightarrow>
    m \<in> dom (table t) \<Longrightarrow>
    tool_run L P A ox10mode (connection_end True (set_table ((table t)(m \<mapsto> c)) (t\<lparr>network := n\<rparr>))) M (insert m B) W"
| tr_receive_stuck: "tool_run L P A ox10mode t M B W \<Longrightarrow> \<not> connection_ended t \<Longrightarrow>
    net_get_packet (network t) = (Some x, n) \<Longrightarrow> receive_one L P now t \<in> {None, Some Waits} \<Longrightarrow> m = eth_get_source P x \<Longrightarrow>
    m \<in> dom (table t) \<Longrightarrow>
    tool_run L P A ox10mode (set_table ((table t)(m \<mapsto> c)) (t\<lparr>network := n\<rparr>)) M (insert m B) W"
| tr_serve: "tool_run L P A ox10mode t M B W \<Longrightarrow> \<not> connection_ended t \<Longrightarrow> distinct macs \<Longrightarrow> room B (table t) \<Longrightarrow>
    serve_all L P now macs t = Returns t' \<Longrightarrow> tool_run L P A ox10mode t' M B W"
| tr_serve_panic: "tool_run L P A ox10mode t M B W \<Longrightarrow> \<not> connection_ended t \<Longrightarrow> distinct (macs @ [m]) \<Longrightarrow> room B (table t) \<Longrightarrow>
    serve_connections L P now macs (table t) = Returns (ps, cs) \<Longrightarrow> cs m = Some d \<Longrightarrow> tc_get_packet now d = (r, d') \<Longrightarrow>
    tc_tick_once L P now d' = Panics p \<Longrightarrow>
    tool_run L P A ox10mode (connection_end True (set_table (cs(m \<mapsto> c))
      (t\<lparr>network := put_packets (ps @ (case r of Some q \<Rightarrow> [q] | None \<Rightarrow> [])) (network t)\<rparr>))) M (insert m B) W"
| tr_draw: "tool_run L P A ox10mode t M B W \<Longrightarrow> \<not> draw_ended t \<Longrightarrow> tool_run L P A ox10mode (draw_step r t) M B W"
| tr_draw_panic: "tool_run L P A ox10mode t M B W \<Longrightarrow> \<not> draw_ended t \<Longrightarrow>
    tool_run L P A ox10mode (t\<lparr>draw_ended := True\<rparr>) M B W"
| tr_event: "tool_run L P A ox10mode t M B W \<Longrightarrow> \<not> event_ended t \<Longrightarrow> event_step A key t = Returns t' \<Longrightarrow>
    tool_run L P A ox10mode t' (M \<union> asked t') B W"
| tr_event_panic: "tool_run L P A ox10mode t M B W \<Longrightarrow> \<not> event_ended t \<Longrightarrow> event_step A key t = Panics p \<Longrightarrow>
    tool_run L P A ox10mode (t\<lparr>line := l, event_ended := True\<rparr>) M B W"
| tr_operation: "tool_run L P A ox10mode t M B W \<Longrightarrow> \<not> operation_ended t \<Longrightarrow>
    operation_step L now ox10mode macs keys t = Returns t' \<Longrightarrow> tool_run L P A ox10mode t' M B W"
| tr_operation_panic: "tool_run L P A ox10mode t M B W \<Longrightarrow> \<not> operation_ended t \<Longrightarrow>
    operation_step L now ox10mode macs keys t = Panics p \<Longrightarrow> pending t = (call # calls, ph) \<Longrightarrow> m = call_mac call \<Longrightarrow>
    m \<in> dom (table t) \<Longrightarrow>
    tool_run L P A ox10mode (set_table ((table t)(m \<mapsto> c)) (t\<lparr>operation_ended := True\<rparr>)) M (insert m B) W"
| tr_main: "tool_run L P A ox10mode t M B W \<Longrightarrow> main_step L now macs keys (main t) t = Returns t' \<Longrightarrow>
    tool_run L P A ox10mode t' M B W"

text \<open>The calls that wait are on connections of the table, and a connection is removed by the last one of them.\<close>

fun calls_in :: "MacAddr set \<Rightarrow> tui_call list \<Rightarrow> bool" where
  "calls_in ms [] \<longleftrightarrow> True"
| "calls_in ms (Call_remove m # calls) \<longleftrightarrow> calls = []"
| "calls_in ms (call # calls) \<longleftrightarrow> call_mac call \<in> ms \<and> calls_in ms calls"

definition tool_inv :: "'m modular \<Rightarrow> pnet \<Rightarrow> 'm Tool \<Rightarrow> MacAddr set \<Rightarrow> MacAddr set \<Rightarrow> bool" where
  "tool_inv L P t M B \<longleftrightarrow>
     dom (table t) \<subseteq> M \<and> table_ok L P B (net_mac (network t)) (table t) \<and>
     (B = {} \<longrightarrow> (\<forall>p \<in> set (tx_queue (network t)). \<exists>m \<in> M. frame_to P m p)) \<and>
     calls_in (dom (table t)) (fst (pending t)) \<and> asked t \<subseteq> M \<and> length (events t) \<le> channel_bound"

lemma tool_simps [simp]:
  "table (set_table cs t) = cs" "table (log_all ms t) = table t" "table (t\<lparr>network := n\<rparr>) = table t"
  "table (t\<lparr>pending := c\<rparr>) = table t" "table (t\<lparr>main := p\<rparr>) = table t" "table (t\<lparr>stopped := b\<rparr>) = table t"
  "table (t\<lparr>draw_ended := b\<rparr>) = table t" "table (t\<lparr>connection_ended := b\<rparr>) = table t"
  "table (t\<lparr>event_ended := b\<rparr>) = table t" "table (t\<lparr>operation_ended := b\<rparr>) = table t"
  "table (t\<lparr>net_rx_ended := b\<rparr>) = table t" "table (t\<lparr>net_tx_ended := b\<rparr>) = table t" "table (t\<lparr>line := l\<rparr>) = table t" "table (t\<lparr>events := es\<rparr>) = table t" "table (t\<lparr>blocked := e\<rparr>) = table t"
  by (simp_all add: table_def set_table_def log_all_def)

lemma log_all_simps [simp]:
  "pending (log_all ms t) = pending t" "network (log_all ms t) = network t" "events (log_all ms t) = events t"
  "blocked (log_all ms t) = blocked t" "asked (log_all ms t) = asked t" "app (log_all ms t) = app t"
  by (simp_all add: log_all_def asked_def)

lemma set_table_simps [simp]:
  "pending (set_table cs t) = pending t" "network (set_table cs t) = network t" "events (set_table cs t) = events t"
  "blocked (set_table cs t) = blocked t" "asked (set_table cs t) = asked t" "main (set_table cs t) = main t"
  "app (set_table cs t) = (app t)\<lparr>connections := cs\<rparr>" "stopped (set_table cs t) = stopped t"
  by (simp_all add: set_table_def asked_def)

lemma calls_in_mono: "calls_in ms calls \<Longrightarrow> ms \<subseteq> ms' \<Longrightarrow> calls_in ms' calls"
  by (induction ms calls rule: calls_in.induct) auto

lemma tx_queue_put [simp]: "tx_queue (put_packets ps n) = tx_queue n @ ps" "net_mac (put_packets ps n) = net_mac n"
  unfolding put_packets_def by (induction ps arbitrary: n) (auto simp: net_put_packet_def)

lemma log_all_inv [simp]: "tool_inv L P (log_all ms t) M B = tool_inv L P t M B"
  by (simp add: tool_inv_def log_all_def asked_def table_def)

lemma connection_end_inv [simp]: "tool_inv L P (connection_end ends t) M B = tool_inv L P t M B"
  by (simp add: tool_inv_def connection_end_def network_drop_def asked_def)

lemma tool_inv_draw: "tool_inv L P t M B \<Longrightarrow> tool_inv L P (draw_step r t) M B"
  by (cases r) (auto simp: draw_step_def tool_inv_def Let_def asked_def log_all_def table_def)

lemma send_event_inv:
  assumes "tool_inv L P t M B" "\<And>m. e = Ev_Connect m \<Longrightarrow> m \<in> M"
  shows "tool_inv L P (send_event e t) M B"
  using assms by (auto simp: send_event_def tool_inv_def asked_def table_def log_all_def)

lemma asked_send: "e = Ev_Connect m \<Longrightarrow> \<not> operation_ended t \<Longrightarrow> m \<in> asked (send_event e t)"
  by (simp add: send_event_def asked_def)

lemma tool_inv_grow: "tool_inv L P t M B \<Longrightarrow> M \<subseteq> M' \<Longrightarrow> tool_inv L P t M' B"
  unfolding tool_inv_def by blast

text \<open>A change of the table that keeps the keys.\<close>

lemma tool_inv_table:
  assumes "tool_inv L P t M B" "dom cs = dom (table t)" "table_ok L P B (net_mac (network t)) cs"
  shows "tool_inv L P (set_table cs t) M B"
  using assms by (auto simp: tool_inv_def set_table_def asked_def table_def)

text \<open>A connection on which a call panics.\<close>

lemma tool_inv_break:
  assumes "tool_inv L P t M B" "m \<in> dom (table t)"
  shows "tool_inv L P (set_table ((table t)(m \<mapsto> c)) t) M (insert m B)"
  using assms by (auto simp: tool_inv_def asked_def table_ok_def insert_absorb)

lemma tool_inv_parts:
  assumes "tool_inv L P t M B"
  shows "table_ok L P B (net_mac (network t)) (table t)" "calls_in (dom (table t)) (fst (pending t))" "asked t \<subseteq> M"
    "dom (table t) \<subseteq> M"
  using assms by (simp_all add: tool_inv_def)

lemma handle_calls_in:
  assumes "handle_connection_events L now mine ox10mode macs e ap = (ms, calls, ap')"
  shows "calls_in (dom (connections ap')) calls"
proof -
  have "calls_in (dom cs) (map Call_cache_release_all (filter (\<lambda>m. cs m \<noteq> None) macs))" for cs :: "MacAddr \<rightharpoonup> 'a TuiConnection"
    by (induction macs) auto
  then show ?thesis
    using assms by (cases e) (auto simp: call_for_def execute_for_connection_def find_Some_iff split: option.splits if_splits)
qed

lemma handle_table:
  assumes "handle_connection_events L now mine ox10mode macs e ap = (ms, calls, ap')"
  shows "connections ap' = connections ap \<or> (\<exists>m i. e = Ev_Connect m \<and>
    connections ap' = (connections ap)(m \<mapsto> tc_new L now i mine m 0 (8 * 1024 * 1024) ox10mode))"
  using assms by (cases e) (auto simp: call_for_def split: option.splits if_splits)

lemma event_step_inv:
  assumes "tool_inv L P t M B" "event_step A key t = Returns t'"
  shows "tool_inv L P t' (M \<union> asked t') B"
proof (cases "blocked t")
  case (Some e)
  have "tool_inv L P (send_event e t) M B"
    by (rule send_event_inv [OF assms(1)]) (use Some assms(1) in \<open>auto simp: tool_inv_def asked_def\<close>)
  with Some assms(2) show ?thesis by (auto simp: event_step_def intro: tool_inv_grow)
next
  case None
  have line: "tool_inv L P (t\<lparr>line := l\<rparr>) M B" for l
    using assms(1) by (simp add: tool_inv_def asked_def)
  have send: "tool_inv L P (send_event e u) (M \<union> asked (send_event e u)) B" if "tool_inv L P u M B" for e and u :: "'a Tool"
  proof (cases "operation_ended u")
    case True
    with that show ?thesis
      by (auto simp: send_event_def tool_inv_def asked_def table_def log_all_def)
  next
    case False
    then show ?thesis
      by (intro send_event_inv tool_inv_grow [OF that]) (auto intro: asked_send)
  qed
  from None assms(2) obtain r l where r: "tui_events A key (line t) = Returns (r, l)"
    by (auto simp: event_step_def elim!: and_then_ReturnsE)
  show ?thesis
  proof (cases r)
    case (Err e)
    with None r assms(2) have "t' = log_all [Msg_failed_tui e] (t\<lparr>line := l\<rparr>)" by (simp add: event_step_def Let_def)
    with tool_inv_grow [OF line, of "M \<union> asked t'"] show ?thesis by simp
  next
    case (Ok ev)
    obtain quit ms e where h: "handle_tui_events ev = (quit, ms, e)" by (metis prod_cases3)
    let ?t = "log_all ms (t\<lparr>line := l\<rparr>)"
    have i: "tool_inv L P ?t M B" using line by simp
    have t': "t' = (if quit then ?t\<lparr>event_ended := True\<rparr> else case e of Some e \<Rightarrow> send_event e ?t | None \<Rightarrow> ?t)"
      using None r Ok h assms(2) by (simp add: event_step_def Let_def)
    have "tool_inv L P (?t\<lparr>event_ended := True\<rparr>) M B" using i by (simp add: tool_inv_def asked_def log_all_def)
    with t' send [OF i] i show ?thesis by (auto intro: tool_inv_grow split: option.splits)
  qed
qed

context ox_link
begin

lemma receive_one_inv:
  assumes "tool_inv L P t M B" "receive_one L P now t = Some (Returns t')"
    and "\<forall>m c. table t' m = Some c \<longrightarrow> m \<notin> B \<longrightarrow> credits_small (credits_receive (tc_connection c))"
  shows "tool_inv L P t' M B"
proof -
  obtain r n where g: "net_get_packet (network t) = (r, n)" by fastforce
  then have n: "tx_queue n = tx_queue (network t)" "net_mac n = net_mac (network t)"
    by (auto simp: net_get_packet_def split: list.splits)
  then have i: "tool_inv L P (t\<lparr>network := n\<rparr>) M B" using assms(1) by (simp add: tool_inv_def asked_def)
  show ?thesis
  proof (cases r)
    case None
    with i g assms(2) show ?thesis by (simp add: receive_one_def)
  next
    case (Some x)
    with g assms(2) obtain cs where cs: "dispatch_packet L P now (net_mac n) x (table t) = Some (Returns cs)"
        "t' = set_table cs (t\<lparr>network := n\<rparr>)"
      by (auto simp: receive_one_def elim!: and_then_ReturnsE)
    have "table_ok L P B (net_mac n) cs \<and> dom cs = dom (table t)"
      by (rule dispatch_ok [OF cs(1)]) (use tool_inv_parts(1) [OF i] assms(3) cs(2) in simp_all)
    with tool_inv_table [OF i] cs(2) show ?thesis by simp
  qed
qed

lemma serve_connections_inv:
  assumes "tool_inv L P t M B" "serve_connections L P now macs (table t) = Returns (ps, cs)" "distinct macs" "room B (table t)"
  shows "tool_inv L P (set_table cs (t\<lparr>network := put_packets ps (network t)\<rparr>)) M B \<and> dom cs = dom (table t)"
proof -
  have r: "table_ok L P B (net_mac (network t)) cs \<and> dom cs = dom (table t) \<and>
      (B = {} \<longrightarrow> (\<forall>p \<in> set ps. \<exists>m \<in> dom (table t). frame_to P m p))"
    by (rule serve_ok [OF assms(2) tool_inv_parts(1) [OF assms(1)] assms(3)]) (use assms(4) in \<open>simp add: room_def\<close>)
  with tool_inv_parts(4) [OF assms(1)] have "B = {} \<longrightarrow> (\<forall>p \<in> set ps. \<exists>m \<in> M. frame_to P m p)" by blast
  then have "tool_inv L P (t\<lparr>network := put_packets ps (network t)\<rparr>) M B"
    using assms(1) by (auto simp: tool_inv_def asked_def)
  from tool_inv_table [OF this] r show ?thesis by simp
qed

lemma serve_all_inv:
  assumes "tool_inv L P t M B" "serve_all L P now macs t = Returns t'" "distinct macs" "room B (table t)"
  shows "tool_inv L P t' M B"
  using assms(2) serve_connections_inv [OF assms(1) _ assms(3,4)] by (auto simp: serve_all_def elim!: and_then_ReturnsE)

lemma serve_panic_inv:
  assumes "tool_inv L P t M B" "serve_connections L P now macs (table t) = Returns (ps, cs)" "distinct macs" "room B (table t)"
    and "cs m = Some d"
  shows "tool_inv L P (set_table (cs(m \<mapsto> c)) (t\<lparr>network := put_packets (ps @ qs) (network t)\<rparr>)) M (insert m B)"
proof -
  let ?t = "set_table cs (t\<lparr>network := put_packets ps (network t)\<rparr>)"
  have "tool_inv L P (set_table ((table ?t)(m \<mapsto> c)) ?t) M (insert m B)"
    using serve_connections_inv [OF assms(1-4)] assms(5) by (intro tool_inv_break) auto
  then show ?thesis by (simp add: tool_inv_def asked_def)
qed

lemma poll_pending_inv:
  assumes "tool_inv L P t M B" "poll_pending L now keys (call_mac call) call calls ph t = Returns t'"
    and "pending t = (call # calls, ph)" "call_mac call \<in> dom (table t)" "calls_in (dom (table t)) calls"
  shows "tool_inv L P t' M B"
proof -
  let ?m = "call_mac call"
  obtain c where c: "table t ?m = Some c" using assms(4) by blast
  with assms(2) obtain x c' where p: "poll_call L now keys call ph c = Returns (x, c')"
    "t' = (case x of Inl ph \<Rightarrow> (set_table ((table t)(?m \<mapsto> c')) t)\<lparr>pending := (call # calls, Some ph)\<rparr>
      | Inr ms \<Rightarrow> log_all ms ((set_table ((table t)(?m \<mapsto> c')) t)\<lparr>pending := (calls, None)\<rparr>))"
    by (auto simp: poll_pending_def Let_def elim!: and_then_ReturnsE)
  have "tc_ok L P (net_mac (network t)) ?m c'" if "?m \<notin> B"
    using poll_call_ok [OF p(1)] tool_inv_parts(1) [OF assms(1)] c that by (auto simp: table_ok_def)
  then have i: "tool_inv L P (set_table ((table t)(?m \<mapsto> c')) t) M B"
    using tool_inv_parts(1) [OF assms(1)] c by (intro tool_inv_table [OF assms(1)] table_ok_update) auto
  then have d: "calls_in (insert ?m (dom (table t))) (call # calls)"
    using assms(3) by (simp add: tool_inv_def)
  have "calls_in (insert ?m (dom (table t))) calls" by (rule calls_in_mono [OF assms(5)]) blast
  with i d p(2) show ?thesis
    by (cases x) (auto simp: tool_inv_def asked_def)
qed

lemma take_event_inv:
  assumes "tool_inv L P t M B" "fst (pending t) = []"
  shows "tool_inv L P (take_event L now ox10mode macs t) M B"
proof -
  let ?cs = "retain_open (table t)" and ?mine = "net_mac (network t)"
  have sub: "?cs \<subseteq>\<^sub>m table t" by (auto simp: retain_open_def map_le_def split: option.splits if_splits)
  then have d: "dom ?cs \<subseteq> dom (table t)" by (rule map_le_implies_dom_le)
  have ok: "table_ok L P B ?mine ?cs" using tool_inv_parts(1) [OF assms(1)] sub by (rule table_ok_smaller)
  have i: "tool_inv L P (set_table ?cs t) M B"
    using assms d ok by (auto simp: tool_inv_def)
  show ?thesis
  proof (cases "events t")
    case Nil
    with i show ?thesis by (simp add: take_event_def)
  next
    case (Cons e es)
    obtain ms calls a where h: "handle_connection_events L now ?mine ox10mode macs e (app (set_table ?cs t)) = (ms, calls, a)"
      by (metis prod_cases3)
    have e: "m \<in> M" if "e = Ev_Connect m" for m
      using that Cons tool_inv_parts(3) [OF assms(1)] by (auto simp: asked_def)
    have a: "table_ok L P B ?mine (connections a) \<and> dom (connections a) \<subseteq> M"
      using handle_table [OF h] ok subset_trans [OF d tool_inv_parts(4) [OF assms(1)]] e
      by (elim disjE exE conjE) (simp_all add: table_ok_update tc_ok_new)
    have "take_event L now ox10mode macs t = log_all ms ((set_table ?cs t)\<lparr>app := a, events := es, pending := (calls, None)\<rparr>)"
      using h Cons by (simp add: take_event_def Let_def)
    then show ?thesis
      using a handle_calls_in [OF h] i Cons by (auto simp: tool_inv_def table_def asked_def)
  qed
qed

lemma operation_step_inv:
  assumes "tool_inv L P t M B" "operation_step L now ox10mode macs keys t = Returns t'"
  shows "tool_inv L P t' M B"
proof -
  obtain u where u: "pending_step L now ox10mode macs keys t = Returns u"
      "t' = u\<lparr>operation_ended := (fst (pending u) = [] \<and> stopped u)\<rparr>"
    using assms(2) by (auto simp: operation_step_def elim!: and_then_ReturnsE)
  obtain calls ph where p: "pending t = (calls, ph)" by fastforce
  have "tool_inv L P u M B"
  proof (cases calls)
    case Nil
    with p u(1) assms(1) show ?thesis by (auto simp: pending_step_def intro: take_event_inv)
  next
    case (Cons call rest)
    have c: "calls_in (dom (table t)) (call # rest)" using tool_inv_parts(2) [OF assms(1)] p Cons by simp
    show ?thesis
    proof (cases "\<exists>m. call = Call_remove m")
      case True
      then obtain m where m: "call = Call_remove m" by blast
      with c have "rest = []" by simp
      moreover have "table_ok L P B (net_mac (network t)) ((table t)(m := None))"
        using tool_inv_parts(1) [OF assms(1)] by (simp add: table_ok_def)
      moreover have "dom ((table t)(m := None)) \<subseteq> M" using tool_inv_parts(4) [OF assms(1)] by auto
      ultimately show ?thesis using p Cons m u(1) assms(1)
        by (auto simp: pending_step_def tool_inv_def asked_def simp del: dom_fun_upd)
    next
      case False
      then have k: "calls_in (dom (table t)) rest" "call_mac call \<in> dom (table t)"
        using c by (cases call; simp)+
      have "poll_pending L now keys (call_mac call) call rest ph t = Returns u"
        using False u(1) p Cons by (auto simp: pending_step_def split: tui_call.splits)
      from poll_pending_inv [OF assms(1) this] p Cons k show ?thesis by simp
    qed
  qed
  with u(2) show ?thesis by (simp add: tool_inv_def asked_def)
qed

lemma main_step_inv:
  assumes "tool_inv L P t M B" "main_step L now macs keys ph t = Returns t'"
  shows "tool_inv L P t' M B"
proof (cases "\<exists>m ms q. ph = Main_closing (m # ms) q \<and> table t m \<noteq> None")
  case True
  then obtain m ms q c where c: "ph = Main_closing (m # ms) q" "table t m = Some c" by blast
  with assms(2) obtain x c' where d: "disconnect L now keys (case_option (Dc_release None) id q) c = Returns (x, c')"
    "t' = set_table ((table t)(m \<mapsto> c')) (t\<lparr>main := (case x of Some ph \<Rightarrow> Main_closing (m # ms) (Some ph) | None \<Rightarrow> Main_closing ms None)\<rparr>)"
    by (auto simp: close_one_def elim!: and_then_ReturnsE)
  have "tc_ok L P (net_mac (network t)) m c'" if "m \<notin> B"
    using disconnect_ok [OF d(1)] tool_inv_parts(1) [OF assms(1)] c(2) that by (auto simp: table_ok_def)
  then have "table_ok L P B (net_mac (network t)) ((table t)(m \<mapsto> c'))" by (rule table_ok_update [OF tool_inv_parts(1) [OF assms(1)]])
  moreover have "tool_inv L P (t\<lparr>main := z\<rparr>) M B" for z using assms(1) by (simp add: tool_inv_def asked_def)
  ultimately show ?thesis using c(2) unfolding d(2) by (intro tool_inv_table) auto
next
  case False
  with assms show ?thesis
    by (cases "(L, now, macs, keys, ph, t)" rule: main_step.cases) (auto simp: tool_inv_def asked_def close_one_def split: option.splits if_splits)
qed

end

lemma tool_run_inv:
  assumes "ox_link L P" and "tool_run L P A ox10mode t M B W"
  shows "tool_inv L P t M B \<and> (B = {} \<longrightarrow> (\<forall>p \<in> W. \<exists>m \<in> M. frame_to P m p))"
  using assms(2)
proof (induction rule: tool_run.induct)
  case (tr_new ifs open_channel name n)
  then show ?case
    by (auto simp: tool_new_def tool_inv_def table_def asked_def table_ok_def network_new_def Let_def
        split: option.splits result.splits channel.splits)
next
  case (tr_rx t M B W received ends n)
  then show ?case
    by (auto simp: tool_inv_def asked_def rx_enqueue_step_def rx_push_def Let_def split: option.splits)
next
  case (tr_tx t M B W ok ps ends n)
  have "set (map fst ps) = set (tx_queue (network t))" by (simp only: net_tx_step_spec(1) [OF tr_tx.hyps(3)])
  then show ?case using tr_tx.IH net_tx_step_spec(3) [OF tr_tx.hyps(3)] by (auto simp: tool_inv_def asked_def)
next
  case (tr_receive t M B W now t')
  then show ?case using ox_link.receive_one_inv [OF assms(1)] by blast
next
  case (tr_receive_panic t M B W x n now p m c)
  then have "tool_inv L P (t\<lparr>network := n\<rparr>) M B"
    by (auto simp: tool_inv_def asked_def net_get_packet_def split: list.splits)
  with tool_inv_break [OF this, of m c] tr_receive_panic.hyps(6) show ?case by simp
next
  case (tr_receive_stuck t M B W x n now m c)
  then have "tool_inv L P (t\<lparr>network := n\<rparr>) M B"
    by (auto simp: tool_inv_def asked_def net_get_packet_def split: list.splits)
  with tool_inv_break [OF this, of m c] tr_receive_stuck.hyps(6) show ?case by simp
next
  case (tr_serve t M B W macs now t')
  then show ?case using ox_link.serve_all_inv [OF assms(1)] by blast
next
  case (tr_serve_panic t M B W macs m now ps cs d r d' p c)
  then show ?case using ox_link.serve_panic_inv [OF assms(1)] by simp
next
  case (tr_draw_panic t M B W)
  then show ?case by (simp add: tool_inv_def asked_def)
next
  case (tr_event t M B W key t')
  then show ?case using event_step_inv by blast
next
  case (tr_event_panic t M B W key p l)
  then show ?case by (simp add: tool_inv_def asked_def)
next
  case (tr_operation t M B W now macs keys t')
  then show ?case using ox_link.operation_step_inv [OF assms(1)] by blast
next
  case (tr_operation_panic t M B W now macs keys p call calls ph m c)
  then have "tool_inv L P (t\<lparr>operation_ended := True\<rparr>) M B" by (simp add: tool_inv_def asked_def)
  with tool_inv_break [OF this, of m c] tr_operation_panic.hyps(6) show ?case by simp
next
  case (tr_main t M B W now macs keys t')
  then show ?case using ox_link.main_step_inv [OF assms(1)] by blast
qed (simp add: tool_inv_draw)

text \<open>
  C8. In every state of the tool, however its threads, the network and the keys interleave, and after any thread has
  panicked: every connection of the table is kept under an address that the user has asked to connect to, and satisfies the
  invariant of an endpoint with that address as its peer, unless a call on this very connection has panicked or never
  returned; as long as that has happened to no connection, every packet that waits to be sent or has been handed to the socket
  is an OmniXtend frame for an address that the user has asked to connect to; a call under way finds its connection in the
  table; and the channel never holds more than 16 events.
\<close>

theorem tool_invariant:
  assumes "ox_link L P" and "tool_run L P A ox10mode t M B W"
  shows "(\<forall>m c. table t m = Some c \<longrightarrow> m \<in> M \<and>
      (m \<notin> B \<longrightarrow> endpoint_ok L P (net_mac (network t)) m (tc_connection c) (tc_cache c))) \<and>
    (B = {} \<longrightarrow> (\<forall>p \<in> set (tx_queue (network t)) \<union> W. \<exists>m \<in> M. frame_to P m p)) \<and>
    calls_in (dom (table t)) (fst (pending t)) \<and> length (events t) \<le> 16"
  using tool_run_inv [OF assms] by (auto simp: tool_inv_def table_ok_def tc_ok_def channel_bound_def)

text \<open>The user types the command that connects to \<open>sample_peer\<close>, and the operation thread handles it.\<close>

definition sample_peer :: MacAddr where
  "sample_peer = MacAddr 2 0 0 0 0 2"

definition sample_arguments :: "tui_error arguments" where
  "sample_arguments = \<lparr>arg_mac = (\<lambda>_. Ok sample_peer), arg_read = (\<lambda>_. Err TuiRegexError), arg_write = (\<lambda>_. Err TuiRegexError)\<rparr>"

definition sample_network :: Network where
  "sample_network = \<lparr>tx_queue = [], rx_queue = [], net_terminate = False, net_mac = MacAddr 0 0 0 0 0 1\<rparr>"

lemma sample_network_new:
  "network_new [\<lparr>ifc_name = ascii ''eth0'', ifc_mac = None\<rparr>] (\<lambda>_. Ok Ethernet) (ascii ''eth0'') = Ok sample_network"
  by (simp add: network_new_def trim_def ascii_def is_space_def sample_network_def)

definition sample_asked :: "(int \<times> nat) Tool" where
  "sample_asked = (tool_new sample_network)\<lparr>line := \<lparr>cmdline = [[0x63], []], cmdline_selected = 1, cursor = 0\<rparr>,
     events := [Ev_Connect sample_peer]\<rparr>"

lemma sample_typed:
  "event_step sample_arguments (Some (Key_char 0x63)) (tool_new sample_network) =
     Returns ((tool_new sample_network)\<lparr>line := \<lparr>cmdline = [[0x63]], cmdline_selected = 0, cursor = 1\<rparr>\<rparr>)"
  "event_step sample_arguments (Some Key_enter)
     ((tool_new sample_network)\<lparr>line := \<lparr>cmdline = [[0x63]], cmdline_selected = 0, cursor = 1\<rparr>\<rparr>) = Returns sample_asked"
  by (simp_all add: event_step_def tool_new_def edit_def cmd_char_def selected_def put_line_def cmdline_new_def str_insert_def
      log_all_def tui_process_message_def cmd_get_def parse_command_def sample_arguments_def trim_def first_word_def ascii_def
      is_space_def cmd_new_line_def send_event_def channel_bound_def sample_asked_def)

lemma sample_asked_run: "tool_run std_modular std_pnet sample_arguments False sample_asked {sample_peer} {} {}"
proof -
  have new: "tool_run std_modular std_pnet sample_arguments False (tool_new sample_network) {} {} {}"
    by (rule tr_new [OF sample_network_new])
  have "tool_run std_modular std_pnet sample_arguments False
      ((tool_new sample_network)\<lparr>line := \<lparr>cmdline = [[0x63]], cmdline_selected = 0, cursor = 1\<rparr>\<rparr>) {} {} {}"
    using tr_event [OF new _ sample_typed(1)] by (simp add: tool_new_def asked_def)
  from tr_event [OF this _ sample_typed(2)] show ?thesis
    by (simp add: tool_new_def sample_asked_def asked_def)
qed

theorem tool_invariant_witness:
  "\<exists>t c. tool_run std_modular std_pnet sample_arguments False t {sample_peer} {} {} \<and> table t sample_peer = Some c \<and>
     endpoint_ok std_modular std_pnet (MacAddr 0 0 0 0 0 1) sample_peer (tc_connection c) (tc_cache c)"
proof -
  obtain t where t: "operation_step std_modular 0 False [] [] sample_asked = Returns t"
      "\<exists>c. table t sample_peer = Some c" "net_mac (network t) = MacAddr 0 0 0 0 0 1"
    by (simp add: operation_step_def pending_step_def take_event_def sample_asked_def tool_new_def table_def retain_open_def
        set_table_def log_all_def sample_network_def)
  have "tool_run std_modular std_pnet sample_arguments False t {sample_peer} {} {}"
    by (rule tr_operation [OF sample_asked_run _ t(1)]) (simp add: sample_asked_def tool_new_def)
  from tool_invariant [OF lk.ox_link_axioms this] this t(2,3) show ?thesis by auto
qed

end
