(* ===== verification/Tui_View.thy ===== *)
theory Tui_View
  imports Tui
begin

text \<open>
  What \<^verbatim>\<open>omnixtend-tui\<close> shows: the log and the tables of \<^verbatim>\<open>tui.rs\<close>, \<^verbatim>\<open>get_state\<close> of \<^verbatim>\<open>connection.rs\<close> and the frame timing of
  \<^verbatim>\<open>main.rs\<close>. A text is the list of the pieces of its format string, with the values that are formatted; how a
  value is turned into characters and how widgets are laid out and drawn belongs to libraries. The lemmas say
  when drawing returns and what it shows of the cache and of the connections.
\<close>

section \<open>Texts and tables\<close>

text \<open>\<open>Hex\<close> is \<^verbatim>\<open>{:#010X}\<close>, \<open>Fixed\<close> is \<^verbatim>\<open>{:.2}\<close> of an \<^verbatim>\<open>f64\<close>, given by its bits, \<open>Elapsed\<close> is \<^verbatim>\<open>{:.2?}\<close> of a duration.\<close>

datatype color = Red | Magenta | Reset | LightGreen | Gray | Green | LightYellow | Yellow | LightRed

datatype piece =
    Txt string
  | Str ustring
  | Hex u64
  | Dec u64
  | Fixed u64
  | Mac MacAddr
  | HumanBytes u64
  | State ConnectionState
  | Elapsed duration
  | Level level
  | Message message

record cell =
  cell_text :: "piece list"
  cell_fg :: "color option"

record row =
  row_cells :: "cell list"
  row_height :: nat

record table_widget =
  table_header :: "string list"
  table_rows :: "row list"
  table_widths :: "nat list"
  table_title :: string

definition plain :: "piece list \<Rightarrow> cell" where
  "plain t = \<lparr>cell_text = t, cell_fg = None\<rparr>"

definition styled :: "color \<Rightarrow> piece list \<Rightarrow> cell" where
  "styled k t = \<lparr>cell_text = t, cell_fg = Some k\<rparr>"

section \<open>The log\<close>

text \<open>\<open>time\<close> is the time of day as the library formats it, or \<^verbatim>\<open>NO_TIME\<close>.\<close>

type_synonym log = "(piece list \<times> color) list"

fun log_color :: "level \<Rightarrow> color" where
  "log_color L_Error = Red"
| "log_color L_Warn = Magenta"
| "log_color L_Info = Reset"
| "log_color L_Debug = LightGreen"
| "log_color L_Trace = Gray"

definition log_message :: "ustring \<Rightarrow> message \<Rightarrow> log \<Rightarrow> log" where
  "log_message time msg log =
     log @ [([Str time, Txt '':'', Level (message_level msg), Txt '' => '', Message msg], log_color (message_level msg))]"

text \<open>\<^verbatim>\<open>render_log\<close>: the entries wrapped to the width by \<open>wrap\<close>, and the selected one.\<close>

definition render_log ::
    "(piece list \<Rightarrow> nat \<Rightarrow> piece list) \<Rightarrow> u16 \<Rightarrow> log \<Rightarrow> (piece list \<times> color) list \<times> nat" where
  "render_log wrap width log =
     (map (\<lambda>(t, k). (wrap t (unat width), k)) log, if log = [] then 0 else length log - 1)"

section \<open>The cache\<close>

fun state_style :: "Cap \<Rightarrow> color" where
  "state_style ToT = Red"
| "state_style ToB = Green"
| "state_style ToN = Gray"

fun state_name :: "Cap \<Rightarrow> string" where
  "state_name ToT = ''Trunk''"
| "state_name ToB = ''Branch''"
| "state_name ToN = ''None''"

definition cache_row :: "CacheStatus \<Rightarrow> row outcome" where
  "cache_row c =
     and_then (slice_range (cs_data c) 0 8) (\<lambda>d.
       Returns \<lparr>row_cells =
         [plain [Hex (cs_addr c)], plain [Txt (if cs_modified c then ''M'' else ''C'')],
          styled (state_style (cs_permissions c)) [Txt (state_name (cs_permissions c))], plain [Hex (u64_from_ne_bytes d)]],
         row_height = 1\<rparr>)"

fun all_rows :: "('a \<Rightarrow> row outcome) \<Rightarrow> 'a list \<Rightarrow> row list outcome" where
  "all_rows f [] = Returns []"
| "all_rows f (x # xs) = and_then (f x) (\<lambda>r. and_then (all_rows f xs) (\<lambda>rs. Returns (r # rs)))"

definition render_cachestatus :: "CacheStatus list \<Rightarrow> table_widget outcome" where
  "render_cachestatus cachestates =
     and_then (all_rows cache_row cachestates) (\<lambda>rs.
       Returns \<lparr>table_header = [''Address'', ''Modified'', ''Permission'', ''Data''], table_rows = rs,
         table_widths = [10, 10, 10, 10], table_title = ''Cache Status''\<rparr>)"

section \<open>The connections\<close>

record TuiConnectionState =
  tcs_addr :: u64
  tcs_size :: u64
  tcs_mac :: MacAddr
  tcs_state :: ConnectionState
  tcs_outstanding :: u64
  tcs_rx_seq :: u64
  tcs_tx_seq :: u64
  tcs_we_acked :: u64
  tcs_they_acked :: u64
  tcs_last_msg_in_micros :: duration
  tcs_last_msg_out_micros :: duration

definition tc_get_state :: "'m modular \<Rightarrow> instant \<Rightarrow> MacAddr \<Rightarrow> 'm TuiConnection \<Rightarrow> TuiConnectionState" where
  "tc_get_state L now mac c =
     (let status = conn_status L now now (tc_connection c) in
      \<lparr>tcs_addr = tc_addr c, tcs_size = tc_size c, tcs_mac = mac, tcs_state = connection_state (tc_connection c),
       tcs_outstanding = num_outstanding (tc_operations c),
       tcs_rx_seq = word_of_int (st_rx_seq status), tcs_tx_seq = word_of_int (st_tx_seq status),
       tcs_we_acked = word_of_int (st_we_acked status), tcs_they_acked = word_of_int (st_they_acked status),
       tcs_last_msg_in_micros = st_last_msg_in_micros status,
       tcs_last_msg_out_micros = st_last_msg_out_micros status\<rparr>)"

definition tc_get_cache_state :: "u64 list \<Rightarrow> 'm TuiConnection \<Rightarrow> CacheStatus list" where
  "tc_get_cache_state keys c = retrieve_overview keys (tc_cache c)"

fun connection_style :: "ConnectionState \<Rightarrow> color" where
  "connection_style Active = Green"
| "connection_style Idle = Reset"
| "connection_style Enabled = LightYellow"
| "connection_style Opened = Yellow"
| "connection_style ClosedByHost = LightRed"
| "connection_style ClosedByHostIndicated = Red"
| "connection_style ClosedByClient = Magenta"

definition connection_row :: "TuiConnectionState \<Rightarrow> row" where
  "connection_row c =
     \<lparr>row_cells =
        [plain [Mac (tcs_mac c), Txt (CHR 0x0A # '' ''), Hex (tcs_addr c), Txt '' ('', HumanBytes (tcs_size c), Txt '')''],
         styled (connection_style (tcs_state c)) [State (tcs_state c)],
         plain [Dec (tcs_tx_seq c), Txt [CHR 0x0A], Dec (tcs_rx_seq c)],
         plain [Dec (tcs_they_acked c), Txt [CHR 0x0A], Dec (tcs_we_acked c)],
         plain [Dec (tcs_outstanding c), Txt (CHR 0x0A # ''I:''), Elapsed (tcs_last_msg_in_micros c), Txt ''O:'',
           Elapsed (tcs_last_msg_out_micros c)]],
      row_height = 2\<rparr>"

definition render_connectionstatus :: "TuiConnectionState list \<Rightarrow> table_widget" where
  "render_connectionstatus constates =
     \<lparr>table_header = [''Mac/Address (Size)'', ''State'', ''TX/RX'', ''THEY/WE'', ''Out/Last''],
      table_rows = map connection_row constates, table_widths = [6 * 2 + 5 + 4, 6, 6, 6, 20], table_title = ''Connections''\<rparr>"

section \<open>A frame\<close>

definition render_help :: "u64 \<Rightarrow> u64 \<Rightarrow> piece list" where
  "render_help fps eventps =
     [Txt ''FPS '', Fixed fps, Txt '' Events/s '', Dec eventps, Txt '' '',
      Txt ''Type quit or hit Ctrl-c to exit | (h)elp | (c)onnect | (d)isconnect | (r)ead | (w)rite | (cr)ead | (cw)rite | (cd)estroy | (cd)estroy(a)ll '']"

text \<open>The rows of the terminal are split by the library; \<open>log_width\<close> is the width it gives to the log.\<close>

record screen =
  scr_heights :: "u16 list"
  scr_commandline :: "ustring \<times> ustring \<times> ustring"
  scr_help :: "piece list"
  scr_log :: "(piece list \<times> color) list \<times> nat"
  scr_connections :: table_widget
  scr_cache :: table_widget

definition draw_inner ::
    "(piece list \<Rightarrow> nat \<Rightarrow> piece list) \<Rightarrow> u16 \<Rightarrow> u16 \<Rightarrow> log \<Rightarrow> ustring \<Rightarrow> nat \<Rightarrow> u64 \<Rightarrow> u64 \<Rightarrow>
     TuiConnectionState list \<Rightarrow> CacheStatus list \<Rightarrow> screen outcome" where
  "draw_inner wrap height log_width log cmdline0 cursor0 fps eventsps constates cachestates =
     and_then (render_commandline cmdline0 cursor0) (\<lambda>command.
     and_then (render_cachestatus cachestates) (\<lambda>cs.
     Returns \<lparr>scr_heights = [height - 3, 2, 1], scr_commandline = command, scr_help = render_help fps eventsps,
       scr_log = render_log wrap (log_width - 2) log, scr_connections = render_connectionstatus constates, scr_cache = cs\<rparr>))"

definition draw ::
    "(piece list \<Rightarrow> nat \<Rightarrow> piece list) \<Rightarrow> u16 \<Rightarrow> u16 \<Rightarrow> log \<Rightarrow> Cmdline \<Rightarrow> u64 \<Rightarrow> u64 \<Rightarrow>
     TuiConnectionState list \<Rightarrow> CacheStatus list \<Rightarrow> screen outcome" where
  "draw wrap height log_width log l fps eventsps constates cachestates =
     and_then (cmd_get l) (\<lambda>(cmdline0, cursor0).
       draw_inner wrap height log_width log cmdline0 cursor0 fps eventsps constates cachestates)"

text \<open>The part of the draw thread that collects what is shown, in the order \<open>macs\<close> of the table; \<open>keys m\<close> is the
  order of the cache of connection \<open>m\<close>.\<close>

fun collect_states ::
    "'m modular \<Rightarrow> instant \<Rightarrow> (MacAddr \<Rightarrow> u64 list) \<Rightarrow> MacAddr list \<Rightarrow> (MacAddr \<rightharpoonup> 'm TuiConnection) \<Rightarrow>
     TuiConnectionState list \<times> CacheStatus list" where
  "collect_states L now keys [] cs = ([], [])"
| "collect_states L now keys (m # macs) cs =
     (let (constates, cachestates) = collect_states L now keys macs cs in
      case cs m of
        Some c \<Rightarrow> (tc_get_state L now m c # constates, tc_get_cache_state (keys m) c @ cachestates)
      | None \<Rightarrow> (constates, cachestates))"

section \<open>Frame timing\<close>

text \<open>\<^verbatim>\<open>1000000 / target_fps\<close>, in microseconds.\<close>

definition frame_time :: "nat \<Rightarrow> nat outcome" where
  "frame_time target_fps = (if target_fps = 0 then Panics DivideByZero else Returns (1000000 div target_fps))"

text \<open>\<^verbatim>\<open>ensure_fps\<close>, with the time since the frame was started: the milliseconds it sleeps, if it does, and whether it
  then spins until the frame time has passed. Division of a positive number rounds down. The rate it
  returns, a floating point number that is only shown, is left out.\<close>

definition ensure_fps :: "nat \<Rightarrow> nat \<Rightarrow> (nat option \<times> bool) outcome" where
  "ensure_fps target_fps elapsed =
     and_then (frame_time target_fps) (\<lambda>frame.
       let wait_micros = int frame - int elapsed in
       Returns
         (if wait_micros > 0 then
            let wait_milis = wait_micros div 1000 - 1 in
            (if wait_milis \<ge> 1 then Some (nat wait_milis) else None, True)
          else (None, False)))"

section \<open>Properties\<close>

lemma all_rows_returns:
  "(\<exists>rs. all_rows f xs = Returns rs) \<longleftrightarrow> (\<forall>x \<in> set xs. \<exists>r. f x = Returns r)"
  by (induction xs) (auto simp: and_then_Returns_iff)

text \<open>The cache can be shown exactly when every line has at least eight bytes.\<close>

lemma cachestatus_drawn: "(\<exists>w. render_cachestatus cs = Returns w) \<longleftrightarrow> (\<forall>c \<in> set cs. 8 \<le> length (cs_data c))"
proof -
  have "(\<exists>w. render_cachestatus cs = Returns w) \<longleftrightarrow> (\<exists>rs. all_rows cache_row cs = Returns rs)"
    by (auto simp: render_cachestatus_def and_then_Returns_iff)
  also have "\<dots> \<longleftrightarrow> (\<forall>c \<in> set cs. 8 \<le> length (cs_data c))"
    unfolding all_rows_returns by (auto simp: cache_row_def slice_range_def)
  finally show ?thesis .
qed

text \<open>With an ASCII command line and lines of eight bytes a frame is drawn.\<close>

lemma draw_returns:
  assumes "cmdline_ok l" "\<forall>c \<in> set cachestates. 8 \<le> length (cs_data c)"
  shows "\<exists>s. draw wrap height log_width log l fps eventsps constates cachestates = Returns s \<and>
    length (table_rows (scr_connections s)) = length constates"
proof -
  obtain line cur p where "cmd_get l = Returns (line, cur)" "render_commandline line cur = Returns p"
    using render_ok [OF assms(1)] by blast
  moreover obtain w where "render_cachestatus cachestates = Returns w" using assms(2) cachestatus_drawn by blast
  ultimately show ?thesis by (simp add: draw_def draw_inner_def render_connectionstatus_def)
qed

text \<open>The sequence numbers that are shown are those of the connection: the casts lose nothing.\<close>

lemma shown_number: "sn_ok L s \<Longrightarrow> uint (word_of_int (sn_val L s) :: u64) = sn_val L s"
  unfolding sn_ok_def uint_word_of_int_eq by (intro take_bit_int_eq_self) auto

lemma shown_numbers:
  assumes "conn_inv L P (tc_connection c)"
  shows "uint (tcs_rx_seq (tc_get_state L now m c)) = sn_val L (next_rx_seq (tc_connection c))"
    and "uint (tcs_tx_seq (tc_get_state L now m c)) = sn_val L (next_tx_seq (tc_connection c))"
    and "uint (tcs_we_acked (tc_get_state L now m c)) = sn_val L (we_acked (tc_connection c))"
    and "uint (tcs_they_acked (tc_get_state L now m c)) = sn_val L (they_acked (tc_connection c))"
  using assms
  by (simp_all add: tc_get_state_def conn_status_def Let_def conn_inv_def numbers_ok_def shown_number)

text \<open>A frame is never slept through: after the sleep there is still a millisecond or more left to spin.\<close>

lemma ensure_fps_sleeps:
  assumes "ensure_fps fps elapsed = Returns (Some ms, spins)"
  shows "spins \<and> 1 \<le> ms \<and> elapsed + 1000 * ms + 1000 \<le> 1000000 div fps"
proof -
  have f: "fps \<noteq> 0" and w: "0 < int (1000000 div fps) - int elapsed" "1 \<le> (int (1000000 div fps) - int elapsed) div 1000 - 1"
    "ms = nat ((int (1000000 div fps) - int elapsed) div 1000 - 1)" "spins"
    using assms by (auto simp: ensure_fps_def frame_time_def Let_def split: if_splits)
  then show ?thesis by linarith
qed

text \<open>With a rate of zero, which the options allow, both threads that keep a rate panic when they start.\<close>

lemma zero_fps_panics: "frame_time 0 = Panics DivideByZero"
  by (simp add: frame_time_def)

end
