(* ===== verification/Config.thy ===== *)
theory Config
  imports Ox_Packet
begin

text \<open>
  \<^verbatim>\<open>config/src/main.rs\<close>: the tool that reads and writes the status and control registers of an endpoint on
  an FPGA. A job on the processing element belongs to the TaPaSCo library and is a parameter; what the endpoint's
  register file answers is the contract \<open>register_file\<close>. Memory-mapped registers of the network
  controller are functions from offsets to words. What the commands print, and the device they open, is in \<open>Config_Tool\<close>.
\<close>

section \<open>Jobs\<close>

text \<open>\<^verbatim>\<open>start\<close> with its parameters and \<^verbatim>\<open>release\<close>, which returns the value of the job.\<close>

record ('j, 'e) tapasco_job =
  job_start :: "u64 list \<Rightarrow> 'j \<Rightarrow> (unit, 'e) result \<times> 'j"
  job_release :: "bool \<Rightarrow> bool \<Rightarrow> 'j \<Rightarrow> (u64, 'e) result \<times> 'j"

datatype 'e config_error =
    AllocatorError 'e
  | DMAError 'e
  | UnknownCommand
  | TLKMInit 'e
  | DeviceInit 'e
  | JobError 'e
  | IOError 'e
  | CTRLCError 'e
  | RegNotFound bytes
  | MacError 'e

type_synonym regs = "(bytes \<times> u64) list"

definition read_register :: "('j, 'e) tapasco_job \<Rightarrow> u64 \<Rightarrow> 'j \<Rightarrow> (u64, 'e config_error) result \<times> 'j" where
  "read_register J reg pe =
     (case job_start J [0, reg] pe of
        (Err e, pe) \<Rightarrow> (Err (JobError e), pe)
      | (Ok _, pe) \<Rightarrow>
          (case job_release J False True pe of
             (Err e, pe) \<Rightarrow> (Err (JobError e), pe)
           | (Ok ret, pe) \<Rightarrow> (Ok ret, pe)))"

text \<open>The loop of \<^verbatim>\<open>read_register_values\<close>: entry \<open>i\<close> is in register \<open>1 + len + i\<close>.\<close>

fun read_values :: "('j, 'e) tapasco_job \<Rightarrow> u64 \<Rightarrow> nat \<Rightarrow> regs \<Rightarrow> 'j \<Rightarrow> (regs, 'e config_error) result \<times> 'j" where
  "read_values J len i [] pe = (Ok [], pe)"
| "read_values J len i ((name, value) # regs) pe =
     (case read_register J (1 + len + of_nat i) pe of
        (Err e, pe) \<Rightarrow> (Err e, pe)
      | (Ok r, pe) \<Rightarrow>
          (case read_values J len (Suc i) regs pe of
             (Err e, pe) \<Rightarrow> (Err e, pe)
           | (Ok rest, pe) \<Rightarrow> (Ok ((name, r) # rest), pe)))"

definition read_register_values :: "('j, 'e) tapasco_job \<Rightarrow> regs \<Rightarrow> 'j \<Rightarrow> (regs, 'e config_error) result \<times> 'j" where
  "read_register_values J regs pe = read_values J (of_nat (length regs)) 0 regs pe"

text \<open>\<^verbatim>\<open>iter().position(...)\<close>.\<close>

fun position :: "('a \<Rightarrow> bool) \<Rightarrow> 'a list \<Rightarrow> nat option" where
  "position p [] = None"
| "position p (x # xs) = (if p x then Some 0 else map_option Suc (position p xs))"

definition write_register ::
    "('j, 'e) tapasco_job \<Rightarrow> regs \<Rightarrow> bytes \<Rightarrow> u64 \<Rightarrow> 'j \<Rightarrow> (unit, 'e config_error) result \<times> 'j" where
  "write_register J regs name value pe =
     (case position (\<lambda>(n, _). n = name) regs of
        None \<Rightarrow> (Err (RegNotFound name), pe)
      | Some idx \<Rightarrow>
          (case job_start J [1, 1 + of_nat (length regs) + of_nat idx, value] pe of
             (Err e, pe) \<Rightarrow> (Err (JobError e), pe)
           | (Ok _, pe) \<Rightarrow>
               (case job_release J False False pe of
                  (Err e, pe) \<Rightarrow> (Err (JobError e), pe)
                | (Ok _, pe) \<Rightarrow> (Ok (), pe))))"

fun get_register_value :: "regs \<Rightarrow> bytes \<Rightarrow> (u64, 'e config_error) result" where
  "get_register_value [] name = Err (RegNotFound name)"
| "get_register_value ((n, value) # regs) name = (if n = name then Ok value else get_register_value regs name)"

section \<open>Reading all registers\<close>

fun get_names ::
    "('j, 'e) tapasco_job \<Rightarrow> nat \<Rightarrow> nat \<Rightarrow> 'j \<Rightarrow> ((regs, 'e config_error) result \<times> 'j) outcome" where
  "get_names J r 0 pe = Returns (Ok [], pe)"
| "get_names J r (Suc n) pe =
     (case read_register J (1 + of_nat r) pe of
        (Err e, pe) \<Rightarrow> Returns (Err e, pe)
      | (Ok v, pe) \<Rightarrow>
          if utf8_ok (u64_to_be_bytes v) then
            and_then (get_names J (Suc r) n pe) (\<lambda>(x, pe).
              case x of
                Err e \<Rightarrow> Returns (Err e, pe)
              | Ok rest \<Rightarrow> Returns (Ok ((u64_to_be_bytes v, 0) # rest), pe))
          else Panics NotUtf8)"

definition get_regs :: "('j, 'e) tapasco_job \<Rightarrow> 'j \<Rightarrow> ((regs, 'e config_error) result \<times> 'j) outcome" where
  "get_regs J pe =
     (case read_register J 0 pe of
        (Err e, pe) \<Rightarrow> Returns (Err e, pe)
      | (Ok num_regs, pe) \<Rightarrow>
          and_then (get_names J 0 (unat num_regs) pe) (\<lambda>(x, pe).
            case x of
              Err e \<Rightarrow> Returns (Err e, pe)
            | Ok regs \<Rightarrow> Returns (read_register_values J regs pe)))"

section \<open>Commands\<close>

text \<open>\<^verbatim>\<open>print_con\<close>: the registers that are printed.\<close>

definition active_connections :: "regs \<Rightarrow> regs" where
  "active_connections regs =
     filter (\<lambda>(k, v). take 7 k = ascii_bytes ''RECV ST'' \<and> v \<noteq> 1) regs"

text \<open>\<^verbatim>\<open>reset_con\<close>: one write for every register of that name.\<close>

fun reset_loop ::
    "('j, 'e) tapasco_job \<Rightarrow> regs \<Rightarrow> usize \<Rightarrow> regs \<Rightarrow> 'j \<Rightarrow> (unit, 'e config_error) result \<times> 'j" where
  "reset_loop J regs con [] pe = (Ok (), pe)"
| "reset_loop J regs con (_ # ks) pe =
     (case write_register J regs (ascii_bytes ''RECV RST'') (push_bit 31 1 OR con) pe of
        (Err e, pe) \<Rightarrow> (Err e, pe)
      | (Ok _, pe) \<Rightarrow> reset_loop J regs con ks pe)"

definition reset_con ::
    "('j, 'e) tapasco_job \<Rightarrow> usize \<Rightarrow> 'j \<Rightarrow> ((unit, 'e config_error) result \<times> 'j) outcome" where
  "reset_con J con pe =
     and_then (get_regs J pe) (\<lambda>(x, pe).
       case x of
         Err e \<Rightarrow> Returns (Err e, pe)
       | Ok regs \<Rightarrow>
           Returns (reset_loop J regs con
             (filter (\<lambda>(k, _). k = ascii_bytes (''RECV ST'' @ decimal (unat con))) regs) pe))"

text \<open>\<^verbatim>\<open>set_mac\<close>, with the result of \<^verbatim>\<open>MacAddr::from_str\<close>, which is looked at once the registers are read.\<close>

definition mac_u64 :: "MacAddr \<Rightarrow> u64" where
  "mac_u64 m = (case m of MacAddr a b c d e f \<Rightarrow> u64_from_be_bytes ([0, 0] @ [a, b, c, d, e, f]))"

definition set_mac ::
    "('j, 'e) tapasco_job \<Rightarrow> (MacAddr, 'e) result \<Rightarrow> 'j \<Rightarrow> ((unit, 'e config_error) result \<times> 'j) outcome" where
  "set_mac J parsed pe =
     and_then (get_regs J pe) (\<lambda>(x, pe).
       case x of
         Err e \<Rightarrow> Returns (Err e, pe)
       | Ok regs \<Rightarrow>
           (case parsed of
              Err e \<Rightarrow> Returns (Err (MacError e), pe)
            | Ok mac \<Rightarrow> Returns (write_register J regs (ascii_bytes ''ENDP MAC'') (mac_u64 mac) pe)))"

text \<open>\<^verbatim>\<open>enable_jumbo\<close>: the memories of the four controllers, where they exist; the first one with the
  expected id gets bit 30 of its two configuration words set. The result lists the statistics read after that.\<close>

fun find_sfp :: "(nat \<Rightarrow> u32) option list \<Rightarrow> nat \<Rightarrow> nat option" where
  "find_sfp [] i = None"
| "find_sfp (None # ms) i = find_sfp ms (Suc i)"
| "find_sfp (Some m # ms) i = (if drop_bit 16 (m 0x4F8) = 0x0F01 then Some i else find_sfp ms (Suc i))"

definition jumbo_memory :: "(nat \<Rightarrow> u32) \<Rightarrow> nat \<Rightarrow> u32" where
  "jumbo_memory m =
     (let m = m(0x404 := m 0x404 OR push_bit 30 1) in m(0x408 := m 0x408 OR push_bit 30 1))"

definition enable_jumbo ::
    "(nat \<Rightarrow> u32) option list \<Rightarrow> (nat \<times> u32) list \<times> (nat \<Rightarrow> u32) option list" where
  "enable_jumbo ms =
     (case find_sfp (take 4 ms) 0 of
        None \<Rightarrow> ([], ms)
      | Some i \<Rightarrow>
          (case ms ! i of
             None \<Rightarrow> ([], ms)
           | Some m \<Rightarrow>
               let m = jumbo_memory m
               in (map (\<lambda>k. (0x200 + 4 * k, m (0x200 + 4 * k))) [0..<67], ms[i := Some m])))"

section \<open>The register file\<close>

lemma position_Some: "position p xs = Some i \<Longrightarrow> i < length xs \<and> p (xs ! i)"
  by (induction xs arbitrary: i) (auto split: if_splits)

text \<open>
  What the endpoint promises: register 0 holds the number \<open>n\<close> of registers, the next \<open>n\<close> hold their names, the
  next \<open>n\<close> their values, and a write to the place of a value changes that value and nothing else.
  \<open>rf\<close> is the content, and all names are valid UTF-8.
\<close>

locale register_file =
  fixes J :: "('j, 'e) tapasco_job"
    and rf :: "'j \<Rightarrow> (u64 \<times> u64) list"
    and valid :: "'j \<Rightarrow> bool"
  assumes small: "valid pe \<Longrightarrow> 2 * length (rf pe) + 1 < 2 ^ 64"
    and names: "valid pe \<Longrightarrow> (n, v) \<in> set (rf pe) \<Longrightarrow> utf8_ok (u64_to_be_bytes n)"
    and read_job: "valid pe \<Longrightarrow> \<exists>pe1 pe2. job_start J [0, reg] pe = (Ok (), pe1) \<and>
      job_release J False True pe1 =
        (Ok (let k = unat reg; n = length (rf pe) in
             if k = 0 then of_nat n
             else if k \<le> n then fst (rf pe ! (k - 1))
             else if k \<le> 2 * n then snd (rf pe ! (k - 1 - n)) else 0), pe2) \<and>
      rf pe2 = rf pe \<and> valid pe2"
    and write_job: "valid pe \<Longrightarrow> i < length (rf pe) \<Longrightarrow> \<exists>pe1 pe2 r.
      job_start J [1, 1 + of_nat (length (rf pe)) + of_nat i, v] pe = (Ok (), pe1) \<and>
      job_release J False False pe1 = (Ok r, pe2) \<and>
      rf pe2 = (rf pe)[i := (fst (rf pe ! i), v)] \<and> valid pe2"
begin

definition shown :: "'j \<Rightarrow> regs" where
  "shown pe = map (\<lambda>(n, v). (u64_to_be_bytes n, v)) (rf pe)"

lemma read_any:
  assumes "valid pe"
  obtains pe' where "read_register J reg pe = (Ok (let k = unat reg; n = length (rf pe) in
      if k = 0 then of_nat n else if k \<le> n then fst (rf pe ! (k - 1))
      else if k \<le> 2 * n then snd (rf pe ! (k - 1 - n)) else 0), pe')" "rf pe' = rf pe" "valid pe'"
  using read_job [OF assms, of reg] by (force simp: read_register_def)

lemma unat_reg: "valid pe \<Longrightarrow> k \<le> 2 * length (rf pe) \<Longrightarrow> unat (of_nat k :: u64) = k"
  using small [of pe] by (simp add: unat_of_nat)

lemma read_name:
  assumes "valid pe" "r < length (rf pe)"
  obtains pe' where "read_register J (1 + of_nat r) pe = (Ok (fst (rf pe ! r)), pe')" "rf pe' = rf pe" "valid pe'"
proof -
  have "unat (1 + of_nat r :: u64) = Suc r" using unat_reg [OF assms(1), of "Suc r"] assms by simp
  with read_any [OF assms(1), of "1 + of_nat r"] assms that show thesis by (force simp: Let_def)
qed

lemma read_value:
  assumes "valid pe" "i < length (rf pe)"
  obtains pe' where "read_register J (1 + of_nat (length (rf pe)) + of_nat i) pe = (Ok (snd (rf pe ! i)), pe')"
    "rf pe' = rf pe" "valid pe'"
proof -
  have "unat (1 + of_nat (length (rf pe)) + of_nat i :: u64) = Suc (length (rf pe) + i)"
    using unat_reg [OF assms(1), of "Suc (length (rf pe) + i)"] assms by (simp add: add.assoc)
  with read_any [OF assms(1), of "1 + of_nat (length (rf pe)) + of_nat i"] assms that show thesis by (force simp: Let_def)
qed

lemma get_names_spec:
  assumes "valid pe" "r + n = length (rf pe)"
  shows "\<exists>pe'. get_names J r n pe = Returns (Ok (map (\<lambda>(m, _). (u64_to_be_bytes m, 0)) (drop r (rf pe))), pe') \<and>
    rf pe' = rf pe \<and> valid pe'"
  using assms
proof (induction n arbitrary: r pe)
  case (Suc n)
  then have lt: "r < length (rf pe)" by simp
  then obtain pe1 where pe1: "read_register J (1 + of_nat r) pe = (Ok (fst (rf pe ! r)), pe1)" "rf pe1 = rf pe" "valid pe1"
    by (rule read_name [OF Suc.prems(1)])
  have ok: "utf8_ok (u64_to_be_bytes (fst (rf pe ! r)))"
    using names [OF Suc.prems(1), of "fst (rf pe ! r)" "snd (rf pe ! r)"] lt by simp
  from Suc.IH [OF pe1(3), of "Suc r"] Suc.prems(2) pe1(2) obtain pe2 where
    "get_names J (Suc r) n pe1 = Returns (Ok (map (\<lambda>(m, _). (u64_to_be_bytes m, 0)) (drop (Suc r) (rf pe))), pe2)"
    "rf pe2 = rf pe" "valid pe2" by auto
  moreover have "drop r (rf pe) = rf pe ! r # drop (Suc r) (rf pe)" using lt by (simp add: Cons_nth_drop_Suc)
  ultimately show ?case using pe1 ok by (simp add: case_prod_beta)
qed simp

lemma read_values_spec:
  assumes "valid pe" "i + length rs = length (rf pe)"
    and "map fst rs = map (\<lambda>(m, _). u64_to_be_bytes m) (drop i (rf pe))"
  shows "\<exists>pe'. read_values J (of_nat (length (rf pe))) i rs pe = (Ok (drop i (shown pe)), pe') \<and> rf pe' = rf pe \<and> valid pe'"
  using assms
proof (induction rs arbitrary: i pe)
  case (Cons x rs)
  obtain name old where x: "x = (name, old)" by (cases x)
  have lt: "i < length (rf pe)" using Cons.prems(2) by simp
  then obtain pe1 where pe1: "read_register J (1 + of_nat (length (rf pe)) + of_nat i) pe = (Ok (snd (rf pe ! i)), pe1)"
    "rf pe1 = rf pe" "valid pe1" by (rule read_value [OF Cons.prems(1)])
  have d: "drop i (rf pe) = rf pe ! i # drop (Suc i) (rf pe)" using lt by (simp add: Cons_nth_drop_Suc)
  have n: "name = u64_to_be_bytes (fst (rf pe ! i))" "map fst rs = map (\<lambda>(m, _). u64_to_be_bytes m) (drop (Suc i) (rf pe))"
    using Cons.prems(3) x by (simp_all add: d case_prod_beta)
  from Cons.IH [OF pe1(3), of "Suc i"] Cons.prems(2) n(2) pe1(2) obtain pe2 where
    "read_values J (of_nat (length (rf pe))) (Suc i) rs pe1 = (Ok (drop (Suc i) (shown pe1)), pe2)" "rf pe2 = rf pe" "valid pe2"
    by auto
  moreover have "drop i (shown pe) = (name, snd (rf pe ! i)) # drop (Suc i) (shown pe1)"
    using pe1(2) n(1) by (simp add: shown_def drop_map d case_prod_beta)
  ultimately show ?case using x pe1 by simp
qed (simp add: shown_def)

lemma get_regs_shows:
  assumes "valid pe"
  shows "\<exists>pe'. get_regs J pe = Returns (Ok (shown pe), pe') \<and> rf pe' = rf pe \<and> valid pe'"
proof -
  obtain pe1 where pe1: "read_register J 0 pe = (Ok (of_nat (length (rf pe))), pe1)" "rf pe1 = rf pe" "valid pe1"
    using read_any [OF assms, of 0] by (auto simp: Let_def)
  have u: "unat (of_nat (length (rf pe)) :: u64) = length (rf pe)" by (rule unat_reg [OF assms]) simp
  from get_names_spec [OF pe1(3), of 0 "length (rf pe)"] pe1(2) obtain pe2 where pe2:
    "get_names J 0 (length (rf pe)) pe1 = Returns (Ok (map (\<lambda>(m, _). (u64_to_be_bytes m, 0)) (rf pe)), pe2)"
    "rf pe2 = rf pe" "valid pe2" by auto
  from read_values_spec [OF pe2(3), of 0 "map (\<lambda>(m, _). (u64_to_be_bytes m, 0)) (rf pe)"] pe2(2)
  show ?thesis
    using pe1 pe2 u by (auto simp: get_regs_def read_register_values_def shown_def case_prod_beta comp_def)
qed

lemma write_register_changes:
  assumes "valid pe" "position (\<lambda>(n, _). n = name) (shown pe) = Some i"
  shows "\<exists>pe'. write_register J (shown pe) name v pe = (Ok (), pe') \<and> shown pe' = (shown pe)[i := (name, v)] \<and> valid pe'"
proof -
  have i: "i < length (shown pe) \<and> fst (shown pe ! i) = name"
    using position_Some [OF assms(2)] by (simp add: case_prod_beta)
  then have "i < length (rf pe)" by (simp add: shown_def)
  from write_job [OF assms(1) this, of v] assms(2) i show ?thesis
    by (auto simp: write_register_def shown_def map_update case_prod_beta)
qed

end

text \<open>A register file in memory, with the parameters of the job that was started.\<close>

type_synonym std_pe = "(u64 \<times> u64) list \<times> u64 list"

fun std_release :: "std_pe \<Rightarrow> (u64, unit) result \<times> std_pe" where
  "std_release (regs, [op, reg]) =
     (let k = unat reg; n = length regs in
      (Ok (if k = 0 then of_nat n
           else if k \<le> n then fst (regs ! (k - 1))
           else if k \<le> 2 * n then snd (regs ! (k - 1 - n)) else 0), (regs, [])))"
| "std_release (regs, [op, reg, v]) =
     (let i = unat reg - 1 - length regs in (Ok 0, (regs[i := (fst (regs ! i), v)], [])))"
| "std_release (regs, _) = (Ok 0, (regs, []))"

definition std_job :: "(std_pe, unit) tapasco_job" where
  "std_job = \<lparr>job_start = (\<lambda>ps (regs, _). (Ok (), (regs, ps))), job_release = (\<lambda>_ _ pe. std_release pe)\<rparr>"

definition std_valid :: "std_pe \<Rightarrow> bool" where
  "std_valid pe \<longleftrightarrow> 2 * length (fst pe) + 1 < 2 ^ 64 \<and> (\<forall>(n, v) \<in> set (fst pe). utf8_ok (u64_to_be_bytes n))"

lemma std_write_index:
  assumes "std_valid (regs, ps)" "i < length regs"
  shows "unat (1 + of_nat (length regs) + of_nat i :: u64) - 1 - length regs = i"
proof -
  have "1 + of_nat (length regs) + of_nat i = (of_nat (Suc (length regs + i)) :: u64)" by (simp add: add.assoc)
  moreover have "Suc (length regs + i) < 2 ^ 64" using assms by (simp add: std_valid_def)
  ultimately show ?thesis by (simp add: unat_of_nat del: of_nat_Suc of_nat_add)
qed

interpretation sr: register_file std_job fst std_valid
proof
  fix pe :: std_pe and n v
  assume ok: "std_valid pe"
  show "2 * length (fst pe) + 1 < 2 ^ 64" using ok by (simp add: std_valid_def)
  show "utf8_ok (u64_to_be_bytes n)" if "(n, v) \<in> set (fst pe)" using ok that by (auto simp: std_valid_def)
next
  fix pe :: std_pe and i v
  assume ok: "std_valid pe" and i: "i < length (fst pe)"
  obtain regs ps where pe: "pe = (regs, ps)" by (cases pe)
  have "std_valid (regs[i := (fst (regs ! i), v)], [])"
    unfolding std_valid_def
  proof (intro conjI ballI, goal_cases)
    case 1
    show ?case using ok pe by (simp add: std_valid_def)
  next
    case (2 x)
    then have "x = (fst (regs ! i), v) \<or> x \<in> set regs"
      using set_update_subset_insert by fastforce
    moreover have "regs ! i \<in> set regs" using i pe by simp
    ultimately show ?case using ok pe by (auto simp: std_valid_def)
  qed
  then show "\<exists>pe1 pe2 r. job_start std_job [1, 1 + of_nat (length (fst pe)) + of_nat i, v] pe = (Ok (), pe1) \<and>
      job_release std_job False False pe1 = (Ok r, pe2) \<and>
      fst pe2 = (fst pe)[i := (fst (fst pe ! i), v)] \<and> std_valid pe2"
    using std_write_index [of regs ps i] ok i pe by (simp add: std_job_def)
qed (auto simp: std_job_def std_valid_def Let_def)

section \<open>Properties\<close>

text \<open>
  A register that was written reads back. For every register file that keeps its contract, \<^verbatim>\<open>get_regs\<close>
  returns exactly its names and values, \<^verbatim>\<open>write_register\<close> of a name that is among them succeeds, and reading all registers again
  shows the new value at the first register of that name and all others unchanged.
\<close>

lemma registers_read_back:
  assumes "register_file J rf valid" and "valid pe"
    and "position (\<lambda>(n, _). n = name) (map (\<lambda>(n, v). (u64_to_be_bytes n, v)) (rf pe)) = Some i"
  shows "\<exists>regs pe1 pe2 pe3. regs = map (\<lambda>(n, v). (u64_to_be_bytes n, v)) (rf pe) \<and>
    get_regs J pe = Returns (Ok regs, pe1) \<and> write_register J regs name v pe1 = (Ok (), pe2) \<and>
    get_regs J pe2 = Returns (Ok (regs[i := (name, v)]), pe3)"
proof -
  note shown = register_file.shown_def [OF assms(1)]
  let ?regs = "map (\<lambda>(n, v). (u64_to_be_bytes n, v)) (rf pe)"
  from register_file.get_regs_shows [OF assms(1,2)] obtain pe1 where pe1: "get_regs J pe = Returns (Ok ?regs, pe1)"
    "rf pe1 = rf pe" "valid pe1" by (auto simp: shown)
  from register_file.write_register_changes [OF assms(1) pe1(3), of name i v] assms(3) obtain pe2 where
    pe2: "write_register J ?regs name v pe1 = (Ok (), pe2)"
      "map (\<lambda>(n, v). (u64_to_be_bytes n, v)) (rf pe2) = ?regs[i := (name, v)]" "valid pe2"
    by (auto simp: shown pe1(2))
  from register_file.get_regs_shows [OF assms(1) pe2(3)] pe1(1) pe2 show ?thesis by (auto simp: shown)
qed

text \<open>Registers with the names \<open>ENDP MAC\<close> and \<open>ENDPRSSZ\<close>.\<close>

definition sample_pe :: std_pe where
  "sample_pe = ([(u64_from_be_bytes (ascii_bytes ''ENDP MAC''), 0), (u64_from_be_bytes (ascii_bytes ''ENDPRSSZ''), 7)], [])"

lemma sample_pe_valid:
  "std_valid sample_pe"
  "map (\<lambda>(n, v). (u64_to_be_bytes n, v)) (fst sample_pe) = [(ascii_bytes ''ENDP MAC'', 0), (ascii_bytes ''ENDPRSSZ'', 7)]"
proof -
  have a: "utf8_ok (ascii_bytes ''ENDP MAC'')" "utf8_ok (ascii_bytes ''ENDPRSSZ'')" by code_simp+
  have l: "length (ascii_bytes ''ENDP MAC'') = 8" "length (ascii_bytes ''ENDPRSSZ'') = 8" by (simp_all add: ascii_bytes_def)
  show "std_valid sample_pe"
    "map (\<lambda>(n, v). (u64_to_be_bytes n, v)) (fst sample_pe) = [(ascii_bytes ''ENDP MAC'', 0), (ascii_bytes ''ENDPRSSZ'', 7)]"
    using a l by (simp_all add: std_valid_def sample_pe_def to_from_be_bytes)
qed

lemma registers_read_back_witness:
  "\<exists>pe1 pe2 pe3. get_regs std_job sample_pe = Returns (Ok [(ascii_bytes ''ENDP MAC'', 0), (ascii_bytes ''ENDPRSSZ'', 7)], pe1) \<and>
    write_register std_job [(ascii_bytes ''ENDP MAC'', 0), (ascii_bytes ''ENDPRSSZ'', 7)] (ascii_bytes ''ENDP MAC'') 9 pe1 = (Ok (), pe2) \<and>
    get_regs std_job pe2 = Returns (Ok [(ascii_bytes ''ENDP MAC'', 9), (ascii_bytes ''ENDPRSSZ'', 7)], pe3)"
  using registers_read_back [OF sr.register_file_axioms sample_pe_valid(1), of "ascii_bytes ''ENDP MAC''" 0 9]
  unfolding sample_pe_valid(2) by simp

text \<open>\<^verbatim>\<open>enable_jumbo\<close> changes nothing but bit 30 of the two configuration words.\<close>

lemma jumbo_memory_bits:
  "bit (jumbo_memory m k) b \<longleftrightarrow> bit (m k) b \<or> (k \<in> {0x404, 0x408} \<and> b = 30)"
proof -
  have "bit (push_bit 30 1 :: u32) b \<longleftrightarrow> b = 30" by (simp only: push_bit_of_1 bit_exp_iff) auto
  moreover obtain x where x: "push_bit 30 1 = (x :: u32)" by simp
  ultimately have "bit x b \<longleftrightarrow> b = 30" by (simp only: x)
  then show ?thesis unfolding jumbo_memory_def Let_def x by (auto simp: bit_or_iff)
qed

end
