(* ===== verification/Config_Tool.thy ===== *)
theory Config_Tool
  imports Config
begin

text \<open>
  The commands of \<^verbatim>\<open>config/src/main.rs\<close> as they are run: the device is opened, its processing element acquired, the
  command of \<open>Config\<close> performed on it and the result printed. The device is a parameter, as the job is. A text is
  the list of its bytes; the log and the progress lines of \<^verbatim>\<open>reset_con\<close> and \<^verbatim>\<open>set_mac\<close> are left out.
\<close>

section \<open>The device\<close>

text \<open>A platform component's memory is a function from offsets to words; storing it stands for the volatile writes.\<close>

record ('d, 'j, 'e) tapasco_device =
  dev_change_access :: "'d \<Rightarrow> (unit, 'e) result \<times> 'd"
  dev_get_pe_id :: "string \<Rightarrow> 'd \<Rightarrow> (nat, 'e) result"
  dev_acquire_pe :: "nat \<Rightarrow> 'd \<Rightarrow> ('j, 'e) result \<times> 'd"
  dev_component :: "string \<Rightarrow> 'd \<Rightarrow> (nat \<Rightarrow> u32, 'e) result"
  dev_store :: "string \<Rightarrow> (nat \<Rightarrow> u32) \<Rightarrow> 'd \<Rightarrow> 'd"

text \<open>A command ends with a result, the device, and the processing element if it acquired one.\<close>

type_synonym ('a, 'd, 'j, 'e) command = "(('a, 'e config_error) result \<times> 'd \<times> 'j option) outcome"

definition with_pe ::
    "('d, 'j, 'e) tapasco_device \<Rightarrow> string \<Rightarrow> 'd \<Rightarrow> ('j \<Rightarrow> (('a, 'e config_error) result \<times> 'j) outcome) \<Rightarrow>
     ('a, 'd, 'j, 'e) command" where
  "with_pe D pe_name d k =
     (case dev_get_pe_id D pe_name d of
        Err _ \<Rightarrow> Panics UnwrapOnErr
      | Ok pe_id \<Rightarrow>
          (case dev_acquire_pe D pe_id d of
             (Err e, d) \<Rightarrow> Returns (Err (DeviceInit e), d, None)
           | (Ok pe, d) \<Rightarrow> and_then (k pe) (\<lambda>(x, pe). Returns (x, d, Some pe))))"

section \<open>Printing\<close>

text \<open>\<^verbatim>\<open>print_vec\<close>: \<open>n\<close> counts the entries, \<open>r\<close> is the row so far.\<close>

fun print_rows :: "nat \<Rightarrow> 'a list \<Rightarrow> ('a \<times> 'a) list \<Rightarrow> 'a list list" where
  "print_rows n r [] = (if r = [] then [] else [r])"
| "print_rows n r ((a, b) # v) =
     (let r = r @ [a, b] in
      if n \<noteq> 0 \<and> n mod 5 = 0 then r # print_rows (Suc n) [] v else print_rows (Suc n) r v)"

definition print_vec :: "('a \<times> 'a) list \<Rightarrow> 'a list list" where
  "print_vec v = print_rows 0 [] v"

datatype printed = Table "bytes list list" | ConnectionLine bytes u64

definition print_regs :: "('j, 'e) tapasco_job \<Rightarrow> 'j \<Rightarrow> ((printed list, 'e config_error) result \<times> 'j) outcome" where
  "print_regs J pe =
     and_then (get_regs J pe) (\<lambda>(x, pe).
       case x of
         Err e \<Rightarrow> Returns (Err e, pe)
       | Ok regs \<Rightarrow> Returns (Ok [Table (print_vec (map (\<lambda>(k, v). (k, ascii_bytes (decimal (unat v)))) regs))], pe))"

definition print_con :: "('j, 'e) tapasco_job \<Rightarrow> 'j \<Rightarrow> ((printed list, 'e config_error) result \<times> 'j) outcome" where
  "print_con J pe =
     and_then (get_regs J pe) (\<lambda>(x, pe).
       case x of
         Err e \<Rightarrow> Returns (Err e, pe)
       | Ok regs \<Rightarrow> Returns (Ok (map (\<lambda>(k, v). ConnectionLine k v) (active_connections regs)), pe))"

definition hex_digit_char :: "nat \<Rightarrow> char" where
  "hex_digit_char d = char_of (if d < 10 then 48 + d else 87 + d)"

fun hexadecimal :: "nat \<Rightarrow> string" where
  "hexadecimal n =
     (if n < 16 then [hex_digit_char n] else hexadecimal (n div 16) @ [hex_digit_char (n mod 16)])"

declare hexadecimal.simps [simp del]

definition sfp_name :: "nat \<Rightarrow> string" where
  "sfp_name i = ''PLATFORM_COMPONENT_SFP_NETWORK_CONTROLLER_'' @ decimal i"

text \<open>\<^verbatim>\<open>enable_jumbo\<close> on the device: a component that cannot be mapped is passed over.\<close>

definition sfp_memories :: "('d, 'j, 'e) tapasco_device \<Rightarrow> 'd \<Rightarrow> (nat \<Rightarrow> u32) option list" where
  "sfp_memories D d =
     map (\<lambda>i. case dev_component D (sfp_name i) d of Ok m \<Rightarrow> Some m | Err _ \<Rightarrow> None) [0..<4]"

definition store_sfp ::
    "('d, 'j, 'e) tapasco_device \<Rightarrow> (nat \<Rightarrow> u32) option list \<Rightarrow> (nat \<Rightarrow> u32) option list \<Rightarrow> 'd \<Rightarrow> 'd" where
  "store_sfp D before after d =
     (case find_sfp before 0 of
        None \<Rightarrow> d
      | Some i \<Rightarrow> (case after ! i of Some m \<Rightarrow> dev_store D (sfp_name i) m d | None \<Rightarrow> d))"

definition enable_jumbo_device :: "('d, 'j, 'e) tapasco_device \<Rightarrow> 'd \<Rightarrow> (printed list, 'd, 'j, 'e) command" where
  "enable_jumbo_device D d =
     (let ms = sfp_memories D d; (sfp_stats, ms') = enable_jumbo ms in
      Returns (Ok [Table (print_vec (map (\<lambda>(offset, val).
          (ascii_bytes (''0x'' @ hexadecimal offset), ascii_bytes (decimal (unat val)))) sfp_stats))],
        store_sfp D ms ms' d, None))"

section \<open>Running a command\<close>

datatype config_op = PrintRegs | EnableJumbo | SetMac string | PrintActiveCon | ResetCon usize

record config_opts =
  opt_op :: config_op
  opt_pe_name :: string

definition silent :: "((unit, 'e) result \<times> 'j) outcome \<Rightarrow> ((printed list, 'e) result \<times> 'j) outcome" where
  "silent r = and_then r (\<lambda>(x, pe). Returns (case x of Ok _ \<Rightarrow> Ok [] | Err e \<Rightarrow> Err e, pe))"

definition run_op ::
    "('d, 'j, 'e) tapasco_device \<Rightarrow> ('j, 'e) tapasco_job \<Rightarrow> (string \<Rightarrow> (MacAddr, 'e) result) \<Rightarrow>
     config_opts \<Rightarrow> 'd \<Rightarrow> (printed list, 'd, 'j, 'e) command" where
  "run_op D J from_str opts d =
     (case opt_op opts of
        PrintRegs \<Rightarrow> with_pe D (opt_pe_name opts) d (print_regs J)
      | EnableJumbo \<Rightarrow> enable_jumbo_device D d
      | SetMac m \<Rightarrow> with_pe D (opt_pe_name opts) d (\<lambda>pe. silent (set_mac J (from_str m) pe))
      | PrintActiveCon \<Rightarrow> with_pe D (opt_pe_name opts) d (print_con J)
      | ResetCon con \<Rightarrow> with_pe D (opt_pe_name opts) d (\<lambda>pe. silent (reset_con J con pe)))"

text \<open>\<open>tlkm\<close> and \<open>devices\<close> are what \<^verbatim>\<open>TLKM::new\<close> and \<^verbatim>\<open>device_enum\<close> return; the last device is used. The
  result is \<open>None\<close> for the device when none was opened.\<close>

definition config_run ::
    "(unit, 'e) result \<Rightarrow> ('d list, 'e) result \<Rightarrow> ('d, 'j, 'e) tapasco_device \<Rightarrow> ('j, 'e) tapasco_job \<Rightarrow>
     (string \<Rightarrow> (MacAddr, 'e) result) \<Rightarrow> config_opts \<Rightarrow> (printed list, 'd option, 'j, 'e) command" where
  "config_run tlkm devices D J from_str opts =
     (case tlkm of
        Err e \<Rightarrow> Returns (Err (TLKMInit e), None, None)
      | Ok _ \<Rightarrow>
          (case devices of
             Err e \<Rightarrow> Returns (Err (TLKMInit e), None, None)
           | Ok ds \<Rightarrow>
               if ds = [] then Panics UnwrapOnNone
               else
                 (case dev_change_access D (last ds) of
                    (Err e, d) \<Rightarrow> Returns (Err (DeviceInit e), Some d, None)
                  | (Ok _, d) \<Rightarrow>
                      and_then (run_op D J from_str opts d) (\<lambda>(x, d, pe). Returns (x, Some d, pe)))))"

section \<open>Tables\<close>

text \<open>The table holds every cell, in order, and rows of five entries; only the first row takes six.\<close>

lemma concat_print_rows: "concat (print_rows n r v) = r @ concat (map (\<lambda>(a, b). [a, b]) v)"
  by (induction n r v rule: print_rows.induct) (simp_all add: Let_def)

lemma print_vec_complete: "concat (print_vec v) = concat (map (\<lambda>(a, b). [a, b]) v)"
  by (simp add: print_vec_def concat_print_rows)

lemma print_rows_width:
  assumes "0 < n" "length r = 2 * ((n - 1) mod 5)" "row \<in> set (print_rows n r v)"
  shows "length row \<le> 10"
  using assms
proof (induction n r v rule: print_rows.induct)
  case (1 n r)
  then have "row = r" by (simp split: if_splits)
  with 1 show ?case by simp
next
  case (2 n r a b v)
  show ?case
  proof (cases "n mod 5 = 0")
    case True
    then have "length r \<le> 8" using 2(4) by simp
    moreover have "length row \<le> 10" if "row \<in> set (print_rows (Suc n) [] v)"
      using "2.IH"(1) [OF refl] True 2(3) that by simp
    ultimately show ?thesis using True 2(3,5) by auto
  next
    case False
    obtain m where m: "n = Suc m" using 2(3) by (cases n) auto
    with False have "Suc m mod 5 = Suc (m mod 5)" by (simp add: mod_Suc split: if_splits)
    then have "length (r @ [a, b]) = 2 * ((Suc n - 1) mod 5)" using 2(4) m by simp
    moreover have "row \<in> set (print_rows (Suc n) (r @ [a, b]) v)" using False 2(5) by simp
    ultimately show ?thesis using False by (intro "2.IH"(2) [OF refl]) simp_all
  qed
qed

lemma print_vec_6:
  "print_vec ((a0, b0) # (a1, b1) # (a2, b2) # (a3, b3) # (a4, b4) # (a5, b5) # v) =
     [a0, b0, a1, b1, a2, b2, a3, b3, a4, b4, a5, b5] # print_rows 6 [] v"
proof -
  have "Suc (Suc (Suc (Suc (Suc (Suc 0))))) = 6" by simp
  then show ?thesis by (simp add: print_vec_def flip: One_nat_def)
qed

lemma print_vec_width: "row \<in> set (print_rows 6 [] v) \<Longrightarrow> length row \<le> 10"
  by (rule print_rows_width [of 6 "[]"]) simp_all

section \<open>What the commands do to the registers\<close>

context register_file
begin

text \<open>The new address reads back, and nothing else changes.\<close>

lemma set_mac_sets:
  assumes "valid pe" "position (\<lambda>(n, _). n = ascii_bytes ''ENDP MAC'') (shown pe) = Some i"
  shows "\<exists>pe'. set_mac J (Ok mac) pe = Returns (Ok (), pe') \<and>
    shown pe' = (shown pe)[i := (ascii_bytes ''ENDP MAC'', mac_u64 mac)] \<and> valid pe'"
proof -
  from get_regs_shows [OF assms(1)] obtain pe1 where
    pe1: "get_regs J pe = Returns (Ok (shown pe), pe1)" "rf pe1 = rf pe" "valid pe1" by blast
  then have s: "shown pe1 = shown pe" by (simp add: shown_def)
  from write_register_changes [OF pe1(3), of "ascii_bytes ''ENDP MAC''" i "mac_u64 mac"] assms(2) pe1(1) s
  show ?thesis by (auto simp: set_mac_def)
qed

text \<open>A malformed address is reported after the registers were read, and nothing is written.\<close>

lemma set_mac_malformed:
  assumes "valid pe"
  shows "\<exists>pe'. set_mac J (Err e) pe = Returns (Err (MacError e), pe') \<and> shown pe' = shown pe \<and> valid pe'"
  using get_regs_shows [OF assms] by (auto simp: set_mac_def shown_def)

text \<open>Names have eight bytes, so a connection with a number of two digits has no register: the command succeeds and does nothing.\<close>

lemma no_register_10:
  assumes "10 \<le> (con :: usize)"
  shows "filter (\<lambda>(k, _). k = ascii_bytes (''RECV ST'' @ decimal (unat con))) (shown pe) = []"
proof -
  have "8 < length (ascii_bytes (''RECV ST'' @ decimal (unat con)))"
    using length_decimal [of "unat con"] assms by (simp add: ascii_bytes_def word_le_nat_alt)
  moreover have "length k = 8" if "(k, v) \<in> set (shown pe)" for k v using that by (auto simp: shown_def)
  ultimately show ?thesis by (fastforce simp: filter_empty_conv)
qed

lemma reset_con_10:
  assumes "valid pe" "10 \<le> con"
  shows "\<exists>pe'. reset_con J con pe = Returns (Ok (), pe') \<and> shown pe' = shown pe \<and> valid pe'"
  using get_regs_shows [OF assms(1)] no_register_10 [OF assms(2)] by (auto simp: reset_con_def shown_def)

end

text \<open>Opening the device: without a device or without the processing element the tool panics, a failing library call is
  an error, and no command but \<^verbatim>\<open>EnableJumbo\<close> is performed without the processing element.\<close>

lemma config_run_open:
  "config_run (Err e) ds D J from_str opts = Returns (Err (TLKMInit e), None, None)"
  "config_run (Ok u) (Err e) D J from_str opts = Returns (Err (TLKMInit e), None, None)"
  "config_run (Ok u) (Ok []) D J from_str opts = Panics UnwrapOnNone"
  "opt_op opts \<noteq> EnableJumbo \<Longrightarrow> dev_get_pe_id D (opt_pe_name opts) d = Err e \<Longrightarrow> run_op D J from_str opts d = Panics UnwrapOnErr"
  by (simp_all add: config_run_def run_op_def with_pe_def split: config_op.split)

end
