(* ===== verification/Bitload_Memory.thy ===== *)
theory Bitload_Memory
  imports Bitload
begin

text \<open>
  What the chunks of \<^verbatim>\<open>bitload\<close> do to a memory that sees only the encoded messages: it decodes
  header and address, takes the data of a full write from behind the address, and of a partial
  write the bytes whose mask bit is set. A file is read back byte by byte, with the exception
  that the inverted mask of the last group of a partial write makes.
\<close>

section \<open>A memory that decodes messages\<close>

text \<open>The byte that a message puts at address \<open>x\<close>: PutFullData has opcode 0, PutPartialData opcode 1.\<close>

definition message_byte :: "bytes \<Rightarrow> u64 \<Rightarrow> u8 option" where
  "message_byte buf x =
     (case abcd_from_u64 (u64_from_be_bytes (take 8 buf)) of
        Returns h \<Rightarrow>
          let i = unat (x - u64_from_be_bytes (take 8 (drop 8 buf))) in
          if abcd_chan h = Chan_A \<and> i < 2 ^ unat (abcd_size h) then
            if abcd_opcode h = 0 then Some (buf ! (16 + i))
            else if abcd_opcode h = 1 \<and> bit (partial_mask_at buf (i div 64)) (i mod 64)
            then Some (buf ! (24 + 72 * (i div 64) + i mod 64)) else None
          else None
      | _ \<Rightarrow> None)"

definition mem_serve :: "(u64 \<Rightarrow> u8) \<Rightarrow> bytes \<Rightarrow> u64 \<Rightarrow> u8" where
  "mem_serve m buf = (\<lambda>x. case message_byte buf x of None \<Rightarrow> m x | Some v \<Rightarrow> v)"

text \<open>The data of the answer to a Get, which has opcode 4.\<close>

definition message_answer :: "(u64 \<Rightarrow> u8) \<Rightarrow> bytes \<Rightarrow> bytes" where
  "message_answer m buf =
     (case abcd_from_u64 (u64_from_be_bytes (take 8 buf)) of
        Returns h \<Rightarrow>
          if abcd_chan h = Chan_A \<and> abcd_opcode h = 4
          then map (\<lambda>i. m (u64_from_be_bytes (take 8 (drop 8 buf)) + of_nat i)) [0..<2 ^ unat (abcd_size h)]
          else []
      | _ \<Rightarrow> [])"

text \<open>What a call of \<^verbatim>\<open>perform\<close> for a read returns when its message is answered so.\<close>

definition mem_answer :: "(u64 \<Rightarrow> u8) \<Rightarrow> u32 \<Rightarrow> TLOperations \<Rightarrow> (TLResult, op_error) result" where
  "mem_answer m source oper =
     (case pack_operation \<lparr>os_operation = oper, os_source = source\<rparr> of
        Returns (Ok buf) \<Rightarrow> Ok (ResData (message_answer m buf))
      | Returns (Err e) \<Rightarrow> Err e
      | _ \<Rightarrow> Ok ResNone)"

definition encodes :: "TLOperations \<Rightarrow> bytes \<Rightarrow> bool" where
  "encodes oper buf \<longleftrightarrow>
     (\<exists>source < 67108864. pack_operation \<lparr>os_operation = oper, os_source = source\<rparr> = Returns (Ok buf))"

text \<open>Messages that agree where they overlap may be served in any order.\<close>

lemma serve_agree:
  assumes "\<And>buf v. buf \<in> set bufs \<Longrightarrow> message_byte buf x = Some v \<Longrightarrow> v = T"
  shows "foldl mem_serve m bufs x = (if \<exists>buf \<in> set bufs. message_byte buf x \<noteq> None then T else m x)"
  using assms
proof (induction bufs rule: rev_induct)
  case (snoc buf bufs)
  have IH: "foldl mem_serve m bufs x = (if \<exists>buf \<in> set bufs. message_byte buf x \<noteq> None then T else m x)"
    using snoc.prems by (intro snoc.IH) auto
  show ?case
  proof (cases "message_byte buf x")
    case None
    then have "mem_serve M buf x = M x" for M by (simp add: mem_serve_def)
    with IH None show ?thesis by simp
  next
    case (Some v)
    then have "mem_serve M buf x = v" for M by (simp add: mem_serve_def)
    with Some snoc.prems [of buf v] show ?thesis by simp
  qed
qed simp

section \<open>The message of a chunk\<close>

lemma is_power_of_two_eq: "is_power_of_two = log2_fract_zero"
  by (simp add: fun_eq_iff is_power_of_two_def log2_fract_zero_def)

lemma pow2_header_size: "n \<le> 2 ^ 15 \<Longrightarrow> log2_fract_zero n \<Longrightarrow> 2 ^ unat (log2_as_u8 n) = n"
  by (simp add: log2_as_u8_small(1) log2_fract_zero_def)

lemma message_byte_full:
  assumes "encodes (WriteLen r) buf" "length (writelen_data r) \<le> 2 ^ 15"
  shows "message_byte buf x =
    (let i = unat (x - writelen_address r) in
     if i < length (writelen_data r) then Some (writelen_data r ! i) else None)"
proof -
  obtain source where s: "source < 67108864"
    "pack_operation \<lparr>os_operation = WriteLen r, os_source = source\<rparr> = Returns (Ok buf)"
    using assms(1) by (auto simp: encodes_def)
  then have fits: "tl_fits (WriteLen r) source" using assms(2) by (simp add: tl_fits_def)
  note d = pack_operation_abcd [OF s(2) _ fits, simplified]
  have data: "drop 16 buf = writelen_data r" using d(3) by simp
  have byte: "buf ! (16 + i) = writelen_data r ! i" if "i < length (writelen_data r)" for i
  proof -
    have "i < length buf - 16" using that by (simp flip: data)
    then show ?thesis by (simp flip: data)
  qed
  have "2 ^ unat (abcd_size (tl_header (WriteLen r) source)) = length (writelen_data r)"
    using d(4) by simp
  with d(1,2) byte show ?thesis by (simp add: message_byte_def Let_def) (simp add: tl_header_def)
qed

lemma message_byte_partial:
  assumes "encodes (WritePartial r) buf" "length (partial_data r) \<le> 1024" "5 \<le> length (partial_data r)"
  shows "message_byte buf x = Some v \<Longrightarrow> unat (x - partial_address r) < 1024"
    and "unat (x - partial_address r) = i \<Longrightarrow> i < length (partial_data r) \<Longrightarrow> message_byte buf x =
      (if i < 64 * (length (partial_data r) div 64) then Some (partial_data r ! i) else None)"
proof -
  let ?n = "length (partial_data r)"
  obtain source where s: "source < 67108864"
    "pack_operation \<lparr>os_operation = WritePartial r, os_source = source\<rparr> = Returns (Ok buf)"
    using assms(1) by (auto simp: encodes_def)
  then have p: "pack_write_partial r source = Returns (Ok buf)" by (simp add: pack_operation_def)
  have np: "next_power_of_two ?n \<le> 2 ^ 10" using assms(2) by (intro next_power_of_two_least) simp
  then have fits: "tl_fits (WritePartial r) source" using s(1) by (simp add: tl_fits_def)
  have size: "2 ^ unat (log2_as_u8 (next_power_of_two ?n)) = next_power_of_two ?n"
    using np next_power_of_two_is_pow2 [of ?n] by (intro pow2_header_size) (simp_all add: log2_fract_zero_iff)
  note d = pack_operation_abcd(1,2) [OF s(2) _ fits, simplified]
  have m: "message_byte buf x = (let i = unat (x - partial_address r) in
      if i < next_power_of_two ?n \<and> bit (partial_mask_at buf (i div 64)) (i mod 64)
      then Some (buf ! (24 + 72 * (i div 64) + i mod 64)) else None)" for x
    using d size by (simp add: message_byte_def Let_def tl_header_def)
  show "unat (x - partial_address r) < 1024" if "message_byte buf x = Some v"
    using that np by (auto simp: m Let_def split: if_splits)
  assume i: "unat (x - partial_address r) = i" "i < ?n"
  have g: "64 * (i div 64) < ?n" using i(2) by (metis le_less_trans times_div_less_eq_dividend)
  have "bit (partial_mask_at buf (i div 64)) (i mod 64) \<longleftrightarrow>
      64 * (i div 64 + 1) \<le> ?n \<or> ?n \<le> 64 * (i div 64) + i mod 64"
    by (rule partial_mask_bit [OF p assms(3) g]) simp
  also have "\<dots> \<longleftrightarrow> 64 * (i div 64 + 1) \<le> ?n" using i(2) by simp
  also have "\<dots> \<longleftrightarrow> i div 64 < ?n div 64" by (simp add: less_eq_div_iff_mult_less_eq mult.commute flip: Suc_le_eq)
  also have "\<dots> \<longleftrightarrow> i < 64 * (?n div 64)" by (simp add: div_less_iff_less_mult mult.commute)
  finally have "bit (partial_mask_at buf (i div 64)) (i mod 64) \<longleftrightarrow> i < 64 * (?n div 64)" .
  moreover have "i < next_power_of_two ?n" using i(2) next_power_of_two_ge [of ?n] by linarith
  ultimately show "message_byte buf x = (if i < 64 * (?n div 64) then Some (partial_data r ! i) else None)"
    using pack_write_partial_data [OF p i(2)] i(1) by (simp add: m Let_def)
qed

text \<open>The bytes of a chunk of \<open>n\<close> bytes that its message carries to the memory.\<close>

definition carried :: "nat \<Rightarrow> nat \<Rightarrow> bool" where
  "carried n i \<longleftrightarrow> is_power_of_two n \<or> i < 64 * (n div 64)"

lemma chunk_message:
  assumes "encodes (write_op base 1024 idx c) buf" "length c \<le> 1024" "5 \<le> length c"
  shows "message_byte buf x = Some v \<Longrightarrow> unat (x - chunk_address base 1024 idx) < 1024"
    and "unat (x - chunk_address base 1024 idx) = i \<Longrightarrow> i < length c \<Longrightarrow>
      message_byte buf x = (if carried (length c) i then Some (c ! i) else None)"
proof -
  let ?a = "chunk_address base 1024 idx"
  show "unat (x - ?a) < 1024" if "message_byte buf x = Some v"
  proof (cases "is_power_of_two (length c)")
    case True
    with assms(1) have "encodes (WriteLen \<lparr>writelen_address = ?a, writelen_data = c\<rparr>) buf"
      by (simp add: write_op_def)
    from message_byte_full [OF this, of x] assms(2) that show ?thesis
      by (auto simp: Let_def split: if_splits)
  next
    case False
    with assms(1) have "encodes (WritePartial \<lparr>partial_address = ?a, partial_data = c\<rparr>) buf"
      by (simp add: write_op_def)
    from message_byte_partial(1) [OF this] assms(2,3) that show ?thesis by simp
  qed
  assume i: "unat (x - ?a) = i" "i < length c"
  show "message_byte buf x = (if carried (length c) i then Some (c ! i) else None)"
  proof (cases "is_power_of_two (length c)")
    case True
    with assms(1) have "encodes (WriteLen \<lparr>writelen_address = ?a, writelen_data = c\<rparr>) buf"
      by (simp add: write_op_def)
    from message_byte_full [OF this, of x] assms(2) i True show ?thesis
      by (auto simp: Let_def carried_def)
  next
    case False
    with assms(1) have "encodes (WritePartial \<lparr>partial_address = ?a, partial_data = c\<rparr>) buf"
      by (simp add: write_op_def)
    from message_byte_partial(2) [OF this] assms(2,3) i False show ?thesis by (simp add: carried_def)
  qed
qed

lemma chunk_packs:
  assumes "5 \<le> length c"
  shows "\<exists>buf. pack_operation \<lparr>os_operation = write_op base n idx c, os_source = source\<rparr> = Returns (Ok buf)"
proof (cases "is_power_of_two (length c)")
  case True
  with pack_operation_layout [of "write_op base n idx c" source] show ?thesis
    by (simp add: write_op_def is_power_of_two_eq)
next
  case False
  with assms pack_write_partial_layout [of "\<lparr>partial_address = chunk_address base n idx, partial_data = c\<rparr>" source]
  show ?thesis by (simp add: write_op_def pack_operation_def)
qed

section \<open>A file\<close>

text \<open>The bytes of a file of \<open>n\<close> bytes that do not reach the memory: those of the last, incomplete group of 64
  of a last chunk whose length is not a power of two.\<close>

definition lost :: "nat \<Rightarrow> nat \<Rightarrow> bool" where
  "lost n i \<longleftrightarrow> \<not> is_power_of_two (n mod 1024) \<and> 64 * (n div 64) \<le> i"

lemma chunk_of_file:
  assumes "1024 * idx < length file" "length file mod 1024 \<notin> {1, 2, 3, 4}"
  shows "5 \<le> length (take 1024 (drop (1024 * idx) file))"
    and "j < length (take 1024 (drop (1024 * idx) file)) \<Longrightarrow>
      carried (length (take 1024 (drop (1024 * idx) file))) j \<longleftrightarrow> \<not> lost (length file) (1024 * idx + j)"
proof -
  let ?n = "length file" and ?c = "take 1024 (drop (1024 * idx) file)"
  have n: "?n = 1024 * (?n div 1024) + ?n mod 1024" by simp
  have 64: "64 * (?n div 64) = 1024 * (?n div 1024) + 64 * (?n mod 1024 div 64)"
  proof -
    have "?n div 1024 = ?n div 64 div 16" using div_mult2_eq [of ?n 64 16] by simp
    moreover have "?n mod 1024 div 64 = ?n div 64 mod 16" using mod_mult2_eq [of ?n 64 16] by simp
    moreover have "?n div 64 = 16 * (?n div 64 div 16) + ?n div 64 mod 16" by simp
    ultimately show ?thesis by linarith
  qed
  have p: "is_power_of_two 1024"
    unfolding is_power_of_two_eq log2_fract_zero_iff by (rule exI [of _ 10]) simp
  show "5 \<le> length ?c"
  proof (cases "1024 * (idx + 1) \<le> ?n")
    case False
    then have "length ?c = ?n - 1024 * idx" "?n div 1024 = idx" using assms(1) by (auto intro!: div_nat_eqI)
    then have "length ?c = ?n mod 1024" using n by linarith
    moreover have "0 < length ?c" using assms(1) by simp
    ultimately show ?thesis using assms(2) by auto
  qed simp
  assume j: "j < length ?c"
  show "carried (length ?c) j \<longleftrightarrow> \<not> lost ?n (1024 * idx + j)"
  proof (cases "1024 * (idx + 1) \<le> ?n")
    case True
    then have "idx + 1 \<le> ?n div 1024" by (simp add: less_eq_div_iff_mult_less_eq mult.commute)
    then have "1024 * idx + 1024 \<le> 64 * (?n div 64)" unfolding 64 by linarith
    moreover have "j < 1024" "length ?c = 1024" using j True by simp_all
    ultimately show ?thesis using p by (simp add: carried_def lost_def)
  next
    case False
    then have c: "length ?c = ?n - 1024 * idx" "?n div 1024 = idx" using assms(1) by (auto intro!: div_nat_eqI)
    then have "length ?c = ?n mod 1024" using n by linarith
    then show ?thesis by (simp only: carried_def lost_def 64 c(2)) auto
  qed
qed

lemma list_all2_partner:
  "list_all2 Q xs ys \<Longrightarrow> y \<in> set ys \<Longrightarrow> \<exists>x \<in> set xs. Q x y"
  "list_all2 Q xs ys \<Longrightarrow> x \<in> set xs \<Longrightarrow> \<exists>y \<in> set ys. Q x y"
  by (induction rule: list_all2_induct) auto

lemma served_chunk:
  assumes small: "length file + 1024 \<le> 2 ^ 64" and tail: "length file mod 1024 \<notin> {1, 2, 3, 4}" and i: "i < length file"
    and enc: "encodes (write_op base 1024 idx (take 1024 (drop (1024 * idx) file))) buf" "1024 * idx < length file"
  shows "message_byte buf (base + of_nat i) =
    (if idx = i div 1024 \<and> \<not> lost (length file) i then Some (file ! i) else None)"
proof -
  let ?x = "base + of_nat i" and ?a = "chunk_address base 1024 idx" and ?c = "take 1024 (drop (1024 * idx) file)"
  have c: "length ?c \<le> 1024" "5 \<le> length ?c" using chunk_of_file(1) [OF enc(2) tail] by simp_all
  show ?thesis
  proof (cases "idx = i div 1024")
    case True
    let ?j = "i mod 1024"
    have ij: "i = 1024 * idx + ?j" using True by simp
    then have "(of_nat i :: u64) = of_nat (1024 * idx) + of_nat ?j" by (metis of_nat_add)
    then have "?x - ?a = of_nat ?j" by (simp add: chunk_address_def)
    moreover have "?j < 1024" by simp
    ultimately have o: "unat (?x - ?a) = ?j" by (simp add: unat_of_nat)
    have j: "?j < length ?c" using i ij by simp
    have "?c ! ?j = file ! i" using j enc(2) ij by simp
    with chunk_message(2) [OF enc(1) c o j] chunk_of_file(2) [OF enc(2) tail j] ij True show ?thesis by simp
  next
    case False
    have "message_byte buf ?x = None"
    proof (rule ccontr)
      assume "message_byte buf ?x \<noteq> None"
      then have j: "unat (?x - ?a) < 1024" using chunk_message(1) [OF enc(1) c] by blast
      have "unat (?x - base) = 1024 * idx + unat (?x - ?a)"
        by (rule unat_chunk_offset) (use j enc(2) small in \<open>simp_all add: chunk_address_def\<close>)
      moreover have "unat (?x - base) = i" using i small by (simp add: unat_of_nat)
      ultimately have "i div 1024 = idx" using j by (auto intro!: div_nat_eqI)
      with False show False by simp
    qed
    with False show ?thesis by simp
  qed
qed

lemma write_ops_iff:
  "oper \<in> set (do_parallel_write (\<lambda>_. False) base 1024 file) \<longleftrightarrow>
     (\<exists>idx. 1024 * idx < length file \<and> oper = write_op base 1024 idx (take 1024 (drop (1024 * idx) file)))"
proof -
  have "idx < length (par_chunks 1024 file) \<longleftrightarrow> 1024 * idx < length file" for idx
    by (simp add: par_chunks_map less_eq_div_iff_mult_less_eq flip: Suc_le_eq) linarith
  then show ?thesis using do_parallel_write_set [of 1024 oper base "file"] by (auto simp: write_chunk_def)
qed

lemma served_file:
  assumes small: "length file + 1024 \<le> 2 ^ 64" and tail: "length file mod 1024 \<notin> {1, 2, 3, 4}"
    and ops: "set ops = set (do_parallel_write (\<lambda>_. False) base 1024 file)"
    and enc: "list_all2 encodes ops bufs" and i: "i < length file"
  shows "foldl mem_serve m bufs (base + of_nat i) =
    (if lost (length file) i then m (base + of_nat i) else file ! i)"
proof -
  let ?x = "base + of_nat i" and ?c = "\<lambda>idx. take 1024 (drop (1024 * idx) file)"
  note chunk = served_chunk [OF small tail i]
  have each: "message_byte buf ?x = None \<or> \<not> lost (length file) i \<and> message_byte buf ?x = Some (file ! i)"
    if b: "buf \<in> set bufs" for buf
  proof -
    obtain oper where "oper \<in> set ops" "encodes oper buf" using list_all2_partner(1) [OF enc b] by blast
    then obtain idx where "1024 * idx < length file" "encodes (write_op base 1024 idx (?c idx)) buf"
      by (auto simp: ops write_ops_iff)
    then show ?thesis using chunk [of base idx buf] by simp
  qed
  let ?k = "i div 1024"
  have k: "1024 * ?k < length file" using i by (metis le_less_trans times_div_less_eq_dividend)
  then have "write_op base 1024 ?k (?c ?k) \<in> set ops" unfolding ops write_ops_iff by blast
  from list_all2_partner(2) [OF enc this]
  have "\<exists>buf \<in> set bufs. message_byte buf ?x = (if lost (length file) i then None else Some (file ! i))"
    using chunk [OF _ k, of base] by (elim bexE) (rule bexI, simp_all)
  moreover have "foldl mem_serve m bufs ?x = (if \<exists>buf \<in> set bufs. message_byte buf ?x \<noteq> None then file ! i else m ?x)"
    by (rule serve_agree) (use each in force)
  ultimately show ?thesis using each by (cases "lost (length file) i") force+
qed

text \<open>A read of a chunk gives 1024 bytes of the memory.\<close>

lemma mem_answer_read:
  assumes "source < 67108864"
  shows "mem_answer m source (read_op base 1024 idx) =
    Ok (ResData (map (\<lambda>i. m (chunk_address base 1024 idx + of_nat i)) [0..<1024]))"
proof -
  let ?op = "read_op base 1024 idx"
  have k: "floor_log2 1024 = 10" using floor_log2_pow2 [of 10] by simp
  have fits: "tl_fits ?op source" using assms by (simp add: tl_fits_def read_op_def)
  obtain buf where b: "pack_operation \<lparr>os_operation = ?op, os_source = source\<rparr> = Returns (Ok buf)"
    using pack_operation_layout [of ?op source] by (simp add: read_op_def)
  note d = pack_operation_abcd(1,2) [OF b _ fits]
  have "tl_header ?op source = \<lparr>abcd_chan = Chan_A, abcd_opcode = 4, abcd_param = 0, abcd_size = 10,
      abcd_domain = 0, abcd_err = 0, abcd_source = source\<rparr>"
    by (simp add: tl_header_def read_op_def log2_as_u8_def k)
  then show ?thesis using d b by (simp add: mem_answer_def message_answer_def read_op_def)
qed

lemma read_chunk_back:
  assumes M: "\<And>i. i < n \<Longrightarrow> M (base + of_nat i) = xs ! i" and n: "length xs = n"
    and src: "source < 67108864" and idx: "idx < length (par_chunks 1024 xs)" and v: "length v = length (par_chunks 1024 xs ! idx)"
  shows "read_chunk (mem_answer M source) base 1024 False idx v = Returns (par_chunks 1024 xs ! idx)"
proof -
  let ?d = "map (\<lambda>i. M (chunk_address base 1024 idx + of_nat i)) [0..<1024]"
  have c: "par_chunks 1024 xs ! idx = take 1024 (drop (1024 * idx) xs)" using nth_par_chunks(1) [OF _ idx] by simp
  have "take (length v) ?d = par_chunks 1024 xs ! idx"
  proof (rule nth_equalityI)
    fix i assume "i < length (take (length v) ?d)"
    then have i: "i < length v" "i < 1024" by simp_all
    then have lt: "1024 * idx + i < n" using v n by (simp add: c)
    have "M (base + of_nat (1024 * idx + i)) = xs ! (1024 * idx + i)" using lt by (rule M)
    with i lt n show "take (length v) ?d ! i = par_chunks 1024 xs ! idx ! i"
      by (simp add: c chunk_address_def add.assoc)
  qed (use v c in simp)
  moreover have "length v \<le> 1024" using v c by simp
  ultimately show ?thesis using v mem_answer_read [OF src, of M base idx] by (simp add: read_chunk_def slice_range_def copy_into_def)
qed

text \<open>
  C21. What is read back of a file that was written, at the level of the encoded messages. Let the file have \<open>n\<close> bytes,
  where \<open>n\<close> is not 1, 2, 3 or 4 modulo 1024 (a last chunk of three bytes cannot be encoded, one of 1, 2 or 4 bytes is no
  whole number of flits). Then every operation of \<^verbatim>\<open>do_parallel_write\<close> is encoded; and when a memory has carried out the
  messages in any order, as their headers, addresses, masks and data say, \<^verbatim>\<open>do_parallel_read\<close> of \<open>n\<close> bytes gives the
  file, except that where the last chunk is not a power of two, its last \<open>n mod 64\<close> bytes are what the memory held before.
\<close>

theorem bitload_round_trip:
  assumes "length file + 1024 \<le> 2 ^ 64" and "length file mod 1024 \<notin> {1, 2, 3, 4}" and "source < 67108864"
    and "mset ops = mset (do_parallel_write (\<lambda>_. False) base_addr 1024 file)" and "list_all2 encodes ops bufs"
  shows "(\<forall>oper \<in> set ops. \<forall>s. \<exists>buf. pack_operation \<lparr>os_operation = oper, os_source = s\<rparr> = Returns (Ok buf)) \<and>
    do_parallel_read (mem_answer (foldl mem_serve m bufs) source) (\<lambda>_. False) (length file) 1024 base_addr =
      Returns (map (\<lambda>i. if lost (length file) i then m (base_addr + of_nat i) else file ! i) [0..<length file])"
proof -
  let ?M = "foldl mem_serve m bufs" and ?n = "length file"
  let ?xs = "map (\<lambda>i. if lost ?n i then m (base_addr + of_nat i) else file ! i) [0..<?n]"
  let ?vs = "par_chunks 1024 (replicate ?n 0xFF :: bytes)"
  have ops: "set ops = set (do_parallel_write (\<lambda>_. False) base_addr 1024 file)" using assms(4) by (rule mset_eq_setD)
  have len: "length ?vs = length (par_chunks 1024 ?xs)" by (simp add: par_chunks_map)
  have M: "?M (base_addr + of_nat i) = ?xs ! i" if "i < ?n" for i
    using served_file [OF assms(1,2) ops assms(5) that] that by simp
  have "read_chunk (mem_answer ?M source) base_addr 1024 False idx (?vs ! idx) = Returns (par_chunks 1024 ?xs ! idx)"
    if "idx < length ?vs" for idx
  proof (rule read_chunk_back [OF M])
    show "length (?vs ! idx) = length (par_chunks 1024 ?xs ! idx)"
      using that len nth_par_chunks(1) [of 1024 idx "replicate ?n 0xFF :: bytes"] nth_par_chunks(1) [of 1024 idx ?xs] by simp
  qed (use that len assms(3) in simp_all)
  then have "read_chunks (mem_answer ?M source) (\<lambda>_. False) base_addr 1024 0 ?vs = Returns (concat (par_chunks 1024 ?xs))"
    using len by (intro read_chunks_concat) simp_all
  moreover have "\<exists>buf. pack_operation \<lparr>os_operation = oper, os_source = s\<rparr> = Returns (Ok buf)" if o: "oper \<in> set ops" for oper s
  proof -
    obtain idx where "1024 * idx < length file" "oper = write_op base_addr 1024 idx (take 1024 (drop (1024 * idx) file))"
      using o by (auto simp: ops write_ops_iff)
    with chunk_packs [OF chunk_of_file(1) [OF _ assms(2)]] show ?thesis by blast
  qed
  ultimately show ?thesis by (simp add: do_parallel_read_def concat_par_chunks)
qed

text \<open>A file of eight bytes, which is read back, and one of five, of which nothing reaches the memory.\<close>

lemma small_write:
  assumes "length file \<le> 1024" "file \<noteq> []"
  shows "do_parallel_write (\<lambda>_. False) base 1024 file = [write_op base 1024 0 file]"
  using assms by (subst do_parallel_write_def, subst par_chunks.simps) (simp add: par_chunks.simps write_chunk_def map_filter_def)

theorem bitload_round_trip_witness:
  "(\<exists>buf. encodes (write_op 64 1024 0 [1, 2, 3, 4, 5, 6, 7, 8]) buf \<and>
     do_parallel_read (mem_answer (mem_serve (\<lambda>_. 0) buf) 3) (\<lambda>_. False) 8 1024 64 = Returns [1, 2, 3, 4, 5, 6, 7, 8]) \<and>
   (\<exists>buf. encodes (write_op 64 1024 0 [1, 2, 3, 4, 5]) buf \<and>
     do_parallel_read (mem_answer (mem_serve (\<lambda>_. 9) buf) 3) (\<lambda>_. False) 5 1024 64 = Returns [9, 9, 9, 9, 9])"
proof -
  have l: "\<not> lost 8 i" "lost 5 i" for i
    by (simp_all add: lost_def is_power_of_two_def floor_log2.simps)
  let ?a = "[1, 2, 3, 4, 5, 6, 7, 8] :: bytes" and ?b = "[1, 2, 3, 4, 5] :: bytes"
  have e: "\<exists>buf. encodes (write_op 64 1024 0 c) buf" if "5 \<le> length c" for c
    using chunk_packs [OF that, of 64 1024 0 3] unfolding encodes_def by (auto intro!: exI [of _ 3])
  obtain a where a: "encodes (write_op 64 1024 0 ?a) a" using e [of ?a] by auto
  obtain b where b: "encodes (write_op 64 1024 0 ?b) b" using e [of ?b] by auto
  have n: "length ?a = 8" "length ?b = 5" by simp_all
  have "do_parallel_read (mem_answer (foldl mem_serve (\<lambda>_. 0) [a]) 3) (\<lambda>_. False) (length ?a) 1024 64 =
      Returns (map (\<lambda>i. if lost (length ?a) i then 0 else ?a ! i) [0..<length ?a])"
    by (rule bitload_round_trip [of ?a 3 "[write_op 64 1024 0 ?a]", THEN conjunct2]) (use a in \<open>simp_all add: small_write\<close>)
  then have "do_parallel_read (mem_answer (mem_serve (\<lambda>_. 0) a) 3) (\<lambda>_. False) 8 1024 64 = Returns ?a"
    unfolding n by (simp add: l upt_rec)
  moreover have "do_parallel_read (mem_answer (foldl mem_serve (\<lambda>_. 9) [b]) 3) (\<lambda>_. False) (length ?b) 1024 64 =
      Returns (map (\<lambda>i. if lost (length ?b) i then 9 else ?b ! i) [0..<length ?b])"
    by (rule bitload_round_trip [of ?b 3 "[write_op 64 1024 0 ?b]", THEN conjunct2]) (use b in \<open>simp_all add: small_write\<close>)
  then have "do_parallel_read (mem_answer (mem_serve (\<lambda>_. 9) b) 3) (\<lambda>_. False) 5 1024 64 = Returns [9, 9, 9, 9, 9]"
    unfolding n by (simp add: l upt_rec)
  ultimately show ?thesis using a b by blast
qed

end
