(* ===== verification/Bitload_Run.thy ===== *)
theory Bitload_Run
  imports Bitload Network Endpoint_Inv
begin

text \<open>
  \<^verbatim>\<open>run\<close> and \<^verbatim>\<open>execution_thread\<close> of \<^verbatim>\<open>bitload/src/main.rs\<close>: the start of the tool and its four threads on one connection. A
  step is one iteration of a thread handler, one poll of an operation that waits, or Ctrl-C; steps interleave in any
  order, and so do the closures of the parallel iterators. A thread may panic; the others go on until \<^verbatim>\<open>run\<close> joins it. The file system, the interfaces of the machine and the
  parser of MAC addresses are arguments. What is transferred and when the tool ends is in \<open>Bitload_Transfer\<close> and
  \<open>Bitload_Compat\<close>.
\<close>

section \<open>Start\<close>

text \<open>\<^verbatim>\<open>enum Error\<close>; the sources of library errors are left out.\<close>

datatype bitload_error =
    BlIOError
  | BlInterfaceNotFound ustring
  | BlInvalidFileError
  | BlCouldNotMMAPError
  | BlCTRLCError
  | BlUnhandledChannelType
  | BlInvalidMac
  | BlThreadError
  | BlLockPoisoned
  | BlEthernetPacketError

record Opts =
  opt_interface :: ustring
  opt_my_mac :: ustring
  opt_other_mac :: ustring
  opt_base_address :: u64
  opt_ox10_mode :: bool
  opt_is_read :: bool
  opt_size :: u64

datatype chunk_phase = Chunk_new | Chunk_wait perform_phase | Chunk_done

datatype action_phase =
    Act_connecting
  | Act_transfer "(bytes \<times> chunk_phase) list"
  | Act_closing close_phase
  | Act_done

datatype ld_thread = Action_thread | Tick_thread | Tx_thread | Rx_thread

text \<open>The state that the threads share, and which of them have ended or panicked. \<open>sent\<close> are the packets handed to the
  socket, whose result is ignored. \<open>started\<close> and \<open>answered\<close> keep which operations have been started and what
  they returned; \<open>written\<close> is the file that a read creates.\<close>

record 'm Loader =
  ld_connection :: "'m Connection"
  ld_cache :: Cache
  ld_operations :: Operations
  ld_tick :: Tick
  ctrl_c_pressed :: bool
  action :: action_phase
  sent :: "bytes list"
  written :: "bytes option"
  tx_ended :: bool
  tick_ended :: bool
  rx_ended :: bool
  panics :: "ld_thread set"
  started :: "TLOperations list"
  answered :: "(TLOperations \<times> (TLResult, op_error) result) list"

definition setup_connection :: "(channel, unit) result \<Rightarrow> (unit, bitload_error) result" where
  "setup_connection opened =
     (case opened of
        Ok Ethernet \<Rightarrow> Ok ()
      | Ok OtherChannel \<Rightarrow> Err BlUnhandledChannelType
      | Err _ \<Rightarrow> Err BlIOError)"

definition setup_ctrlc :: "bool \<Rightarrow> (bool, bitload_error) result" where
  "setup_ctrlc handler_set = (if handler_set then Ok False else Err BlCTRLCError)"

text \<open>\<^verbatim>\<open>run\<close> up to the start of the threads.\<close>

definition bitload_run ::
    "'m modular \<Rightarrow> instant \<Rightarrow> interface list \<Rightarrow> (interface \<Rightarrow> (channel, unit) result) \<Rightarrow> (ustring \<Rightarrow> MacAddr option) \<Rightarrow>
     bool \<Rightarrow> Opts \<Rightarrow> ('m Loader, bitload_error) result" where
  "bitload_run L now interfaces open_channel mac_from_str0 handler_set opts =
     (case find (\<lambda>iface. ifc_name iface = opt_interface opts) interfaces of
        None \<Rightarrow> Err (BlInterfaceNotFound (opt_interface opts))
      | Some iface \<Rightarrow>
          (case setup_connection (open_channel iface) of
             Err e \<Rightarrow> Err e
           | Ok _ \<Rightarrow>
               (case (mac_from_str0 (opt_my_mac opts), mac_from_str0 (opt_other_mac opts)) of
                  (Some mine, Some other) \<Rightarrow>
                    (case setup_ctrlc handler_set of
                       Err e \<Rightarrow> Err e
                     | Ok pressed \<Rightarrow>
                         let (c, ca, ops) = create_ox_handling L now (opt_ox10_mode opts) mine other in
                         Ok \<lparr>ld_connection = c, ld_cache = ca, ld_operations = ops, ld_tick = bitload_tick now,
                             ctrl_c_pressed = pressed, action = Act_connecting, sent = [], written = None,
                             tx_ended = False, tick_ended = False, rx_ended = False, panics = {}, started = [], answered = []\<rparr>)
                | _ \<Rightarrow> Err BlInvalidMac)))"

section \<open>The execution thread\<close>

definition chunk_size :: nat where
  "chunk_size = 1024"

definition chunk_op :: "Opts \<Rightarrow> nat \<Rightarrow> bytes \<Rightarrow> TLOperations" where
  "chunk_op opts idx d =
     (if opt_is_read opts then read_op (opt_base_address opts) chunk_size idx
      else write_op (opt_base_address opts) chunk_size idx d)"

text \<open>What is cut into chunks: the mapped file, or a buffer for the bytes to be read. Opening the file may fail, and
  the error is unwrapped.\<close>

definition transfer_data :: "(bytes, unit) result \<Rightarrow> Opts \<Rightarrow> bytes outcome" where
  "transfer_data mmap opts =
     (if opt_is_read opts then Returns (replicate (unat (opt_size opts)) 0xFF)
      else (case mmap of Ok d \<Rightarrow> Returns d | Err _ \<Rightarrow> Panics UnwrapOnErr))"

definition start_action :: "(bytes, unit) result \<Rightarrow> Opts \<Rightarrow> 'm Loader \<Rightarrow> 'm Loader outcome" where
  "start_action mmap opts t =
     (if connection_state (ld_connection t) \<noteq> Active \<and> \<not> ctrl_c_pressed t then Returns t
      else if ctrl_c_pressed t then Returns (t\<lparr>action := Act_done\<rparr>)
      else and_then (transfer_data mmap opts) (\<lambda>d.
        Returns (t\<lparr>action := Act_transfer (map (\<lambda>c. (c, Chunk_new)) (par_chunks chunk_size d))\<rparr>)))"

text \<open>A step of the closure for chunk \<open>i\<close>.\<close>

definition poll_chunk ::
    "Opts \<Rightarrow> nat \<Rightarrow> bytes \<Rightarrow> (bytes \<times> chunk_phase) list \<Rightarrow> perform_phase \<Rightarrow> 'm Loader \<Rightarrow> 'm Loader outcome" where
  "poll_chunk opts i d chunks ph t =
     and_then (perform ph (ld_operations t) (credits_send (ld_connection t))) (\<lambda>(x, ops, cr).
       let t = t\<lparr>ld_operations := ops, ld_connection := (ld_connection t)\<lparr>credits_send := cr\<rparr>\<rparr> in
       case x of
         Inl ph \<Rightarrow> Returns (t\<lparr>action := Act_transfer (chunks[i := (d, Chunk_wait ph)])\<rparr>)
       | Inr r \<Rightarrow>
           and_then (if opt_is_read opts then store_response d r else Returns d) (\<lambda>d'.
             Returns (t\<lparr>action := Act_transfer (chunks[i := (d', Chunk_done)]),
               answered := answered t @ [(chunk_op opts i d, r)]\<rparr>)))"

definition chunk_step ::
    "Opts \<Rightarrow> nat \<Rightarrow> (bytes \<times> chunk_phase) list \<Rightarrow> 'm Loader \<Rightarrow> 'm Loader outcome" where
  "chunk_step opts i chunks t =
     (case chunks ! i of
        (d, Chunk_new) \<Rightarrow>
          if ctrl_c_pressed t then Returns (t\<lparr>action := Act_transfer (chunks[i := (d, Chunk_done)])\<rparr>)
          else
            let oper = chunk_op opts i d in
            poll_chunk opts i d chunks (Get_source oper)
              (t\<lparr>ld_operations := perform_enter (ld_operations t), started := started t @ [oper]\<rparr>)
      | (d, Chunk_wait ph) \<Rightarrow> poll_chunk opts i d chunks ph t
      | (d, Chunk_done) \<Rightarrow> Returns t)"

text \<open>After the iterator the buffer of a read is written to the file, whose creation may fail, and the
  connection is closed; whether it could be closed in time is only logged.\<close>

definition finish_transfer :: "bool \<Rightarrow> Opts \<Rightarrow> (bytes \<times> chunk_phase) list \<Rightarrow> 'm Loader \<Rightarrow> 'm Loader outcome" where
  "finish_transfer created opts chunks t =
     (if opt_is_read opts then
        if created then Returns (t\<lparr>written := Some (concat (map fst chunks)), action := Act_closing Close_start\<rparr>)
        else Panics UnwrapOnErr
      else Returns (t\<lparr>action := Act_closing Close_start\<rparr>))"

definition close_step :: "'m modular \<Rightarrow> instant \<Rightarrow> close_phase \<Rightarrow> 'm Loader \<Rightarrow> 'm Loader" where
  "close_step L now ph t =
     (let (x, c) = close_connection L (Some 500000000) now ph (ld_connection t) in
      t\<lparr>ld_connection := c, action := (case x of Inl ph \<Rightarrow> Act_closing ph | Inr _ \<Rightarrow> Act_done)\<rparr>)"

fun execution_thread_step ::
    "'m modular \<Rightarrow> instant \<Rightarrow> (bytes, unit) result \<Rightarrow> bool \<Rightarrow> Opts \<Rightarrow> nat \<Rightarrow> action_phase \<Rightarrow> 'm Loader \<Rightarrow> 'm Loader outcome" where
  "execution_thread_step L now mmap created opts i Act_connecting t = start_action mmap opts t"
| "execution_thread_step L now mmap created opts i (Act_transfer chunks) t =
     (if \<forall>c \<in> set chunks. snd c = Chunk_done then finish_transfer created opts chunks t
      else if i < length chunks then chunk_step opts i chunks t
      else Returns t)"
| "execution_thread_step L now mmap created opts i (Act_closing ph) t = Returns (close_step L now ph t)"
| "execution_thread_step L now mmap created opts i Act_done t = Returns t"

section \<open>The other threads\<close>

definition ld_tx_step :: "instant \<Rightarrow> 'm Loader \<Rightarrow> 'm Loader" where
  "ld_tx_step now t =
     (let (ends, ps, c) = tx_thread_step now (ld_connection t) in
      t\<lparr>ld_connection := c, sent := sent t @ ps, tx_ended := ends\<rparr>)"

definition ld_tick_step :: "'m modular \<Rightarrow> pnet \<Rightarrow> instant \<Rightarrow> 'm Loader \<Rightarrow> 'm Loader outcome" where
  "ld_tick_step L P now t =
     and_then (tick_thread_step L P now (ld_tick t) (ld_operations t) (ld_connection t) (ld_cache t))
       (\<lambda>(ends, k, ops, c, ca).
         Returns (t\<lparr>ld_tick := k, ld_operations := ops, ld_connection := c, ld_cache := ca, tick_ended := ends\<rparr>))"

definition ld_rx_step ::
    "'m modular \<Rightarrow> pnet \<Rightarrow> instant \<Rightarrow> bytes option \<Rightarrow> 'm Loader \<Rightarrow> 'm Loader outcome option" where
  "ld_rx_step L P now received t =
     map_option (\<lambda>m. and_then m (\<lambda>(ends, c, ca, ops).
       Returns (t\<lparr>ld_connection := c, ld_cache := ca, ld_operations := ops, rx_ended := ends\<rparr>)))
       (rx_thread_step L P now received (ld_connection t) (ld_cache t) (ld_operations t))"

section \<open>The end of \<open>run\<close>\<close>

text \<open>
  \<^verbatim>\<open>run\<close> joins the threads one after the other and returns the error of the first that has panicked. A panic in a closure
  of the iterator ends the execution thread, once the closures that are under way have ended.
\<close>

definition unwound :: "'m Loader \<Rightarrow> bool" where
  "unwound t \<longleftrightarrow>
     (case action t of
        Act_transfer chunks \<Rightarrow> \<forall>c \<in> set chunks. (case snd c of Chunk_wait _ \<Rightarrow> False | _ \<Rightarrow> True)
      | _ \<Rightarrow> True)"

fun thread_ended :: "ld_thread \<Rightarrow> 'm Loader \<Rightarrow> bool" where
  "thread_ended Action_thread t \<longleftrightarrow> action t = Act_done"
| "thread_ended Tick_thread t \<longleftrightarrow> tick_ended t"
| "thread_ended Tx_thread t \<longleftrightarrow> tx_ended t"
| "thread_ended Rx_thread t \<longleftrightarrow> rx_ended t"

text \<open>\<open>None\<close>: the call waits.\<close>

definition join_thread :: "ld_thread \<Rightarrow> 'm Loader \<Rightarrow> (unit, bitload_error) result option" where
  "join_thread th t =
     (if th \<in> panics t then if th = Action_thread \<and> \<not> unwound t then None else Some (Err BlThreadError)
      else if thread_ended th t then Some (Ok ()) else None)"

fun join_all :: "ld_thread list \<Rightarrow> 'm Loader \<Rightarrow> (unit, bitload_error) result option" where
  "join_all [] t = Some (Ok ())"
| "join_all (th # ths) t =
     (case join_thread th t of
        None \<Rightarrow> None
      | Some (Err e) \<Rightarrow> Some (Err e)
      | Some (Ok _) \<Rightarrow> join_all ths t)"

definition run_result :: "'m Loader \<Rightarrow> (unit, bitload_error) result option" where
  "run_result t = join_all [Action_thread, Tick_thread, Tx_thread, Rx_thread] t"

section \<open>Every run of the tool\<close>

text \<open>
  A thread that panics takes no further step. What a panicking call leaves of the state it was working on is left open:
  operations and send credits for a closure, everything the thread shares for a serving thread. An iteration that does
  not complete, because the parser loops or a slot is full, is no step. As for a single endpoint, a
  tick needs room in the window and returned receive credits must fit their field.
\<close>

inductive load_run ::
    "'m modular \<Rightarrow> pnet \<Rightarrow> (bytes, unit) result \<Rightarrow> Opts \<Rightarrow> 'm Loader \<Rightarrow> bool" for L P mmap opts where
  lr_start: "bitload_run L now interfaces open_channel mac_from_str0 handler_set opts = Ok t \<Longrightarrow> load_run L P mmap opts t"
| lr_ctrl_c: "load_run L P mmap opts t \<Longrightarrow> load_run L P mmap opts (t\<lparr>ctrl_c_pressed := True\<rparr>)"
| lr_execution: "load_run L P mmap opts t \<Longrightarrow> Action_thread \<notin> panics t \<Longrightarrow>
    execution_thread_step L now mmap created opts i (action t) t = Returns t' \<Longrightarrow> load_run L P mmap opts t'"
| lr_start_panic: "load_run L P mmap opts t \<Longrightarrow> Action_thread \<notin> panics t \<Longrightarrow> action t = Act_connecting \<Longrightarrow>
    start_action mmap opts t = Panics p \<Longrightarrow> load_run L P mmap opts (t\<lparr>panics := insert Action_thread (panics t)\<rparr>)"
| lr_chunk_panic: "load_run L P mmap opts t \<Longrightarrow> action t = Act_transfer chunks \<Longrightarrow> i < length chunks \<Longrightarrow>
    chunk_step opts i chunks t = Panics p \<Longrightarrow> length cr = length (credits_send (ld_connection t)) \<Longrightarrow>
    load_run L P mmap opts (t\<lparr>ld_operations := ops, ld_connection := (ld_connection t)\<lparr>credits_send := cr\<rparr>,
      action := Act_transfer (chunks[i := (d, Chunk_done)]), panics := insert Action_thread (panics t)\<rparr>)"
| lr_pool: "load_run L P mmap opts t \<Longrightarrow> Action_thread \<in> panics t \<Longrightarrow> action t = Act_transfer chunks \<Longrightarrow>
    i < length chunks \<Longrightarrow> chunk_step opts i chunks t = Returns t' \<Longrightarrow> load_run L P mmap opts t'"
| lr_finish_panic: "load_run L P mmap opts t \<Longrightarrow> Action_thread \<notin> panics t \<Longrightarrow> action t = Act_transfer chunks \<Longrightarrow>
    finish_transfer created opts chunks t = Panics p \<Longrightarrow> load_run L P mmap opts (t\<lparr>panics := insert Action_thread (panics t)\<rparr>)"
| lr_tx: "load_run L P mmap opts t \<Longrightarrow> \<not> tx_ended t \<Longrightarrow> load_run L P mmap opts (ld_tx_step now t)"
| lr_tick: "load_run L P mmap opts t \<Longrightarrow> \<not> tick_ended t \<Longrightarrow> Tick_thread \<notin> panics t \<Longrightarrow>
    length (resend_buffer (ld_connection t)) + 1 < 2 ^ 22 \<Longrightarrow>
    ld_tick_step L P now t = Returns t' \<Longrightarrow> load_run L P mmap opts t'"
| lr_tick_panic: "load_run L P mmap opts t \<Longrightarrow> \<not> tick_ended t \<Longrightarrow> Tick_thread \<notin> panics t \<Longrightarrow>
    ld_tick_step L P now t = Panics p \<Longrightarrow>
    load_run L P mmap opts (t\<lparr>ld_tick := k, ld_operations := ops, ld_connection := c, ld_cache := ca,
      panics := insert Tick_thread (panics t)\<rparr>)"
| lr_rx: "load_run L P mmap opts t \<Longrightarrow> \<not> rx_ended t \<Longrightarrow> Rx_thread \<notin> panics t \<Longrightarrow>
    ld_rx_step L P now received t = Some (Returns t') \<Longrightarrow>
    credits_small (credits_receive (ld_connection t')) \<Longrightarrow> load_run L P mmap opts t'"
| lr_rx_panic: "load_run L P mmap opts t \<Longrightarrow> \<not> rx_ended t \<Longrightarrow> Rx_thread \<notin> panics t \<Longrightarrow>
    ld_rx_step L P now received t = Some (Panics p) \<Longrightarrow>
    load_run L P mmap opts (t\<lparr>ld_connection := c, ld_cache := ca, ld_operations := ops,
      panics := insert Rx_thread (panics t)\<rparr>)"

section \<open>Single steps\<close>

text \<open>What a poll of a chunk changes.\<close>

lemma poll_chunk_effect:
  assumes "poll_chunk opts i d chunks ph t = Returns t'"
  obtains cr d' p new where
    "action t' = Act_transfer (chunks[i := (d', p)])" "started t' = started t" "answered t' = answered t @ new"
    "ctrl_c_pressed t' = ctrl_c_pressed t" "ld_cache t' = ld_cache t"
    "ld_connection t' = (ld_connection t)\<lparr>credits_send := cr\<rparr>" "length cr = length (credits_send (ld_connection t))"
    "tx_ended t' = tx_ended t" "tick_ended t' = tick_ended t" "rx_ended t' = rx_ended t" "panics t' = panics t"
    "p \<noteq> Chunk_new" "p \<noteq> Chunk_done \<longrightarrow> d' = d"
    "p = Chunk_done \<longrightarrow> (\<exists>r. new = [(chunk_op opts i d, r)] \<and>
       (if opt_is_read opts then store_response d r = Returns d' else d' = d))"
proof -
  obtain x ops cr where x: "perform ph (ld_operations t) (credits_send (ld_connection t)) = Returns (x, ops, cr)"
    using assms by (auto simp: poll_chunk_def elim!: and_then_ReturnsE)
  note len = length_perform [OF x]
  show thesis
  proof (cases x)
    case (Inl q)
    with assms x have t': "t\<lparr>ld_operations := ops, ld_connection := (ld_connection t)\<lparr>credits_send := cr\<rparr>,
        action := Act_transfer (chunks[i := (d, Chunk_wait q)])\<rparr> = t'"
      by (simp add: poll_chunk_def)
    show thesis by (rule that [of d "Chunk_wait q" "[]" cr]) (use len in \<open>simp_all flip: t'\<close>)
  next
    case (Inr r)
    with assms x obtain d' where d': "(if opt_is_read opts then store_response d r else Returns d) = Returns d'"
        "t\<lparr>ld_operations := ops, ld_connection := (ld_connection t)\<lparr>credits_send := cr\<rparr>,
          action := Act_transfer (chunks[i := (d', Chunk_done)]), answered := answered t @ [(chunk_op opts i d, r)]\<rparr> = t'"
      by (auto simp: poll_chunk_def elim!: and_then_ReturnsE)
    show thesis
      by (rule that [of d' Chunk_done "[(chunk_op opts i d, r)]" cr])
        (use len d'(1) in \<open>simp_all flip: d'(2) split: if_splits\<close>)
  qed
qed

lemma chunk_step_action:
  assumes "chunk_step opts i chunks t = Returns t'" "action t = Act_transfer chunks"
  shows "(\<exists>chunks'. action t' = Act_transfer chunks') \<and> panics t' = panics t"
proof -
  have poll: "(\<exists>chunks'. action t' = Act_transfer chunks') \<and> panics t' = panics u"
    if "poll_chunk opts i d chunks ph u = Returns t'" for d ph u
    using that by (cases rule: poll_chunk_effect) simp
  show ?thesis
    using assms poll by (auto simp: chunk_step_def Let_def split: prod.splits chunk_phase.splits if_splits)
qed

lemma execution_panics:
  assumes "execution_thread_step L now mmap created opts i (action t) t = Returns t'"
  shows "panics t' = panics t"
  using assms
  by (cases "action t") (auto dest: chunk_step_action simp: start_action_def finish_transfer_def close_step_def case_prod_beta Let_def
      elim!: and_then_ReturnsE split: if_splits)

text \<open>The state in which the threads are started.\<close>

lemma bitload_run_state:
  assumes "bitload_run L now interfaces open_channel mac_from_str0 handler_set opts = Ok t"
  obtains mine other where "action t = Act_connecting" "started t = []" "ld_cache t = cache_new 0"
    "ld_connection t = establish_connection (conn_new L now now (opt_ox10_mode opts) 0 mine other)"
    "\<not> tx_ended t" "\<not> tick_ended t" "\<not> rx_ended t" "panics t = {}"
proof -
  obtain mine other where "t = \<lparr>ld_connection = establish_connection (conn_new L now now (opt_ox10_mode opts) 0 mine other),
      ld_cache = cache_new 0, ld_operations = operations_new, ld_tick = bitload_tick now,
      ctrl_c_pressed = False, action = Act_connecting, sent = [], written = None,
      tx_ended = False, tick_ended = False, rx_ended = False, panics = {}, started = [], answered = []\<rparr>"
    using assms by (auto simp: bitload_run_def create_ox_handling_def setup_ctrlc_def split: option.splits result.splits if_splits)
  then show thesis by (intro that) simp_all
qed

text \<open>The tool as it is started in compatibility mode.\<close>

definition sample_opts :: Opts where
  "sample_opts = \<lparr>opt_interface = [], opt_my_mac = [1], opt_other_mac = [2], opt_base_address = 64, opt_ox10_mode = True,
     opt_is_read = False, opt_size = 0\<rparr>"

definition sample_loader :: "(int \<times> nat) Loader" where
  "sample_loader = \<lparr>ld_connection = establish_connection (conn_new std_modular 0 0 True 0 (MacAddr 2 0 0 0 0 1) (MacAddr 2 0 0 0 0 1)),
     ld_cache = cache_new 0, ld_operations = operations_new, ld_tick = bitload_tick 0, ctrl_c_pressed = False,
     action = Act_connecting, sent = [], written = None, tx_ended = False, tick_ended = False, rx_ended = False,
     panics = {}, started = [], answered = []\<rparr>"

lemma sample_loader_run: "load_run std_modular P mmap sample_opts sample_loader"
proof (rule lr_start)
  show "bitload_run std_modular 0 [\<lparr>ifc_name = [], ifc_mac = None\<rparr>] (\<lambda>_. Ok Ethernet) (\<lambda>_. Some (MacAddr 2 0 0 0 0 1)) True
      sample_opts = Ok sample_loader"
    by (simp add: bitload_run_def sample_opts_def sample_loader_def setup_connection_def setup_ctrlc_def create_ox_handling_def)
qed

end
