(* ===== verification/Bitload_Transfer.thy ===== *)
theory Bitload_Transfer
  imports Bitload_Run
begin

text \<open>
  What the threads of \<^verbatim>\<open>bitload\<close> transfer: an invariant of the chunks over every interleaving, and from it that a finished
  transfer has done what the sequential loops of \<open>Bitload\<close> do. At the end a file of eight bytes is followed from the
  start of the tool through the wait for credits and the frame with the answer to the end of the transfer.
\<close>

section \<open>What is transferred\<close>

text \<open>The operations for the chunks with the given indices.\<close>

definition ops_of :: "Opts \<Rightarrow> bytes list \<Rightarrow> nat set \<Rightarrow> TLOperations multiset" where
  "ops_of opts cs I = image_mset (\<lambda>i. chunk_op opts i (cs ! i)) (mset_set I)"

text \<open>The bytes \<open>d\<close> are what the answer to the operation for chunk \<open>i\<close> makes of the bytes \<open>c\<close>.\<close>

definition chunk_answered :: "Opts \<Rightarrow> 'm Loader \<Rightarrow> nat \<Rightarrow> bytes \<Rightarrow> bytes \<Rightarrow> bool" where
  "chunk_answered opts t i c d \<longleftrightarrow>
     (\<exists>r. (chunk_op opts i c, r) \<in> set (answered t) \<and> (if opt_is_read opts then store_response c r = Returns d else d = c))"

definition chunk_inv :: "Opts \<Rightarrow> 'm Loader \<Rightarrow> nat \<Rightarrow> bytes \<Rightarrow> bytes \<times> chunk_phase \<Rightarrow> bool" where
  "chunk_inv opts t i c x \<longleftrightarrow>
     (snd x \<noteq> Chunk_done \<longrightarrow> fst x = c) \<and> (snd x = Chunk_done \<longrightarrow> \<not> ctrl_c_pressed t \<longrightarrow> chunk_answered opts t i c (fst x))"

definition chunks_inv :: "Opts \<Rightarrow> bytes list \<Rightarrow> (bytes \<times> chunk_phase) list \<Rightarrow> 'm Loader \<Rightarrow> bool" where
  "chunks_inv opts cs chunks t \<longleftrightarrow>
     length chunks = length cs \<and> (\<forall>i < length cs. chunk_inv opts t i (cs ! i) (chunks ! i)) \<and>
     (\<not> ctrl_c_pressed t \<longrightarrow> mset (started t) = ops_of opts cs {i. i < length cs \<and> snd (chunks ! i) \<noteq> Chunk_new})"

definition complete :: "Opts \<Rightarrow> bytes list \<Rightarrow> 'm Loader \<Rightarrow> bool" where
  "complete opts cs t \<longleftrightarrow>
     mset (started t) = ops_of opts cs {..<length cs} \<and>
     (opt_is_read opts \<longrightarrow> (\<exists>ds. written t = Some (concat ds) \<and> length ds = length cs \<and>
       (\<forall>i < length cs. chunk_answered opts t i (cs ! i) (ds ! i))))"

definition transfer_inv :: "(bytes, unit) result \<Rightarrow> Opts \<Rightarrow> 'm Loader \<Rightarrow> bool" where
  "transfer_inv mmap opts t \<longleftrightarrow>
     (case action t of
        Act_connecting \<Rightarrow> started t = []
      | Act_transfer chunks \<Rightarrow>
          \<exists>d. transfer_data mmap opts = Returns d \<and> chunks_inv opts (par_chunks chunk_size d) chunks t
      | _ \<Rightarrow> ctrl_c_pressed t \<or>
          (\<exists>d. transfer_data mmap opts = Returns d \<and> complete opts (par_chunks chunk_size d) t))"

text \<open>A change of chunk \<open>i\<close> that leaves the phase in which it has not been started.\<close>

lemma chunks_inv_update:
  assumes "chunks_inv opts cs chunks t" "i < length cs" "p \<noteq> Chunk_new"
    and "ctrl_c_pressed t' = ctrl_c_pressed t" "set (answered t) \<subseteq> set (answered t')"
    and "chunk_inv opts t' i (cs ! i) (d', p)"
    and "\<not> ctrl_c_pressed t \<longrightarrow> (if snd (chunks ! i) = Chunk_new then started t' = started t @ [chunk_op opts i (cs ! i)] else started t' = started t)"
  shows "chunks_inv opts cs (chunks[i := (d', p)]) t'"
proof -
  let ?I = "{j. j < length cs \<and> snd (chunks ! j) \<noteq> Chunk_new}"
  have len: "length chunks = length cs" using assms(1) by (simp add: chunks_inv_def)
  have "chunk_inv opts t' j (cs ! j) (chunks[i := (d', p)] ! j)" if "j < length cs" for j
  proof (cases "j = i")
    case False
    have "chunk_inv opts t j (cs ! j) (chunks ! j)" using assms(1) that by (simp add: chunks_inv_def)
    then show ?thesis using False assms(4,5) by (auto simp: chunk_inv_def chunk_answered_def)
  qed (use assms(2,6) len in simp)
  moreover have "{j. j < length cs \<and> snd (chunks[i := (d', p)] ! j) \<noteq> Chunk_new} = insert i ?I"
    using assms(2,3) len by (auto simp: nth_list_update)
  moreover have "mset (started t') = ops_of opts cs (insert i ?I)" if "\<not> ctrl_c_pressed t'"
    using assms(1,2,4,7) that by (cases "i \<in> ?I") (auto simp: chunks_inv_def ops_of_def insert_absorb split: if_splits)
  ultimately show ?thesis using len by (simp add: chunks_inv_def)
qed

lemma poll_chunk_inv:
  assumes "poll_chunk opts i d chunks ph (t\<lparr>ld_operations := ops, started := st\<rparr>) = Returns t'"
    and "chunks_inv opts cs chunks t" "i < length cs" "chunks ! i = (d, p)" "p \<noteq> Chunk_done"
    and "st = (if p = Chunk_new then started t @ [chunk_op opts i d] else started t)"
  shows "\<exists>chunks'. action t' = Act_transfer chunks' \<and> chunks_inv opts cs chunks' t'"
proof -
  have "chunk_inv opts t i (cs ! i) (d, p)" using assms(2-4) by (auto simp: chunks_inv_def)
  then have d: "cs ! i = d" using assms(5) by (simp add: chunk_inv_def)
  from assms(1) obtain d' q new where *:
    "action t' = Act_transfer (chunks[i := (d', q)])" "started t' = st" "answered t' = answered t @ new"
    "ctrl_c_pressed t' = ctrl_c_pressed t" "q \<noteq> Chunk_new" "q \<noteq> Chunk_done \<longrightarrow> d' = d"
    "q = Chunk_done \<longrightarrow> (\<exists>r. new = [(chunk_op opts i d, r)] \<and> (if opt_is_read opts then store_response d r = Returns d' else d' = d))"
    by (rule poll_chunk_effect) simp
  have "chunk_inv opts t' i (cs ! i) (d', q)"
    using *(3,6,7) d by (auto simp: chunk_inv_def chunk_answered_def)
  then have "chunks_inv opts cs (chunks[i := (d', q)]) t'"
    by (intro chunks_inv_update [OF assms(2,3) *(5)]) (use *(2-4) assms(4,6) d in auto)
  with *(1) show ?thesis by auto
qed

lemma chunk_step_inv:
  assumes "chunk_step opts i chunks t = Returns t'" "chunks_inv opts cs chunks t" "i < length chunks"
    and "action t = Act_transfer chunks"
  shows "\<exists>chunks'. action t' = Act_transfer chunks' \<and> chunks_inv opts cs chunks' t'"
proof -
  have i: "i < length cs" using assms(2,3) by (simp add: chunks_inv_def)
  obtain d p where c: "chunks ! i = (d, p)" by fastforce
  note poll = poll_chunk_inv [OF _ assms(2) i c]
  show ?thesis
  proof (cases p)
    case Chunk_new
    show ?thesis
    proof (cases "ctrl_c_pressed t")
      case True
      then have t': "t' = t\<lparr>action := Act_transfer (chunks[i := (d, Chunk_done)])\<rparr>"
        using assms(1) c Chunk_new by (simp add: chunk_step_def)
      have "chunks_inv opts cs (chunks[i := (d, Chunk_done)]) t'"
        by (rule chunks_inv_update [OF assms(2) i]) (use t' True in \<open>simp_all add: chunk_inv_def\<close>)
      with t' show ?thesis by auto
    next
      case False
      with assms(1) c Chunk_new poll [of "Get_source (chunk_op opts i d)"] show ?thesis
        by (simp add: chunk_step_def Let_def)
    qed
  next
    case (Chunk_wait ph)
    with assms(1) c poll [where ph = ph and ops = "ld_operations t" and st = "started t"] show ?thesis by (simp add: chunk_step_def)
  next
    case Chunk_done
    with assms c show ?thesis by (simp add: chunk_step_def)
  qed
qed

lemma chunk_answered_cong: "answered t' = answered t \<Longrightarrow> chunk_answered opts t' = chunk_answered opts t"
  by (simp add: chunk_answered_def fun_eq_iff)

lemma complete_finish:
  assumes "chunks_inv opts cs chunks t" "\<forall>c \<in> set chunks. snd c = Chunk_done" "\<not> ctrl_c_pressed t"
    and "started t' = started t" "answered t' = answered t" "opt_is_read opts \<longrightarrow> written t' = Some (concat (map fst chunks))"
  shows "complete opts cs t'"
proof -
  have len: "length chunks = length cs" using assms(1) by (simp add: chunks_inv_def)
  have d: "snd (chunks ! i) = Chunk_done" if "i < length cs" for i using assms(2) that len by auto
  then have "{i. i < length cs \<and> snd (chunks ! i) \<noteq> Chunk_new} = {..<length cs}" by auto
  then have "mset (started t') = ops_of opts cs {..<length cs}" using assms(1,3,4) by (simp add: chunks_inv_def)
  moreover have "chunk_answered opts t' i (cs ! i) (map fst chunks ! i)" if "i < length cs" for i
    using assms(1,3) d that len by (simp add: chunks_inv_def chunk_inv_def chunk_answered_cong [OF assms(5)])
  ultimately show ?thesis using assms(6) len unfolding complete_def by (metis length_map)
qed

lemma start_action_inv:
  assumes "start_action mmap opts t = Returns t'" "transfer_inv mmap opts t" "action t = Act_connecting"
  shows "transfer_inv mmap opts t'"
proof (cases "ctrl_c_pressed t \<or> connection_state (ld_connection t) \<noteq> Active")
  case True
  with assms show ?thesis by (auto simp: start_action_def transfer_inv_def split: if_splits)
next
  case False
  with assms(1) obtain d where d: "transfer_data mmap opts = Returns d"
      "t' = t\<lparr>action := Act_transfer (map (\<lambda>c. (c, Chunk_new)) (par_chunks chunk_size d))\<rparr>"
    by (auto simp: start_action_def elim!: and_then_ReturnsE)
  have e: "{i. i < length cs \<and> snd (map (\<lambda>c. (c, Chunk_new)) cs ! i) \<noteq> Chunk_new} = {}" for cs :: "bytes list" by auto
  have "chunks_inv opts cs (map (\<lambda>c. (c, Chunk_new)) cs) t'" for cs
    using d(2) assms(2,3) by (simp add: chunks_inv_def chunk_inv_def ops_of_def transfer_inv_def e)
  with d show ?thesis by (auto simp: transfer_inv_def)
qed

lemma execution_inv:
  assumes "execution_thread_step L now mmap created opts i (action t) t = Returns t'" "transfer_inv mmap opts t"
  shows "transfer_inv mmap opts t'"
proof (cases "action t")
  case Act_connecting
  with assms start_action_inv [of mmap opts t t'] show ?thesis by simp
next
  case (Act_transfer chunks)
  with assms(2) obtain d where d: "transfer_data mmap opts = Returns d" "chunks_inv opts (par_chunks chunk_size d) chunks t"
    by (auto simp: transfer_inv_def)
  show ?thesis
  proof (cases "\<forall>c \<in> set chunks. snd c = Chunk_done")
    case True
    with Act_transfer assms(1) have f: "finish_transfer created opts chunks t = Returns t'" by simp
    then have t': "action t' = Act_closing Close_start" "started t' = started t" "answered t' = answered t"
        "ctrl_c_pressed t' = ctrl_c_pressed t" "opt_is_read opts \<longrightarrow> written t' = Some (concat (map fst chunks))"
      by (auto simp: finish_transfer_def split: if_splits)
    with complete_finish [OF d(2) True] d(1) show ?thesis by (auto simp: transfer_inv_def)
  next
    case False
    with Act_transfer assms(1) consider "chunk_step opts i chunks t = Returns t'" "i < length chunks" | "t' = t"
      by (auto split: if_splits)
    then show ?thesis
    proof cases
      case 1
      with chunk_step_inv [OF _ d(2) _ Act_transfer] d(1) show ?thesis by (fastforce simp: transfer_inv_def)
    qed (use assms(2) in simp)
  qed
next
  case (Act_closing ph)
  with assms have "t' = close_step L now ph t" by simp
  with assms(2) Act_closing show ?thesis
    by (auto simp: close_step_def transfer_inv_def complete_def chunk_answered_def Let_def case_prod_beta split: sum.split)
qed (use assms in simp)

text \<open>Nothing else changes what is transferred.\<close>

lemma transfer_inv_other:
  assumes "transfer_inv mmap opts t" "action t' = action t" "started t' = started t" "answered t' = answered t"
    and "written t' = written t" "ctrl_c_pressed t \<longrightarrow> ctrl_c_pressed t'"
  shows "transfer_inv mmap opts t'"
proof -
  have "chunks_inv opts cs chunks t'" if "chunks_inv opts cs chunks t" for cs chunks
    using that assms(3,6) by (auto simp: chunks_inv_def chunk_inv_def chunk_answered_cong [OF assms(4)])
  moreover have "complete opts cs t'" if "complete opts cs t" for cs
    using that assms(3,5) by (simp add: complete_def chunk_answered_cong [OF assms(4)])
  ultimately show ?thesis using assms(1,2,3,6)
    unfolding transfer_inv_def by (cases "action t") fastforce+
qed

text \<open>An execution thread that has panicked is not in a state after the transfer.\<close>

definition action_inv :: "(bytes, unit) result \<Rightarrow> Opts \<Rightarrow> 'm Loader \<Rightarrow> bool" where
  "action_inv mmap opts t \<longleftrightarrow>
     (if Action_thread \<in> panics t then \<forall>ph. action t \<noteq> Act_done \<and> action t \<noteq> Act_closing ph
      else transfer_inv mmap opts t)"

lemma action_inv_other:
  assumes "action_inv mmap opts t" "action t' = action t" "started t' = started t" "answered t' = answered t"
    and "written t' = written t" "ctrl_c_pressed t \<longrightarrow> ctrl_c_pressed t'"
    and "Action_thread \<in> panics t' \<longleftrightarrow> Action_thread \<in> panics t"
  shows "action_inv mmap opts t'"
  using assms transfer_inv_other [OF _ assms(2-6)] by (auto simp: action_inv_def)

lemma load_run_transfer: "load_run L P mmap opts t \<Longrightarrow> action_inv mmap opts t"
proof (induction rule: load_run.induct)
  case (lr_start now interfaces open_channel mac_from_str0 handler_set t)
  then show ?case by (rule bitload_run_state) (simp add: action_inv_def transfer_inv_def)
next
  case (lr_execution t now created i t')
  then show ?case using execution_inv [OF lr_execution.hyps(3)] execution_panics [OF lr_execution.hyps(3)]
    by (simp add: action_inv_def)
next
  case (lr_pool t chunks i t')
  then show ?case using chunk_step_action [OF lr_pool.hyps(5,3)] by (auto simp: action_inv_def)
next
  case (lr_tx t now)
  then show ?case
    by (intro action_inv_other [OF lr_tx.IH]) (simp_all add: ld_tx_step_def case_prod_beta Let_def)
next
  case (lr_tick t now t')
  then show ?case
    by (intro action_inv_other [OF lr_tick.IH]) (auto simp: ld_tick_step_def elim!: and_then_ReturnsE)
next
  case (lr_rx t now received t')
  then show ?case
    by (intro action_inv_other [OF lr_rx.IH]) (auto simp: ld_rx_step_def elim!: and_then_ReturnsE)
next
  case (lr_ctrl_c t)
  then show ?case by (intro action_inv_other [OF lr_ctrl_c.IH]) simp_all
next
  case (lr_tick_panic t now p k ops c ca)
  then show ?case by (intro action_inv_other [OF lr_tick_panic.IH]) simp_all
next
  case (lr_rx_panic t now received p c ca ops)
  then show ?case by (intro action_inv_other [OF lr_rx_panic.IH]) simp_all
qed (simp_all add: action_inv_def)

text \<open>The operations of all chunks are those of \<^verbatim>\<open>do_parallel_write\<close>.\<close>

lemma ops_of_write:
  assumes "\<not> opt_is_read opts"
  shows "ops_of opts (par_chunks chunk_size d) {..<length (par_chunks chunk_size d)} =
    mset (do_parallel_write (\<lambda>_. False) (opt_base_address opts) chunk_size d)"
proof -
  let ?cs = "par_chunks chunk_size d"
  have "do_parallel_write (\<lambda>_. False) (opt_base_address opts) chunk_size d =
      map (\<lambda>(i, c). write_op (opt_base_address opts) chunk_size i c) (enumerate 0 ?cs)"
    by (simp add: do_parallel_write_def write_chunk_def map_filter_def case_prod_beta comp_def)
  also have "\<dots> = map (\<lambda>i. chunk_op opts i (?cs ! i)) [0..<length ?cs]"
    using assms by (intro nth_equalityI) (simp_all add: nth_enumerate_eq chunk_op_def)
  finally show ?thesis by (simp add: ops_of_def atLeast0LessThan)
qed

lemma complete_read:
  assumes "complete opts (par_chunks chunk_size (replicate (unat (opt_size opts)) 0xFF)) t" "opt_is_read opts"
    and "\<forall>(oper, r) \<in> set (answered t). respond oper = r" "written t = Some buf"
  shows "do_parallel_read respond (\<lambda>_. False) (unat (opt_size opts)) chunk_size (opt_base_address opts) = Returns buf"
proof -
  let ?cs = "par_chunks chunk_size (replicate (unat (opt_size opts)) 0xFF) :: bytes list"
  obtain ds where ds: "buf = concat ds" "length ds = length ?cs" "\<forall>i < length ?cs. chunk_answered opts t i (?cs ! i) (ds ! i)"
    using assms(1,2,4) by (auto simp: complete_def)
  have "read_chunk respond (opt_base_address opts) chunk_size False i (?cs ! i) = Returns (ds ! i)" if "i < length ?cs" for i
    using ds(3) that assms(2,3) by (fastforce simp: chunk_answered_def chunk_op_def read_chunk_def)
  then show ?thesis unfolding do_parallel_read_def ds(1) by (intro read_chunks_concat) (simp_all add: ds(2))
qed

lemma complete_write:
  assumes "complete opts (par_chunks chunk_size d) t" "\<not> opt_is_read opts"
  shows "mset (started t) = mset (do_parallel_write (\<lambda>_. False) (opt_base_address opts) 1024 d)"
    and "mset ops = mset (started t) \<Longrightarrow> length d \<le> 2 ^ 64 \<Longrightarrow> i < length d \<Longrightarrow>
      foldl mem_write m ops (opt_base_address opts + of_nat i) = d ! i"
proof -
  show s: "mset (started t) = mset (do_parallel_write (\<lambda>_. False) (opt_base_address opts) 1024 d)"
    using assms(1) ops_of_write [OF assms(2), of d] by (simp add: complete_def chunk_size_def)
  assume o: "mset ops = mset (started t)" "length d \<le> 2 ^ 64" "i < length d"
  show "foldl mem_write m ops (opt_base_address opts + of_nat i) = d ! i"
    by (rule writes_store_file [OF _ o(2) mset_eq_setD o(3)]) (use o(1) s in simp_all)
qed

text \<open>
  C9. When the transfer is over and Ctrl-C was not pressed, the pool of threads has done exactly what the sequential
  loop would have done, whatever the interleaving. A write has started each operation of \<^verbatim>\<open>do_parallel_write\<close>
  once, and a memory that carries them out in any order holds the file from the base address on. A read has
  created a file with the bytes that \<^verbatim>\<open>do_parallel_read\<close> assembles from the answers.
\<close>

theorem bitload_transfers:
  assumes "load_run L P mmap opts t" and "action t = Act_done \<or> action t = Act_closing ph" and "\<not> ctrl_c_pressed t"
  shows "if opt_is_read opts then
      \<exists>buf. written t = Some buf \<and> (\<forall>respond. (\<forall>(oper, r) \<in> set (answered t). respond oper = r) \<longrightarrow>
        do_parallel_read respond (\<lambda>_. False) (unat (opt_size opts)) 1024 (opt_base_address opts) = Returns buf)
    else
      \<exists>d. mmap = Ok d \<and> mset (started t) = mset (do_parallel_write (\<lambda>_. False) (opt_base_address opts) 1024 d) \<and>
        (\<forall>m ops i. mset ops = mset (started t) \<longrightarrow> length d \<le> 2 ^ 64 \<longrightarrow> i < length d \<longrightarrow>
          foldl mem_write m ops (opt_base_address opts + of_nat i) = d ! i)"
proof -
  obtain d where d: "transfer_data mmap opts = Returns d" "complete opts (par_chunks chunk_size d) t"
    using load_run_transfer [OF assms(1)] assms(2,3) by (auto simp: action_inv_def transfer_inv_def split: if_splits)
  show ?thesis
  proof (cases "opt_is_read opts")
    case True
    with d have c: "complete opts (par_chunks chunk_size (replicate (unat (opt_size opts)) 0xFF)) t"
      by (simp add: transfer_data_def)
    with True obtain buf where "written t = Some buf" by (auto simp: complete_def)
    with complete_read [OF c True _ this] True show ?thesis by (auto simp: chunk_size_def)
  next
    case False
    with d(1) have "mmap = Ok d" by (auto simp: transfer_data_def split: result.splits)
    with complete_write [OF d(2) False] False show ?thesis by auto
  qed
qed

section \<open>A file of eight bytes\<close>

text \<open>The file, the operation that writes it, and a frame that brings 16 credits for channel A and the answer.\<close>

definition sample_file :: bytes where
  "sample_file = [1, 2, 3, 4, 5, 6, 7, 8]"

lemma length_sample_file [simp]: "length sample_file = 8"
  by (simp add: sample_file_def)

definition file_write :: TLOperations where
  "file_write = WriteLen \<lparr>writelen_address = 64, writelen_data = sample_file\<rparr>"

definition sample_ack :: ChanABCDTilelinkMessage where
  "sample_ack = \<lparr>abcd_chan = Chan_D, abcd_opcode = 0, abcd_param = 0, abcd_size = 3, abcd_domain = 0, abcd_err = 0, abcd_source = 0\<rparr>"

definition credit_frame :: bytes where
  "credit_frame = take 21 reply_frame @ [0x24] @ encode_incoming (In_access_ack sample_ack) @ replicate 8 0"

lemma credit_frame_sequence_number: "frame_field std_pnet F_sequence_number credit_frame = 0"
  by code_simp

lemma credit_frame_sequence_number_ack: "frame_field std_pnet F_sequence_number_ack credit_frame = 4194303"
  by code_simp

lemma credit_frame_message_type: "frame_field std_pnet F_message_type credit_frame = 0"
  by code_simp

lemma credit_frame_chan: "frame_field std_pnet F_chan credit_frame = 1"
  by code_simp

lemma credit_frame_credit: "frame_field std_pnet F_credit credit_frame = 4"
  by code_simp

lemma credit_frame_destination: "eth_get_destination std_pnet credit_frame = MacAddr 2 0 0 0 0 1"
  by code_simp

lemma credit_frame_ethertype: "eth_get_ethertype std_pnet credit_frame = 0xAAAA"
  by code_simp


lemma credit_frame_payload: "drop 22 credit_frame = concat (map encode_incoming [In_access_ack sample_ack]) @ replicate 8 0"
  "length credit_frame = 38"
  by (simp_all add: credit_frame_def reply_frame_def)

lemmas credit_frame_fields =
  credit_frame_sequence_number credit_frame_sequence_number_ack credit_frame_message_type credit_frame_chan
  credit_frame_credit credit_frame_destination credit_frame_ethertype credit_frame_payload

lemma sample_chunk: "chunk_op sample_opts 0 sample_file = file_write"
  using log2_fract_zero_8
  by (simp add: chunk_op_def sample_opts_def write_op_def chunk_address_def is_power_of_two_def file_write_def log2_fract_zero_def)

lemma sample_chunks: "par_chunks chunk_size sample_file = [sample_file]"
  by (simp add: par_chunks.simps chunk_size_def sample_file_def)

definition sample_bytes :: bytes where
  "sample_bytes = u64_to_be_bytes (u64_from_abcd (tl_header file_write 0)) @ u64_to_be_bytes (tl_address file_write) @ tl_payload file_write"

lemma sample_pack: "pack_operation \<lparr>os_operation = file_write, os_source = 0\<rparr> = Returns (Ok sample_bytes)"
  using pack_operation_layout [of file_write 0] log2_fract_zero_8
  by (simp add: sample_bytes_def file_write_def)

text \<open>The operations while the call waits for credits, and what it does then.\<close>

definition waiting_ops :: Operations where
  "waiting_ops = operations_new\<lparr>available_sources := map of_nat [1..<255], outstanding_cntr := 1\<rparr>"

lemma sample_waits:
  "perform (Get_source file_write) (perform_enter operations_new) (credits_new 0) =
     Returns (Inl (Get_credits file_write 0 sample_bytes), waiting_ops, credits_new 0)"
proof -
  have "[0..<255] = 0 # [1..<255]" by (simp add: upt_conv_Cons)
  moreover have "(replicate 255 None)[0 := None] = replicate 255 None" by (metis list_update_id nth_replicate zero_less_numeral)
  moreover have "get_credits file_write (credits_new 0) = (False, credits_new 0)"
    by (simp add: get_credits_def file_write_def credits_take_def credits_new_def chan_index_def)
  ultimately show ?thesis using sample_pack
    by (simp add: get_source_def operations_new_def perform_enter_def create_operation_def perform_credits_def waiting_ops_def
        file_write_def del: upt_rec_numeral)
qed

lemma sample_answered:
  assumes "operation_completions ops ! 0 = Some (0, Ok [])" "operation_completions ops \<noteq> []"
  shows "\<exists>ops1 cr1. perform (Get_credits file_write 0 sample_bytes) ops (credits_add (credits_new 0) Chan_A 16) =
      Returns (Inl (Send_response file_write 0 (Ok [])), ops1, cr1)"
proof -
  obtain cr1 where "get_credits file_write (credits_add (credits_new 0) Chan_A 16) = (True, cr1)"
    by (simp add: get_credits_def file_write_def credits_take_def credits_new_def chan_index_def credits_add_def)
  moreover have "has_return file_write" by (simp add: file_write_def)
  ultimately show ?thesis using assms by (simp add: perform_credits_def perform_response_def wait_for_response_def Let_def)
qed

lemma sample_returned: "perform (Send_response file_write 0 (Ok [])) ops cr = Returns (Inr (Ok ResNone), ops, cr)"
  by (simp add: send_response_def perform_return_def extract_response_def complete_inner_def file_write_def)

definition sample_con :: "(int \<times> nat) Connection" where
  "sample_con = ld_connection sample_loader"

lemma sample_con_inv: "conn_inv std_modular std_pnet sample_con"
  using lk.endpoint_establish [OF lk.endpoint_new [of "MacAddr 2 0 0 0 0 1" "MacAddr 2 0 0 0 0 1" 0 0 True 0 0]]
  by (simp add: endpoint_ok_def sample_con_def sample_loader_def)

lemma credit_frame_ok:
  "addressed std_pnet sample_con credit_frame" "is_expected std_modular std_pnet sample_con credit_frame"
  "acked_count std_modular std_pnet sample_con credit_frame = 0" "\<not> frame_is std_pnet AckOnly credit_frame"
  using credit_frame_fields
  by (simp_all add: addressed_def is_expected_def acked_count_def frame_is_def sample_con_def sample_loader_def
      establish_connection_def conn_new_def sn_val_def sn_new_def sn_max_def sn_modulus_def
      std_modular_def seq_dist_def)

lemma sample_ack_parsed:
  "\<forall>m \<in> set [In_access_ack sample_ack]. incoming_ok m"
  "List.map_filter incoming_response [In_access_ack sample_ack] = [(0, 0, Ok [])]"
  "List.map_filter incoming_credit [In_access_ack sample_ack] = [(Chan_D, 1)]"
  "List.map_filter incoming_probe [In_access_ack sample_ack] = []"
  by (simp_all add: sample_ack_def header_ok_def abcd_fits_def answer_def incoming_credit_def)

lemma credit_frame_processed:
  "\<exists>c. process_packet std_modular std_pnet 0 credit_frame sample_con ca waiting_ops =
     Some (Returns (Ok (), c, ca, slots_filled waiting_ops [(0, 0, Ok [])])) \<and>
     credits_send c = credits_add (credits_new 0) Chan_A 16 \<and> credits_small (credits_receive c)"
proof -
  have free: "slots_free waiting_ops (List.map_filter incoming_response [In_access_ack sample_ack])"
    unfolding sample_ack_parsed(2) by (simp add: slots_free_def waiting_ops_def operations_new_def)
  let ?c = "credit_all (accepted_data std_modular std_pnet 0 sample_con credit_frame) [(Chan_D, 1)]"
  have "process_packet std_modular std_pnet 0 credit_frame sample_con ca waiting_ops =
     Some (Returns (Ok (), ?c, ca, slots_filled waiting_ops [(0, 0, Ok [])]))"
    using process_packet_encoded [OF lk.ox_link_axioms sample_con_inv credit_frame_ok(1,2) _ credit_frame_ok(4) _
        credit_frame_payload(1) _ sample_ack_parsed(1) free, of 0 ca,
        unfolded sample_ack_parsed(2-4)]
    by (simp add: credit_frame_ok(3) credit_frame_payload(2))
  moreover have "credits_send ?c = credits_add (credits_new 0) Chan_A 16"
    using credit_frame_fields
    by (simp add: credit_all_def add_receive_credits_def accepted_data_def set_connection_state_receive_def accepted_acks_def
        sample_con_def sample_loader_def establish_connection_def conn_new_def channel_from_u8_def)
  moreover have "credits_small (credits_receive ?c)"
    by (simp add: credit_all_def add_receive_credits_def accepted_data_def set_connection_state_receive_def accepted_acks_def
        sample_con_def sample_loader_def establish_connection_def conn_new_def credits_add_def credits_new_def chan_index_def credits_small_def)
  ultimately show ?thesis by blast
qed

text \<open>A poll of the only chunk of a write.\<close>

lemma single_poll:
  assumes "load_run L P (Ok file) sample_opts t" "panics t = {}" "action t = Act_transfer [(d, Chunk_wait ph)]"
    and "perform ph (ld_operations t) (credits_send (ld_connection t)) = Returns (x, ops, cr)"
  shows "\<exists>t'. load_run L P (Ok file) sample_opts t' \<and> panics t' = {} \<and> ld_operations t' = ops \<and> credits_send (ld_connection t') = cr \<and>
    started t' = started t \<and> ctrl_c_pressed t' = ctrl_c_pressed t \<and>
    action t' = Act_transfer [(d, case x of Inl ph \<Rightarrow> Chunk_wait ph | Inr _ \<Rightarrow> Chunk_done)]"
proof -
  obtain t' where "execution_thread_step L 0 (Ok file) True sample_opts 0 (action t) t = Returns t'"
    "ld_operations t' = ops" "credits_send (ld_connection t') = cr" "started t' = started t" "ctrl_c_pressed t' = ctrl_c_pressed t"
    "action t' = Act_transfer [(d, case x of Inl ph \<Rightarrow> Chunk_wait ph | Inr _ \<Rightarrow> Chunk_done)]" "panics t' = {}"
    using assms(2-4) by (cases x) (simp_all add: chunk_step_def poll_chunk_def sample_opts_def)
  then show ?thesis using lr_execution [OF assms(1)] assms(2) by blast
qed

lemma sample_started:
  "\<exists>t. load_run std_modular std_pnet (Ok sample_file) sample_opts t \<and> panics t = {} \<and> ld_operations t = waiting_ops \<and> ld_connection t = sample_con \<and>
     started t = [file_write] \<and> \<not> ctrl_c_pressed t \<and> \<not> rx_ended t \<and>
     action t = Act_transfer [(sample_file, Chunk_wait (Get_credits file_write 0 sample_bytes))]"
proof -
  let ?t = "sample_loader\<lparr>action := Act_transfer [(sample_file, Chunk_new)]\<rparr>"
  let ?u = "sample_loader\<lparr>ld_operations := waiting_ops, started := [file_write],
    action := Act_transfer [(sample_file, Chunk_wait (Get_credits file_write 0 sample_bytes))]\<rparr>"
  have con: "credits_send (ld_connection sample_loader) = credits_new 0" "connection_state (ld_connection sample_loader) = Active"
    by (simp_all add: sample_loader_def establish_connection_def conn_new_def)
  have "execution_thread_step std_modular 0 (Ok sample_file) True sample_opts 0 (action sample_loader) sample_loader = Returns ?t"
    using con(2) by (simp add: sample_loader_def sample_opts_def start_action_def transfer_data_def sample_chunks)
  then have t: "load_run std_modular std_pnet (Ok sample_file) sample_opts ?t" by (rule lr_execution [OF sample_loader_run, rotated]) (simp add: sample_loader_def)
  have id: "sample_con\<lparr>credits_send := credits_new 0\<rparr> = sample_con" using con(1) by (simp add: sample_con_def)
  have "execution_thread_step std_modular 0 (Ok sample_file) True sample_opts 0 (action ?t) ?t = Returns ?u"
    using sample_waits con(1) id by (simp add: chunk_step_def poll_chunk_def sample_chunk sample_con_def Let_def sample_loader_def)
  then have "load_run std_modular std_pnet (Ok sample_file) sample_opts ?u" by (rule lr_execution [OF t, rotated]) (simp add: sample_loader_def)
  then show ?thesis by (intro exI [of _ ?u]) (simp add: sample_con_def sample_loader_def)
qed

lemma sample_received:
  "\<exists>t. load_run std_modular std_pnet (Ok sample_file) sample_opts t \<and> panics t = {} \<and> ld_operations t = slots_filled waiting_ops [(0, 0, Ok [])] \<and>
     credits_send (ld_connection t) = credits_add (credits_new 0) Chan_A 16 \<and> started t = [file_write] \<and> \<not> ctrl_c_pressed t \<and>
     action t = Act_transfer [(sample_file, Chunk_wait (Get_credits file_write 0 sample_bytes))]"
proof -
  obtain t where t: "load_run std_modular std_pnet (Ok sample_file) sample_opts t" "panics t = {}" "ld_operations t = waiting_ops" "ld_connection t = sample_con"
    "started t = [file_write]" "\<not> ctrl_c_pressed t" "\<not> rx_ended t"
    "action t = Act_transfer [(sample_file, Chunk_wait (Get_credits file_write 0 sample_bytes))]"
    using sample_started by blast
  obtain c where c: "process_packet std_modular std_pnet 0 credit_frame sample_con (ld_cache t) waiting_ops =
     Some (Returns (Ok (), c, ld_cache t, slots_filled waiting_ops [(0, 0, Ok [])]))"
     "credits_send c = credits_add (credits_new 0) Chan_A 16" "credits_small (credits_receive c)"
    using credit_frame_processed by blast
  obtain t' where t': "ld_rx_step std_modular std_pnet 0 (Some credit_frame) t = Some (Returns t')"
    "ld_operations t' = slots_filled waiting_ops [(0, 0, Ok [])]" "ld_connection t' = c" "started t' = started t"
    "ctrl_c_pressed t' = ctrl_c_pressed t" "action t' = action t" "panics t' = {}"
    using t(2-4) c(1) by (simp add: ld_rx_step_def rx_thread_step_def)
  have "load_run std_modular std_pnet (Ok sample_file) sample_opts t'" by (rule lr_rx [OF t(1,7) _ t'(1)]) (use c t t' in simp_all)
  with t t' c show ?thesis by auto
qed

theorem bitload_transfers_witness:
  "\<exists>t. load_run std_modular std_pnet (Ok sample_file) sample_opts t \<and> action t = Act_closing Close_start \<and>
     mset (started t) = mset (do_parallel_write (\<lambda>_. False) 64 1024 sample_file) \<and> (\<forall>m. foldl mem_write m (started t) 71 = 8)"
proof -
  obtain t where t: "load_run std_modular std_pnet (Ok sample_file) sample_opts t" "ld_operations t = slots_filled waiting_ops [(0, 0, Ok [])]"
     "credits_send (ld_connection t) = credits_add (credits_new 0) Chan_A 16" "started t = [file_write]" "\<not> ctrl_c_pressed t"
     "action t = Act_transfer [(sample_file, Chunk_wait (Get_credits file_write 0 sample_bytes))]" "panics t = {}"
    using sample_received by blast
  obtain ops1 cr1 where "perform (Get_credits file_write 0 sample_bytes) (ld_operations t) (credits_send (ld_connection t)) =
      Returns (Inl (Send_response file_write 0 (Ok [])), ops1, cr1)"
    using sample_answered [of "ld_operations t"] t(2,3) by (auto simp: slots_filled_def waiting_ops_def operations_new_def)
  from single_poll [OF t(1,7,6) this] t(4,5) obtain u where u: "load_run std_modular std_pnet (Ok sample_file) sample_opts u"
    "started u = [file_write]" "\<not> ctrl_c_pressed u" "action u = Act_transfer [(sample_file, Chunk_wait (Send_response file_write 0 (Ok [])))]"
    "panics u = {}" by auto
  from single_poll [OF u(1,5,4) sample_returned] u(2,3) obtain v where v: "load_run std_modular std_pnet (Ok sample_file) sample_opts v"
    "started v = [file_write]" "\<not> ctrl_c_pressed v" "action v = Act_transfer [(sample_file, Chunk_done)]"
    "panics v = {}" by auto
  have "execution_thread_step std_modular 0 (Ok sample_file) True sample_opts 0 (action v) v = Returns (v\<lparr>action := Act_closing Close_start\<rparr>)"
    using v(4) by (simp add: finish_transfer_def sample_opts_def)
  then have w: "load_run std_modular std_pnet (Ok sample_file) sample_opts (v\<lparr>action := Act_closing Close_start\<rparr>)" by (rule lr_execution [OF v(1), rotated]) (simp add: v(5))
  have m: "mset (started v) = mset (do_parallel_write (\<lambda>_. False) 64 1024 sample_file)"
    "\<forall>m ops i. mset ops = mset (started v) \<longrightarrow> i < 8 \<longrightarrow> foldl mem_write m ops (64 + of_nat i) = sample_file ! i"
    using bitload_transfers [OF w, of Close_start] v(3) by (auto simp: sample_opts_def)
  have "7 < (8 :: nat)" by simp
  with m(2) have "foldl mem_write m (started v) (64 + of_nat 7) = sample_file ! 7" for m by blast
  then have "foldl mem_write m (started v) 71 = 8" for m by (simp add: sample_file_def)
  with w m(1) show ?thesis by (intro exI [of _ "v\<lparr>action := Act_closing Close_start\<rparr>"]) simp
qed
end
