(* ===== verification/Bitload_Compat.thy ===== *)
theory Bitload_Compat
  imports Bitload_Run
begin

text \<open>
  \<^verbatim>\<open>bitload\<close> as an endpoint: the invariant of its connection and cache over every interleaving of the threads, as long as
  none of the three that serve the connection panics, and what becomes of the tool in compatibility mode.
\<close>

section \<open>The tool in compatibility mode\<close>

definition open10 :: "'m Connection \<Rightarrow> bool" where
  "open10 c \<longleftrightarrow> compat_mode c \<and> connection_state c = Active"

lemma drain_keeps:
  assumes "\<And>now c r c'. Q c \<Longrightarrow> get_packet now c = (r, c') \<Longrightarrow> Q c'" "Q c" "drain_packets now c = (ps, c')"
  shows "Q c'"
  using assms(2,3)
proof (induction now c arbitrary: ps rule: drain_packets.induct)
  case (1 now c)
  obtain r d where g: "get_packet now c = (r, d)" by fastforce
  with 1(2) assms(1) have d: "Q d" by blast
  show ?case
  proof (cases r)
    case None
    with g d 1(3) show ?thesis by (subst (asm) drain_packets.simps) simp
  next
    case (Some p)
    from 1(3) g Some have "\<exists>qs. drain_packets now d = (qs, c')"
      by (subst (asm) drain_packets.simps) (simp split: prod.splits)
    with 1(1) [OF g [symmetric, unfolded Some] refl d] show ?thesis by blast
  qed
qed

lemma open10_get_packet: "open10 c \<Longrightarrow> get_packet now c = (r, c') \<Longrightarrow> open10 c'"
  by (auto simp: open10_def get_packet_def split: list.splits option.splits)

lemma open10_close: "open10 c \<Longrightarrow> close_connection L timeout now Close_start c = (Inr (Err CompatModeClose), c)"
  by (simp add: open10_def close_refused_def)

lemma open10_process:
  assumes "process_packets L P now c v = Returns (r, c')" "open10 c"
  shows "open10 c'"
  using assms
  by (auto simp: open10_def process_packets_def process_packets_logged_def process_expected_def remove_from_resend_def indicate_nak_def
      update_send_credits_def set_connection_state_receive_def process_replicated_def Let_def
      elim!: and_then_ReturnsE split: if_splits result.splits)

context ox_link
begin

lemma open10_check_send:
  assumes "check_send L P now ops c t = Returns (ops', c', t')" "conn_inv L P c" "open10 c"
  shows "open10 c'"
proof -
  have "open10 c1" if "send_packet L P c operations busy = Returns (r, rest, c1)" for operations busy r rest c1
  proof (cases "packet_data c = None")
    case True
    have "connection_state c \<noteq> Idle" using assms(3) by (simp add: open10_def)
    then obtain n frame where "send_packet L P c operations busy =
        Returns (Ok (), map_option (drop n) operations, sent_state L c busy frame)"
      using True assms(2) by (auto simp: conn_inv_def numbers_ok_def elim: send_packet_sends [of c operations busy])
    with that assms(3) show ?thesis by (auto simp: sent_state_def open10_def state_after_send_def)
  qed (use that assms(3) in \<open>auto simp: send_packet_def open10_def split: if_splits\<close>)
  with assms(1,3) show ?thesis
    by (auto simp: check_send_def Let_def elim!: and_then_ReturnsE split: if_splits result.splits)
qed

lemma open10_tick:
  assumes "tick L P now t ops c ca = Returns (t', ops', c', ca')"
    and "endpoint_ok L P mine other c ca" "length (resend_buffer c) + 1 < 2 ^ 22" "open10 c"
  shows "open10 c'"
  using assms(1)
proof (cases rule: tick_cases)
  case (run ops1 cr c1 t1)
  have "conn_inv L P (c\<lparr>credits_send := cr\<rparr>)"
    using assms(2) length_process_probes [OF run(2)] by (simp add: endpoint_ok_def)
  from open10_check_send [OF run(3) this] assms(4) have "open10 c1" by (simp add: open10_def)
  with run(4) show ?thesis by (cases rule: check_resend_effect) (auto simp: open10_def)
qed (use assms(4) in simp)

end

text \<open>The invariant of an endpoint with any two addresses.\<close>

definition ld_ok :: "'m modular \<Rightarrow> pnet \<Rightarrow> 'm Connection \<Rightarrow> Cache \<Rightarrow> bool" where
  "ld_ok L P c ca \<longleftrightarrow> (\<exists>mine other. endpoint_ok L P mine other c ca)"

lemma ld_okI: "endpoint_ok L P mine other c ca \<Longrightarrow> ld_ok L P c ca"
  by (auto simp: ld_ok_def)

definition ld_inv :: "'m modular \<Rightarrow> pnet \<Rightarrow> Opts \<Rightarrow> 'm Loader \<Rightarrow> bool" where
  "ld_inv L P opts t \<longleftrightarrow>
     ld_ok L P (ld_connection t) (ld_cache t) \<and>
     (opt_ox10_mode opts \<longrightarrow> open10 (ld_connection t) \<and> \<not> tx_ended t \<and> \<not> tick_ended t \<and> \<not> rx_ended t \<and>
       (\<forall>ph. action t = Act_closing ph \<longrightarrow> ph = Close_start))"

lemma ld_inv_chunk:
  assumes "ld_inv L P opts t" "chunk_step opts i chunks t = Returns t'" "action t = Act_transfer chunks"
  shows "ld_inv L P opts t'"
proof -
  have poll: "ld_inv L P opts t'" if "poll_chunk opts i d chunks ph u = Returns t'" "ld_connection u = ld_connection t"
      "ld_cache u = ld_cache t" "tx_ended u = tx_ended t" "tick_ended u = tick_ended t" "rx_ended u = rx_ended t" for d ph u
    using that(1)
  proof (cases rule: poll_chunk_effect)
    case (1 cr d' p new)
    then have "ld_ok L P (ld_connection t') (ld_cache t') = ld_ok L P (ld_connection t) (ld_cache t)"
        "open10 (ld_connection t') = open10 (ld_connection t)"
      using that(2,3) by (simp_all add: open10_def ld_ok_def)
    with 1 that assms(1) show ?thesis by (simp add: ld_inv_def)
  qed
  show ?thesis
    using assms poll by (cases "chunks ! i" rule: prod.exhaust) (auto simp: chunk_step_def Let_def ld_inv_def split: chunk_phase.splits if_splits)
qed

context ox_link
begin

lemma ld_inv_execution:
  assumes "ld_inv L P opts t" "execution_thread_step L now mmap created opts i (action t) t = Returns t'"
  shows "ld_inv L P opts t'"
proof (cases "action t")
  case Act_connecting
  with assms show ?thesis by (auto simp: start_action_def ld_inv_def elim!: and_then_ReturnsE split: if_splits)
next
  case (Act_transfer chunks)
  show ?thesis
  proof (cases "\<forall>c \<in> set chunks. snd c = Chunk_done")
    case True
    with Act_transfer assms show ?thesis by (auto simp: finish_transfer_def ld_inv_def split: if_splits)
  next
    case False
    with Act_transfer assms(2) have "chunk_step opts i chunks t = Returns t' \<or> t' = t" by (simp split: if_splits)
    with assms(1) ld_inv_chunk [OF assms(1) _ Act_transfer] show ?thesis by blast
  qed
next
  case (Act_closing ph)
  obtain x c where c: "close_connection L (Some 500000000) now ph (ld_connection t) = (x, c)" by fastforce
  have t': "t' = t\<lparr>ld_connection := c, action := (case x of Inl ph \<Rightarrow> Act_closing ph | Inr _ \<Rightarrow> Act_done)\<rparr>"
    using assms(2) Act_closing c by (simp add: close_step_def)
  have "ld_ok L P c (ld_cache t)"
    using assms(1) endpoint_close [of _ _ "ld_connection t" "ld_cache t" "Some 500000000" now ph] c
    unfolding ld_inv_def ld_ok_def by fastforce
  moreover have "c = ld_connection t \<and> x = Inr (Err CompatModeClose)" if "opt_ox10_mode opts"
    using assms(1) that Act_closing c open10_close [of "ld_connection t" L "Some 500000000" now] by (auto simp: ld_inv_def)
  ultimately show ?thesis using assms(1) t' by (auto simp: ld_inv_def)
qed (use assms in simp)

lemma ld_inv_tx: "ld_inv L P opts t \<Longrightarrow> ld_inv L P opts (ld_tx_step now t)"
proof -
  assume i: "ld_inv L P opts t"
  obtain ps c where d: "drain_packets now (ld_connection t) = (ps, c)" by fastforce
  have "ld_ok L P c (ld_cache t)"
    by (rule drain_keeps [where Q = "\<lambda>c. ld_ok L P c (ld_cache t)", OF _ _ d])
      (use i endpoint_get_packet in \<open>unfold ld_inv_def ld_ok_def, blast+\<close>)
  moreover have "open10 c" if "opt_ox10_mode opts"
    by (rule drain_keeps [OF open10_get_packet _ d]) (use i that in \<open>auto simp: ld_inv_def\<close>)
  ultimately show ?thesis
    using i d by (auto simp: ld_tx_step_def tx_thread_step_def ld_inv_def open10_def)
qed

lemma ld_inv_tick:
  assumes "ld_inv L P opts t" "ld_tick_step L P now t = Returns t'" "length (resend_buffer (ld_connection t)) + 1 < 2 ^ 22"
  shows "ld_inv L P opts t'"
proof -
  obtain mine other where e: "endpoint_ok L P mine other (ld_connection t) (ld_cache t)" using assms(1) by (auto simp: ld_inv_def ld_ok_def)
  obtain k ops c ca where k: "tick L P now (ld_tick t) (ld_operations t) (ld_connection t) (ld_cache t) = Returns (k, ops, c, ca)"
      "t' = t\<lparr>ld_tick := k, ld_operations := ops, ld_connection := c, ld_cache := ca, tick_ended := (connection_state c = Idle)\<rparr>"
    using assms(2) by (auto simp: ld_tick_step_def tick_thread_step_def elim!: and_then_ReturnsE)
  from ld_okI [OF endpoint_tick [OF k(1) e assms(3)]] open10_tick [OF k(1) e assms(3)] k(2) assms(1)
  show ?thesis by (auto simp: ld_inv_def open10_def)
qed

lemma ld_inv_rx:
  assumes "ld_inv L P opts t" "ld_rx_step L P now received t = Some (Returns t')"
    and "credits_small (credits_receive (ld_connection t'))"
  shows "ld_inv L P opts t'"
proof (cases received)
  case None
  with assms show ?thesis by (auto simp: ld_rx_step_def rx_thread_step_def ld_inv_def open10_def)
next
  case (Some p)
  obtain mine other where e: "endpoint_ok L P mine other (ld_connection t) (ld_cache t)" using assms(1) by (auto simp: ld_inv_def ld_ok_def)
  obtain r c ca ops where p: "process_packet L P now p (ld_connection t) (ld_cache t) (ld_operations t) = Some (Returns (r, c, ca, ops))"
      "t' = t\<lparr>ld_connection := c, ld_cache := ca, ld_operations := ops, rx_ended := (connection_state c = Idle)\<rparr>"
    using assms(2) Some by (auto simp: ld_rx_step_def rx_thread_step_def elim!: and_then_ReturnsE)
  have "ld_ok L P c ca" by (rule ld_okI [OF endpoint_process_packet [OF p(1) e]]) (use assms(3) p(2) in simp)
  moreover have "open10 c" if "open10 (ld_connection t)"
    using p(1)
  proof (cases rule: process_packet_cases)
    case (1 q c1 cr ps)
    from open10_process [OF 1(1) that] 1(2) show ?thesis by (simp add: open10_def)
  qed
  ultimately show ?thesis using assms(1) p(2) by (auto simp: ld_inv_def open10_def)
qed

lemma load_run_inv: "load_run L P mmap opts t \<Longrightarrow> panics t \<subseteq> {Action_thread} \<Longrightarrow> ld_inv L P opts t"
proof (induction rule: load_run.induct)
  case (lr_start now interfaces open_channel mac_from_str0 handler_set t)
  then obtain mine other where "action t = Act_connecting" "ld_cache t = cache_new 0"
    "ld_connection t = establish_connection (conn_new L now now (opt_ox10_mode opts) 0 mine other)"
    "\<not> tx_ended t" "\<not> tick_ended t" "\<not> rx_ended t" by (metis bitload_run_state)
  moreover have "ld_ok L P (establish_connection (conn_new L now now (opt_ox10_mode opts) 0 mine other)) (cache_new 0)"
    by (rule ld_okI [OF endpoint_establish [OF endpoint_new]])
  moreover have "open10 (establish_connection (conn_new L now now True 0 mine other))"
    by (simp add: open10_def establish_connection_def conn_new_def)
  ultimately show ?case by (auto simp: ld_inv_def)
next
  case (lr_execution t now created i t')
  then show ?case using execution_panics [OF lr_execution.hyps(3)] ld_inv_execution by blast
next
  case (lr_pool t chunks i t')
  then show ?case using chunk_step_action [OF lr_pool.hyps(5,3)] ld_inv_chunk [OF _ lr_pool.hyps(5,3)] by simp
next
  case (lr_chunk_panic t chunks i p cr ops d)
  then have i: "ld_inv L P opts t" by auto
  have "ld_ok L P ((ld_connection t)\<lparr>credits_send := cr\<rparr>) (ld_cache t) = ld_ok L P (ld_connection t) (ld_cache t)"
    using lr_chunk_panic.hyps(5) by (simp add: ld_ok_def)
  with i show ?case by (auto simp: ld_inv_def open10_def)
next
  case (lr_tx t now)
  then show ?case using ld_inv_tx by (simp add: ld_tx_step_def case_prod_beta Let_def)
next
  case (lr_tick t now t')
  moreover have "panics t' = panics t" using lr_tick.hyps(5) by (auto simp: ld_tick_step_def elim!: and_then_ReturnsE)
  ultimately show ?case using ld_inv_tick [OF _ lr_tick.hyps(5,4)] by simp
next
  case (lr_rx t now received t')
  moreover have "panics t' = panics t" using lr_rx.hyps(4) by (auto simp: ld_rx_step_def elim!: and_then_ReturnsE)
  ultimately show ?case using ld_inv_rx [OF _ lr_rx.hyps(4,5)] by simp
qed (auto simp: ld_inv_def)

end

text \<open>
  C40. In compatibility mode \<^verbatim>\<open>run\<close> never returns \<^verbatim>\<open>Ok\<close>. As long as none of the three threads that serve the connection
  panics, the connection is active, because \<^verbatim>\<open>close_connection\<close> refuses such a connection, and the three threads wait for it
  to become idle; so when the file has been transferred and the execution thread has ended, \<^verbatim>\<open>run\<close> goes on waiting for
  them. It returns only after a thread has panicked, with an error.
\<close>

theorem ox10_mode_never_succeeds:
  assumes "ox_link L P" and "load_run L P mmap opts t" and "opt_ox10_mode opts"
  shows "run_result t \<noteq> Some (Ok ()) \<and> (panics t = {} \<longrightarrow> run_result t = None) \<and>
    (panics t \<subseteq> {Action_thread} \<longrightarrow>
      connection_state (ld_connection t) = Active \<and> \<not> tx_ended t \<and> \<not> tick_ended t \<and> \<not> rx_ended t)"
proof -
  have active: "connection_state (ld_connection t) = Active \<and> \<not> tx_ended t \<and> \<not> tick_ended t \<and> \<not> rx_ended t"
    if "panics t \<subseteq> {Action_thread}"
    using ox_link.load_run_inv [OF assms(1,2) that] assms(3) by (simp add: ld_inv_def open10_def)
  have none: "panics t = {}" if "run_result t = Some (Ok ())"
  proof -
    have "th \<notin> panics t" for th
      using that by (cases th) (auto simp: run_result_def join_thread_def split: if_splits)
    then show ?thesis by blast
  qed
  have "run_result t = None" if "panics t = {}"
    using that active by (simp add: run_result_def join_thread_def)
  with none active show ?thesis by auto
qed

text \<open>The file cannot be opened: the execution thread panics and \<^verbatim>\<open>run\<close> returns an error.\<close>

theorem ox10_mode_never_succeeds_witness:
  "load_run std_modular std_pnet (Ok []) sample_opts sample_loader \<and> run_result sample_loader = None \<and>
   (\<exists>t. load_run std_modular std_pnet (Err ()) sample_opts t \<and> run_result t = Some (Err BlThreadError) \<and> \<not> rx_ended t)"
proof -
  let ?t = "sample_loader\<lparr>panics := {Action_thread}\<rparr>"
  have "start_action (Err ()) sample_opts sample_loader = Panics UnwrapOnErr"
    by (simp add: start_action_def transfer_data_def sample_opts_def sample_loader_def establish_connection_def conn_new_def)
  from lr_start_panic [OF sample_loader_run _ _ this]
  have r: "load_run std_modular std_pnet (Err ()) sample_opts ?t" by (simp add: sample_loader_def)
  have "run_result ?t = Some (Err BlThreadError)"
    by (simp add: run_result_def join_thread_def unwound_def sample_loader_def)
  moreover have "run_result sample_loader = None"
    using ox10_mode_never_succeeds [OF lk.ox_link_axioms sample_loader_run [of std_pnet "Ok []"]]
    by (simp add: sample_opts_def sample_loader_def)
  moreover have "\<not> rx_ended ?t"
    using ox10_mode_never_succeeds [OF lk.ox_link_axioms r] by (simp add: sample_opts_def)
  ultimately show ?thesis using r sample_loader_run by blast
qed

end
