(* ===== verification/Spec2Isabelle.thy ===== *)
theory Spec2Isabelle
  imports Tl_Encoding Channels Connection_Delivery Operations Cache Tick Endpoint Socket Sim_Link Ffi Bitload
    Cmdline Tui_Tool Tui_View Config_Tool Bitload_Memory Bitload_Transfer
    Bitload_Compat
begin

text \<open>
  \<^bold>\<open>The program.\<close> OmniXtend carries TileLink messages over Ethernet. The repository holds a memory endpoint in
  Bluespec and, in Rust, the other side: the library \<^verbatim>\<open>host_software/omnixtend-rs\<close> that issues
  requests and keeps a coherent cache, three tools on top of it (\<^verbatim>\<open>bitload\<close>, \<^verbatim>\<open>omnixtend-tui\<close>,
  \<^verbatim>\<open>config\<close>), and \<^verbatim>\<open>rust_sim\<close>, which connects the library to the simulated hardware flit by flit.
  This development models the Rust code; paths below are relative to \<^verbatim>\<open>src/host_software\<close>, or to
  \<^verbatim>\<open>src\<close> for \<^verbatim>\<open>rust_sim\<close>.

  \<^bold>\<open>How the parts interact.\<close> A caller starts an operation with \<^verbatim>\<open>Operations::perform\<close>, directly or through
  \<^verbatim>\<open>Cache\<close>. It takes a source id and credits, packs the message (\<^verbatim>\<open>operations.rs\<close>, \<^verbatim>\<open>tilelink_messages.rs\<close>)
  and queues it. \<^verbatim>\<open>Tick::tick\<close> answers probes, makes \<^verbatim>\<open>Connection::send_packet\<close> collect queued messages into a
  frame, and triggers retransmissions. \<^verbatim>\<open>Connection::get_packet\<close> hands frames to a network thread or to
  \<^verbatim>\<open>next_flit\<close>. In the other direction \<^verbatim>\<open>utils::process_packet\<close> runs a frame through
  \<^verbatim>\<open>Connection::process_packets\<close> (sequence numbers, acknowledgements, credits), through
  \<^verbatim>\<open>channels::process_messages\<close> (parsing), and gives credits to the connection, probes to the cache and
  responses to the waiting operations.

  \<^bold>\<open>Theories, in the order of the imports.\<close>

  \<^item> \<open>Ox_Prelude\<close>: machine words, \<open>outcome\<close> (\<open>Returns\<close>, \<open>Panics\<close> with the reason, \<open>Waits\<close>), \<open>result\<close> for
    \<^verbatim>\<open>Result\<close>, slices and copies that panic out of range, byte order, UTF-8 and decimal text, the collections \<open>ox_simps\<close> and
    \<open>step_inv\<close>.
  \<^item> \<open>Tilelink_Messages\<close>: \<^verbatim>\<open>omnixtend-rs/src/tilelink_messages.rs\<close>. Headers round-trip through their 64-bit
    form; the permission functions compute what the order None, Branch, Trunk says.
  \<^item> \<open>Sequence_Number\<close>: \<^verbatim>\<open>sequence_number.rs\<close>, 22-bit numbers that wrap. The locale \<open>modular_arith\<close> is the
    contract of the crate \<^verbatim>\<open>modular\<close>, \<open>sequence_counter\<close> what the connection needs of the numbers.
  \<^item> \<open>Credits\<close>: \<^verbatim>\<open>credits.rs\<close>; taking and adding conserve credits and never go below zero
    (locale \<open>credit_store\<close>), \<^verbatim>\<open>get_highest\<close> announces powers of two that were owed until nothing is left.
  \<^item> \<open>Chunkize\<close>: \<^verbatim>\<open>chunkize_packet\<close> of \<^verbatim>\<open>utils.rs\<close>.
  \<^item> \<open>Tl_Operations\<close> and \<open>Tl_Encoding\<close>: the first half of \<^verbatim>\<open>operations.rs\<close>, the operations and their packing.
    The packed bytes decode to the operation and cost one credit for each whole flit. The mask of a
    partial write selects the data in the groups of 64 bytes that the data fills; in the group in which it ends
    the mask is inverted and selects the bytes behind the data.
  \<^item> \<open>Channels\<close>: \<^verbatim>\<open>channels.rs\<close>. Well-formed responder messages are parsed completely and in order; the payloads on
    which the parser does not terminate are characterised.
  \<^item> \<open>Ox_Packet\<close>: \<^verbatim>\<open>omnixtend.rs\<close>, the fields of the OmniXtend header. The accessors that the macros of
    \<^verbatim>\<open>pnet\<close> generate are a parameter with the contract \<open>pnet_laws\<close>, which a concrete big-endian
    header satisfies.
  \<^item> \<open>Connection\<close>: \<^verbatim>\<open>connection.rs\<close>, every method; the struct is the record \<open>Connection\<close>, whose fields keep the
    names of the code. \<open>Connection_Frames\<close> shows what \<^verbatim>\<open>send_packet\<close> puts on the wire, \<open>Connection_Window\<close>
    the invariant of the sliding window over all sequences of calls and the effect of \<^verbatim>\<open>process_packets\<close> on every
    branch including the panics, also those of the arguments of log messages, \<open>Connection_Delivery\<close> that a retransmission is delivered once and in
    order, and the state machine. The locale \<open>ox_link\<close> joins the two contracts above.
  \<^item> \<open>Operations\<close>: the second half of \<^verbatim>\<open>operations.rs\<close>. No two operations in flight share a source id, whatever responses arrive;
    what the counter of outstanding operations counts is made exact; an answered operation completes, returns its source and acknowledges a grant.
  \<^item> \<open>Cache\<close>: \<^verbatim>\<open>cache.rs\<close>. Only lines with trunk permission are dirty, a probed dirty line is written back, every
    probe that is not blocked is answered once.
  \<^item> \<open>Tick\<close>: \<^verbatim>\<open>tick.rs\<close>. Retransmissions keep their distance, an owed acknowledgement is sent.
  \<^item> \<open>Endpoint\<close>: \<^verbatim>\<open>process_packet\<close> of \<^verbatim>\<open>utils.rs\<close>, the composition on the receiving side. \<open>Endpoint_Inv\<close>: the invariant
    of a connection with its cache, kept by every step through which a program changes them; the simulation and
    both network tools rest on it.
  \<^item> \<open>Flits\<close> and \<open>Socket\<close>: \<^verbatim>\<open>rust_sim/src/socket.rs\<close>. The locales \<open>flit_source\<close> and \<open>flit_sink\<close> are the contracts
    of \<^verbatim>\<open>next_flit\<close> and \<^verbatim>\<open>push_flit\<close>; \<open>flit_link\<close> proves that together they refine a queue of packets.
  \<^item> \<open>Sim\<close> and \<open>Sim_Link\<close>: \<^verbatim>\<open>rust_sim/src/sim.rs\<close>. Results have the expected kind, the invariants of connection
    and cache hold over all calls of an endpoint, flits act as the packets they make up, and a closing
    endpoint refuses new operations.
  \<^item> \<open>Testcases\<close>: \<^verbatim>\<open>rust_sim/src/testcases.rs\<close>. A test program is a codatatype of calls; run step by step on an
    endpoint, under any interleaving with ticks and flits, it never uses a closing endpoint, and on an ideal memory it
    ends with every check passed.
  \<^item> \<open>Ffi\<close>: \<^verbatim>\<open>rust_sim/src/ffi.rs\<close>, the C interface to endpoints, threads and sockets.
  \<^item> \<open>Bitload\<close>, \<open>Bitload_Memory\<close>, \<open>Bitload_Run\<close>, \<open>Bitload_Transfer\<close> and \<open>Bitload_Compat\<close>: \<^verbatim>\<open>bitload/src/main.rs\<close>. What is
    written in chunks, in any order, to a memory that decodes the messages reads back as the file, but for the bytes that an
    inverted mask hides; the four threads as a step relation do what the sequential loops do; in compatibility mode \<^verbatim>\<open>run\<close>
    never returns successfully.
  \<^item> \<open>Cmdline\<close>, \<open>Tui_Args\<close> and \<open>Tui_View\<close>: \<^verbatim>\<open>omnixtend-tui/src/tui.rs\<close>, that is keys, history and commands, the
    arguments of commands, and what is drawn.
  \<^item> \<open>Network\<close>: \<^verbatim>\<open>omnixtend-tui/src/network.rs\<close>. Both queues meet the contract \<open>packet_queue\<close>, so packets keep
    their order. A packet whose \<^verbatim>\<open>send_to\<close> fails, or that is put after the transmit thread has ended, is lost.
  \<^item> \<open>Tui\<close> and \<open>Tui_Tool\<close>: \<^verbatim>\<open>connection.rs\<close> and \<^verbatim>\<open>main.rs\<close> of \<^verbatim>\<open>omnixtend-tui\<close>. Commands stay in the range of
    their connection; the five threads with their shared state are a step relation that keeps the invariant of every
    connection, also after one of them has panicked, except for the connection on which the panic happened.
  \<^item> \<open>Config\<close> and \<open>Config_Tool\<close>: \<^verbatim>\<open>config/src/main.rs\<close>; the locale \<open>register_file\<close> is what the endpoint's registers
    promise, and what is written is read back.
  \<^item> This theory: a read on its whole way through the components, from the call to the flits and back.

  \<^bold>\<open>Modelling decisions.\<close> Integers keep their width and wrap around, as in the release profile; \<^verbatim>\<open>usize\<close> has 64
  bits and the machine is little-endian. Indices and lengths of vectors in memory are natural
  numbers. The base-2 logarithm, which the code computes in floating point, is exact. Every panic of the
  modelled code is a value. Locks and atomics are plain fields and a method is one step; where a call
  waits, it is cut there: its phase is a datatype (\<open>perform_phase\<close>, \<open>access_phase\<close>, \<open>release_phase\<close>,
  \<open>close_phase\<close>, \<open>sim_phase\<close>), a poll runs it from one wait to the next, and other threads run in between. The clock
  and random numbers are arguments. A \<^verbatim>\<open>DashMap\<close> is a partial function, and where it is iterated the order
  of the keys is an argument. Programs of several threads (\<open>tool_run\<close>, \<open>load_run\<close>, \<open>test_run\<close>, \<open>net_run\<close>) are inductive step
  relations with one rule per thread, and for the two tools one for each way in which a thread may panic; a step whose
  iteration does not come to an end is not taken. Log messages are left out, except for the log that \<^verbatim>\<open>omnixtend-tui\<close> shows and
  for the one message whose arguments may panic: \<open>process_packets_logged\<close> has the log level as argument, and \<open>process_packets\<close>,
  on which the other components build, is the code with trace messages off, which behaves the same on every frame without
  credits for the channels 6 and 7 (\<open>process_packets_trace\<close>).

  \<^bold>\<open>Termination.\<close> No definition has fuel. Loops are structural or have a termination proof, except for
  \<open>process_loop\<close>, which is a \<open>partial_function (option)\<close> because the loop in the code really need not end;
  \<open>None\<close> means that it runs forever, and \<open>process_messages_terminates_iff\<close> says exactly when.

  \<^bold>\<open>Parameters and their contracts.\<close> \<^verbatim>\<open>modular\<close> (locale \<open>modular_arith\<close>), \<^verbatim>\<open>pnet\<close> (locale \<open>pnet_laws\<close>), \<^verbatim>\<open>regex\<close> (locale
  \<open>command_regex\<close>) and the TaPaSCo job (locale \<open>register_file\<close>) are crates outside the repository. Each contract is
  interpreted on a concrete implementation (\<open>std_modular\<close>, \<open>std_pnet\<close>, \<open>std_regexes\<close>, \<open>std_job\<close>), on which the witnesses
  compute. The interfaces of the machine, the results of opening one, of mapping a file and of setting a signal
  handler, the results of sending on a socket, the parser of options and the TaPaSCo device are arguments without assumptions.

  \<^bold>\<open>Not modelled.\<close> The Bluespec hardware, a different language with its own scheduling semantics. Of the Rust
  code: the layout and drawing of widgets and the switching of the terminal, the initialisation of loggers, progress
  output, and the option parsers that macros generate, all calls of libraries without logic of the
  repository's own. Methods that return one field are the selectors of the records. The \<^verbatim>\<open>lib.rs\<close> files declare
  modules; the error type of \<^verbatim>\<open>omnixtend-rs\<close> is modelled.
\<close>

section \<open>A read over the wire\<close>

text \<open>
  The path of one \<^verbatim>\<open>read_64\<close> through all components: \<^verbatim>\<open>perform\<close> queues the request, the tick puts it into
  a frame, the frame leaves flit by flit, the frame with the answer comes in flit by flit, and the call
  returns what the answer holds.
\<close>

definition read_request :: "u32 \<Rightarrow> u64 \<Rightarrow> bytes" where
  "read_request src a = u64_to_be_bytes (u64_from_abcd \<lparr>abcd_chan = Chan_A, abcd_opcode = 4, abcd_param = 0,
     abcd_size = 3, abcd_domain = 0, abcd_err = 0, abcd_source = src\<rparr>) @ u64_to_be_bytes a"

text \<open>An endpoint with nothing under way at time \<open>now\<close>: the tick is due, nothing waits to be sent or sent again,
  and no packet is partly transferred.\<close>

definition quiet :: "instant \<Rightarrow> 'm Sim \<Rightarrow> bool" where
  "quiet now s \<longleftrightarrow>
     cycle (sim_tick s) \<le> now - last_executed (sim_tick s) \<and>
     now - last_message_received_at (sim_connection s) < resend_timeout (sim_tick s) \<and>
     \<not> resend_outstanding (sim_connection s) \<and> connection_state (sim_connection s) \<noteq> Idle \<and>
     packet_data (sim_connection s) = None \<and> resend_data (sim_connection s) = [] \<and>
     length (resend_buffer (sim_connection s)) + 1 < 2 ^ 22 \<and> probes (sim_cache s) = [] \<and>
     sim_packet_cur s = [] \<and> sim_packet_in s = [] \<and> \<not> connection_closing s \<and> \<not> connection_closed s"

text \<open>A frame that an endpoint accepts while \<open>n\<close> packets are unacknowledged, and that carries the given messages.\<close>

definition carries :: "'m modular \<Rightarrow> pnet \<Rightarrow> 'm Sim \<Rightarrow> nat \<Rightarrow> bytes \<Rightarrow> incoming list \<Rightarrow> bool" where
  "carries L P s n v ms \<longleftrightarrow>
     addressed P (sim_connection s) v \<and> is_expected L P (sim_connection s) v \<and> \<not> frame_is P AckOnly v \<and>
     acked_count L P (sim_connection s) v \<le> n \<and> 22 \<le> length v \<and>
     (\<exists>msk. length msk = 8 \<and> drop 22 v = concat (map encode_incoming ms) @ msk) \<and>
     (\<forall>m \<in> set ms. incoming_ok m) \<and> slots_free (sim_operations s) (List.map_filter incoming_response ms)"

text \<open>What \<open>carries\<close> depends on.\<close>

definition receives_alike :: "'m Sim \<Rightarrow> 'm Sim \<Rightarrow> bool" where
  "receives_alike s s' \<longleftrightarrow>
     my_mac (sim_connection s') = my_mac (sim_connection s) \<and>
     next_rx_seq (sim_connection s') = next_rx_seq (sim_connection s) \<and>
     first_in_resend (sim_connection s') = first_in_resend (sim_connection s) \<and>
     operation_completions (sim_operations s') = operation_completions (sim_operations s)"

lemma carries_alike: "receives_alike s s' \<Longrightarrow> carries L P s' n v ms = carries L P s n v ms"
  by (simp add: receives_alike_def carries_def addressed_def is_expected_def acked_count_def slots_free_def)

lemma receives_alike_trans: "receives_alike s s' \<Longrightarrow> receives_alike s' s'' \<Longrightarrow> receives_alike s s''"
  by (simp add: receives_alike_def)

lemma pack_read: "pack_operation \<lparr>os_operation = Read \<lparr>read_address = a\<rparr>, os_source = src\<rparr> = Returns (Ok (read_request src a))"
proof -
  have "log2_as_u8 8 = 3" using floor_log2_pow2 [of 3] by (simp add: log2_as_u8_def)
  then show ?thesis by (simp add: pack_operation_layout tl_header_def read_request_def log2_fract_zero_8)
qed

lemma length_read_request [simp]: "length (read_request src a) = 16"
  by (simp add: read_request_def)

lemma read_queued:
  assumes "\<not> connection_closing s" "available_sources (sim_operations s) = src # rest"
    and "unat src < length (operation_completions (sim_operations s))"
    and "operation_completions (sim_operations s) ! unat src = None"
    and "get_credits (Read \<lparr>read_address = a\<rparr>) (credits_send (sim_connection s)) = (True, cr)"
  shows "sim_read_64 a Sim_start s = Returns (Inl (Sim_perform (Wait_response (Read \<lparr>read_address = a\<rparr>) src)),
    sim_put s (ops_queued (sim_operations s) rest (read_request src a)) cr)"
  using assms(1) perform_queues [OF _ assms(2-4) pack_read assms(5)]
  by (simp add: sim_read_64_def sim_poll_def sim_put_def)

lemma tick_sends_request:
  assumes "ox_link L P" "sim_inv L P s" "quiet now s" "operations_outstanding (sim_operations s) = [buf]" "length buf < 8970"
  obtains t m frame where "sim_tick_once L P now s = Returns (s\<lparr>sim_ticks := sim_ticks s + 1, sim_tick := t,
      sim_operations := (sim_operations s)\<lparr>operations_outstanding := []\<rparr>,
      sim_connection := sent_state L (sim_connection s) (num_outstanding (sim_operations s) \<noteq> 0) frame\<rparr>)"
    "drop 22 frame = body_of [buf] @ u64_to_be_bytes m" "22 \<le> length frame"
proof -
  let ?c = "sim_connection s" and ?ops = "sim_operations s" and ?ca = "sim_cache s" and ?t = "sim_tick s"
  let ?u = "set_ack_timeout L now ?c (?t\<lparr>last_executed := now\<rparr>)"
  have c: "conn_inv L P ?c" using assms(2) by (simp add: sim_inv_def endpoint_ok_def)
  obtain m frame where f: "check_send L P now ?ops ?c ?u = Returns
      (?ops\<lparr>operations_outstanding := []\<rparr>, sent_state L ?c (num_outstanding ?ops \<noteq> 0) frame,
       ?u\<lparr>last_send := now, ack_required_since := None\<rparr>)"
    "frame_for L P ?c (num_outstanding ?ops \<noteq> 0) (body_of [buf] @ u64_to_be_bytes m) frame"
    by (rule ox_link.check_send_one [OF assms(1) c _ _ assms(4,5)]) (use assms(3) in \<open>auto simp: quiet_def\<close>)
  have ca: "?ca\<lparr>probes := []\<rparr> = ?ca" using assms(3) by (cases ?ca) (simp add: quiet_def)
  have r: "check_resend now (sent_state L ?c (num_outstanding ?ops \<noteq> 0) frame) u =
      (sent_state L ?c (num_outstanding ?ops \<noteq> 0) frame, u)" if "resend_timeout u = resend_timeout ?t" for u
    using assms(3) that by (simp add: quiet_def check_resend_def reset_pending_def sent_state_def)
  have "tick L P now ?t ?ops ?c ?ca = Returns (?u\<lparr>last_send := now, ack_required_since := None\<rparr>,
      ?ops\<lparr>operations_outstanding := []\<rparr>, sent_state L ?c (num_outstanding ?ops \<noteq> 0) frame, ?ca)"
    using assms(3) f(1) r by (simp add: tick_def process_probes_def Let_def ca quiet_def)
  with f(2) show thesis
    by (intro that [where t = "?u\<lparr>last_send := now, ack_required_since := None\<rparr>" and frame = frame and m = m])
      (simp_all add: sim_tick_once_def frame_for_def)
qed

lemma next_flit_keeps:
  assumes "sim_next_flit P now s = Returns (x, s')"
  shows "sim_operations s' = sim_operations s \<and> sim_packet_in s' = sim_packet_in s \<and>
    resend_buffer (sim_connection s') = resend_buffer (sim_connection s) \<and> receives_alike s s'"
proof -
  let ?c = "sim_connection s"
  have "my_mac c' = my_mac ?c \<and> next_rx_seq c' = next_rx_seq ?c \<and> first_in_resend c' = first_in_resend ?c \<and>
      resend_buffer c' = resend_buffer ?c" if "get_packet now ?c = (y, c')" for y c'
    using that by (auto simp: get_packet_def split: list.splits option.splits)
  with assms show ?thesis
    by (auto simp: sim_next_flit_def receives_alike_def Let_def split: if_splits list.splits prod.splits option.splits)
qed

lemma take_flits_keeps:
  assumes "ox_link L P" "take_flits (sim_next_flit P now) n s = Returns (fs, s')"
  shows "sim_operations s' = sim_operations s \<and> sim_packet_in s' = sim_packet_in s \<and>
    resend_buffer (sim_connection s') = resend_buffer (sim_connection s) \<and> receives_alike s s' \<and>
    (sim_inv L P s \<longrightarrow> sim_inv L P s')"
  using assms(2)
proof (induction n arbitrary: s fs)
  case (Suc n)
  then obtain x s1 where x: "sim_next_flit P now s = Returns (x, s1)" by (auto elim!: and_then_ReturnsE)
  have "s' = s1 \<or> (\<exists>gs. take_flits (sim_next_flit P now) n s1 = Returns (gs, s'))"
    using Suc.prems x by (auto elim!: and_then_ReturnsE split: option.splits)
  with Suc.IH ox_link.sim_inv_next [OF assms(1) x] next_flit_keeps [OF x] receives_alike_trans show ?case by metis
qed (simp add: receives_alike_def)

lemma request_leaves:
  assumes "ox_link L P" "sim_inv L P s" "sim_queue s = [frame]" "\<not> connection_closed s" "sim_packet_cur s = []" "22 \<le> length frame"
  obtains s' where "take_flits (sim_next_flit P now) (length (flits_of frame)) s = Returns (flits_of frame, s')"
    "sim_operations s' = sim_operations s" "sim_packet_in s' = sim_packet_in s" "sim_inv L P s'"
    "resend_buffer (sim_connection s') = resend_buffer (sim_connection s)" "receives_alike s s'"
proof -
  have "sim_ready s" using assms(3,4,6) by (simp add: sim_ready_def)
  from pnet_laws.take_sim_flits [OF ox_link.axioms(2) [OF assms(1)] this assms(5), of "length (flits_of frame)" now]
  obtain s' where "take_flits (sim_next_flit P now) (length (flits_of frame)) s = Returns (flits_of frame, s')"
    using assms(3) by auto
  with take_flits_keeps [OF assms(1) this] assms(2) that show thesis by blast
qed

lemma response_arrives:
  assumes "ox_link L P" "sim_inv L P s" "sim_packet_in s = []"
    and "carries L P s (length (resend_buffer (sim_connection s))) v ms"
  obtains c ca where "sim_push_flits L P now (flits_of v) s = Some (Returns (s\<lparr>sim_connection := c, sim_cache := ca,
    sim_operations := slots_filled (sim_operations s) (List.map_filter incoming_response ms)\<rparr>))"
proof -
  obtain msk where v: "length msk = 8" "drop 22 v = concat (map encode_incoming ms) @ msk"
    using assms(4) by (auto simp: carries_def)
  have "sim_receive L P now v s = Some (Returns (s\<lparr>
      sim_connection := credit_all (accepted_data L P now (sim_connection s) v) (List.map_filter incoming_credit ms),
      sim_cache := (sim_cache s)\<lparr>probes := probes (sim_cache s) @ List.map_filter incoming_probe ms\<rparr>,
      sim_operations := slots_filled (sim_operations s) (List.map_filter incoming_response ms)\<rparr>))"
    using process_packet_encoded [OF assms(1) _ _ _ _ _ _ v(2,1)] assms(2,4)
    by (simp add: sim_receive_def carries_def sim_inv_def endpoint_ok_def)
  moreover have "[] \<notin> set [v]" using assms(4) by (auto simp: carries_def)
  ultimately show thesis using push_packets [of "[v]" s L P now] assms(3) that by simp
qed

lemma read_returns:
  assumes "unat src < length (operation_completions (sim_operations s))"
    and "operation_completions (sim_operations s) ! unat src = Some (0, answer h d)" "length d = 8"
  shows "\<exists>s1 s2. sim_read_64 a (Sim_perform (Wait_response (Read \<lparr>read_address = a\<rparr>) src)) s =
      Returns (Inl (Sim_perform (Send_response (Read \<lparr>read_address = a\<rparr>) 0 (answer h d))), s1) \<and>
    sim_read_64 a (Sim_perform (Send_response (Read \<lparr>read_address = a\<rparr>) 0 (answer h d))) s1 =
      Returns (Inr (if bit (abcd_err h) 1 then Err (SimOperations UnalignedAccess) else Ok (u64_from_ne_bytes d)), s2) \<and>
    available_sources (sim_operations s2) = available_sources (sim_operations s) @ [src] \<and>
    outstanding_cntr (sim_operations s2) = outstanding_cntr (sim_operations s) - 1"
proof -
  have "answer h d \<noteq> Err ConnectionClosed" by (simp add: answer_def)
  then show ?thesis using assms complete_inner_expected [of "Read \<lparr>read_address = a\<rparr>" d]
    by (simp add: sim_read_64_def sim_poll_def perform_response_def wait_for_response_def send_response_def
        perform_return_def extract_response_def answer_def sim_put_def)
qed

lemma answer_returned:
  assumes "ox_link L P" "sim_inv L P s" "sim_packet_in s = []"
    and "carries L P s (length (resend_buffer (sim_connection s))) v ms"
    and "In_access_ack_data h d \<in> set ms" "abcd_source h = src" "length d = 8"
  shows "\<exists>s1 s2 s3 ph. sim_push_flits L P now (flits_of v) s = Some (Returns s1) \<and>
    sim_read_64 a (Sim_perform (Wait_response (Read \<lparr>read_address = a\<rparr>) src)) s1 = Returns (Inl ph, s2) \<and>
    sim_read_64 a ph s2 =
      Returns (Inr (if bit (abcd_err h) 1 then Err (SimOperations UnalignedAccess) else Ok (u64_from_ne_bytes d)), s3) \<and>
    available_sources (sim_operations s3) = available_sources (sim_operations s) @ [src] \<and>
    outstanding_cntr (sim_operations s3) = outstanding_cntr (sim_operations s) - 1"
proof -
  let ?rs = "List.map_filter incoming_response ms"
  obtain c ca where p: "sim_push_flits L P now (flits_of v) s = Some (Returns (s\<lparr>sim_connection := c, sim_cache := ca,
      sim_operations := slots_filled (sim_operations s) ?rs\<rparr>))" (is "_ = Some (Returns ?s1)")
    by (rule response_arrives [OF assms(1-4)])
  have rs: "(src, 0, answer h d) \<in> set ?rs"
    using assms(5,6) by (force simp: List.map_filter_def)
  have free: "slots_free (sim_operations s) ?rs" using assms(4) by (simp add: carries_def)
  have kept: "available_sources (slots_filled ops r) = available_sources ops"
    "outstanding_cntr (slots_filled ops r) = outstanding_cntr ops" for ops r
    by (simp_all add: slots_filled_def)
  have "unat src < length (operation_completions (sim_operations ?s1))"
    "operation_completions (sim_operations ?s1) ! unat src = Some (0, answer h d)"
    using slots_filled_response [OF free rs] by simp_all
  from read_returns [OF this assms(7), of a] p show ?thesis by (auto simp: kept)
qed

lemma carried_slot:
  assumes "carries L P s n v ms" "In_access_ack_data h d \<in> set ms" "abcd_source h = src"
  shows "unat src < length (operation_completions (sim_operations s))"
    "operation_completions (sim_operations s) ! unat src = None"
proof -
  have "(src, 0, answer h d) \<in> set (List.map_filter incoming_response ms)"
    using assms(2,3) by (force simp: List.map_filter_def)
  with assms(1) show "unat src < length (operation_completions (sim_operations s))"
    "operation_completions (sim_operations s) ! unat src = None"
    by (force simp: carries_def slots_free_def)+
qed

lemma request_sent:
  assumes "ox_link L P" "sim_inv L P s" "quiet now s" "operations_outstanding (sim_operations s) = []"
    and "available_sources (sim_operations s) = src # rest"
    and "unat src < length (operation_completions (sim_operations s))"
    and "operation_completions (sim_operations s) ! unat src = None"
    and "fst (get_credits (Read \<lparr>read_address = a\<rparr>) (credits_send (sim_connection s)))"
  obtains s1 s2 s3 frame where
    "sim_read_64 a Sim_start s = Returns (Inl (Sim_perform (Wait_response (Read \<lparr>read_address = a\<rparr>) src)), s1)"
    "sim_tick_once L P now s1 = Returns s2"
    "take_flits (sim_next_flit P now) (length (flits_of frame)) s2 = Returns (flits_of frame, s3)"
    "take 16 (drop 22 frame) = read_request src a" "sim_inv L P s3" "sim_packet_in s3 = []" "receives_alike s s3"
    "length (resend_buffer (sim_connection s3)) = length (resend_buffer (sim_connection s)) + 1"
    "available_sources (sim_operations s3) = rest"
    "outstanding_cntr (sim_operations s3) - 1 = outstanding_cntr (sim_operations s)"
proof -
  let ?ops = "ops_queued (sim_operations s) rest (read_request src a)"
  obtain cr where cr: "get_credits (Read \<lparr>read_address = a\<rparr>) (credits_send (sim_connection s)) = (True, cr)"
    using assms(8) by (cases "get_credits (Read \<lparr>read_address = a\<rparr>) (credits_send (sim_connection s))") auto
  let ?s1 = "sim_put s ?ops cr"
  have r1: "sim_read_64 a Sim_start s =
      Returns (Inl (Sim_perform (Wait_response (Read \<lparr>read_address = a\<rparr>) src)), ?s1)"
    using assms(3) by (intro read_queued [OF _ assms(5-7) cr]) (simp add: quiet_def)
  have q1: "quiet now ?s1" "sim_operations ?s1 = ?ops" "receives_alike s ?s1"
    using assms(3) by (simp_all add: quiet_def sim_put_def receives_alike_def ops_queued_def perform_enter_def)
  have o1: "operations_outstanding (sim_operations ?s1) = [read_request src a]"
    unfolding q1(2) using assms(4) by (simp add: ops_queued_def)
  have i1: "sim_inv L P ?s1" using sim_perform_inv r1 assms(2) unfolding sim_read_64_def by blast
  obtain t m frame where t: "sim_tick_once L P now ?s1 = Returns (?s1\<lparr>sim_ticks := sim_ticks ?s1 + 1, sim_tick := t,
      sim_operations := ?ops\<lparr>operations_outstanding := []\<rparr>,
      sim_connection := sent_state L (sim_connection ?s1) (num_outstanding ?ops \<noteq> 0) frame\<rparr>)" (is "_ = Returns ?s2")
    and fr: "drop 22 frame = body_of [read_request src a] @ u64_to_be_bytes m" "22 \<le> length frame"
    by (rule tick_sends_request [OF assms(1) i1 q1(1) o1, unfolded q1(2)]) (simp, blast)
  have i2: "sim_inv L P ?s2" using ox_link.sim_inv_tick [OF assms(1) t i1] q1(1) by (simp add: quiet_def)
  have q2: "sim_queue ?s2 = [frame]" "receives_alike ?s1 ?s2"
    using q1(1,2) by (simp_all add: sim_queue_def sent_state_def quiet_def receives_alike_def)
  from request_leaves [OF assms(1) i2 q2(1) _ _ fr(2)] q1(1) obtain s3
    where s3: "take_flits (sim_next_flit P now) (length (flits_of frame)) ?s2 = Returns (flits_of frame, s3)"
      "sim_operations s3 = ?ops\<lparr>operations_outstanding := []\<rparr>" "sim_packet_in s3 = []" "sim_inv L P s3"
      "resend_buffer (sim_connection s3) = resend_buffer (sim_connection ?s2)" "receives_alike ?s2 s3"
    by (auto simp: quiet_def)
  show thesis
  proof (rule that [OF r1 t s3(1) _ s3(4,3)])
    show "take 16 (drop 22 frame) = read_request src a" by (simp add: fr(1) body_of_def)
    show "receives_alike s s3" using receives_alike_trans q1(3) q2(2) s3(6) by blast
  qed (simp_all add: s3(2,5) sent_state_def sim_put_def ops_queued_def perform_enter_def)
qed

text \<open>
  C2. A read from call to return. On a quiet endpoint with a free source id and credits, \<^verbatim>\<open>read_64\<close> waits, the next tick
  sends, and the flits that leave are those of a frame that starts with the request for the address
  under that source id. Whatever frame then comes in flit by flit, as long as the endpoint expects it and
  it carries an answer for the source id among well-formed messages, two more polls of the call return the answer: its
  data as a number, or the error when the responder denied the access. The source id is free again
  and the counter of running operations is back where it was.
\<close>

theorem read_over_the_wire:
  assumes "ox_link L P" and "sim_inv L P s" and "quiet now s" and "operations_outstanding (sim_operations s) = []"
    and "available_sources (sim_operations s) = src # rest"
    and "fst (get_credits (Read \<lparr>read_address = a\<rparr>) (credits_send (sim_connection s)))"
    and "carries L P s (length (resend_buffer (sim_connection s)) + 1) v ms"
    and "In_access_ack_data h d \<in> set ms" and "abcd_source h = src" and "length d = 8"
  shows "\<exists>s1 s2 s3 s4 s5 s6 waiting sending frame.
    sim_read_64 a Sim_start s = Returns (Inl waiting, s1) \<and> sim_tick_once L P now s1 = Returns s2 \<and>
    take_flits (sim_next_flit P now) (length (flits_of frame)) s2 = Returns (flits_of frame, s3) \<and>
    take 16 (drop 22 frame) = read_request src a \<and>
    sim_push_flits L P now' (flits_of v) s3 = Some (Returns s4) \<and>
    sim_read_64 a waiting s4 = Returns (Inl sending, s5) \<and>
    sim_read_64 a sending s5 =
      Returns (Inr (if bit (abcd_err h) 1 then Err (SimOperations UnalignedAccess) else Ok (u64_from_ne_bytes d)), s6) \<and>
    available_sources (sim_operations s6) = rest @ [src] \<and>
    outstanding_cntr (sim_operations s6) = outstanding_cntr (sim_operations s)"
proof -
  obtain s1 s2 s3 frame
    where r: "sim_read_64 a Sim_start s = Returns (Inl (Sim_perform (Wait_response (Read \<lparr>read_address = a\<rparr>) src)), s1)"
      "sim_tick_once L P now s1 = Returns s2"
      "take_flits (sim_next_flit P now) (length (flits_of frame)) s2 = Returns (flits_of frame, s3)"
      "take 16 (drop 22 frame) = read_request src a"
    and s3: "sim_inv L P s3" "sim_packet_in s3 = []" "receives_alike s s3"
      "length (resend_buffer (sim_connection s3)) = length (resend_buffer (sim_connection s)) + 1"
      "available_sources (sim_operations s3) = rest"
      "outstanding_cntr (sim_operations s3) - 1 = outstanding_cntr (sim_operations s)"
    by (rule request_sent [OF assms(1-5) carried_slot [OF assms(7-9)] assms(6)])
  have "carries L P s3 (length (resend_buffer (sim_connection s3))) v ms"
    using assms(7) by (simp add: carries_alike [OF s3(3)] s3(4))
  from answer_returned [OF assms(1) s3(1,2) this assms(8-10), of now' a, unfolded s3(5,6)]
  obtain s4 s5 s6 sending where "sim_push_flits L P now' (flits_of v) s3 = Some (Returns s4)"
    "sim_read_64 a (Sim_perform (Wait_response (Read \<lparr>read_address = a\<rparr>) src)) s4 = Returns (Inl sending, s5)"
    "sim_read_64 a sending s5 =
      Returns (Inr (if bit (abcd_err h) 1 then Err (SimOperations UnalignedAccess) else Ok (u64_from_ne_bytes d)), s6)"
    "available_sources (sim_operations s6) = rest @ [src]"
    "outstanding_cntr (sim_operations s6) = outstanding_cntr (sim_operations s)" by blast
  with r show ?thesis by blast
qed

text \<open>A fresh connection, and the frame in which the memory answers its first read.\<close>

definition reader :: "(int \<times> nat) Sim" where
  "reader = sim_establish_connection sample_sim"

definition read_answer :: incoming where
  "read_answer = In_access_ack_data \<lparr>abcd_chan = Chan_D, abcd_opcode = 1, abcd_param = 0, abcd_size = 3,
     abcd_domain = 0, abcd_err = 0, abcd_source = 0\<rparr> [0x42, 0, 0, 0, 0, 0, 0, 0]"

definition answer_frame :: bytes where
  "answer_frame = take 22 reply_frame @ encode_incoming read_answer @ replicate 8 0"

lemma answer_frame_fields:
  "frame_field std_pnet F_sequence_number answer_frame = 0"
  "frame_field std_pnet F_sequence_number_ack answer_frame = 4194303"
  "frame_field std_pnet F_message_type answer_frame = 0"
  "drop 22 answer_frame = encode_incoming read_answer @ replicate 8 0"
  "22 \<le> length answer_frame" "eth_get_destination std_pnet answer_frame = MacAddr 2 0 0 0 0 1"
  "eth_get_ethertype std_pnet answer_frame = 0xAAAA"
  by code_simp+

lemma reader_facts:
  "sim_inv std_modular std_pnet reader" "quiet 200000 reader" "operations_outstanding (sim_operations reader) = []"
  "available_sources (sim_operations reader) = 0 # map of_nat [1..<255]"
  "fst (get_credits (Read \<lparr>read_address = 4096\<rparr>) (credits_send (sim_connection reader)))"
  "resend_buffer (sim_connection reader) = []"
  "carries std_modular std_pnet reader 1 answer_frame [read_answer]"
proof -
  have c: "sim_connection reader = sample_conn" "sim_operations reader = operations_new"
    by (simp_all add: reader_def sample_sim_def sim_establish_connection_def sim_new_def sample_conn_def)
  show "sim_inv std_modular std_pnet reader"
    unfolding reader_def sample_sim_def by (intro lk.sim_inv_step [OF s_establish] lk.sim_inv_new)
  show "quiet 200000 reader"
    by (simp add: quiet_def reader_def sample_sim_def sim_establish_connection_def sim_new_def establish_connection_def
        conn_new_def tick_new_def cache_new_def)
  show "operations_outstanding (sim_operations reader) = []"
    "available_sources (sim_operations reader) = 0 # map of_nat [1..<255]"
    by (simp_all add: c(2) operations_new_def upt_conv_Cons del: upt_rec_numeral)
  show "fst (get_credits (Read \<lparr>read_address = 4096\<rparr>) (credits_send (sim_connection reader)))"
    by (simp add: c(1) sample_conn_def establish_connection_def conn_new_def get_credits_def credits_take_def
        credits_new_def chan_index_def)
  show "resend_buffer (sim_connection reader) = []"
    by (simp add: c(1) sample_conn_def establish_connection_def conn_new_def)
  show "carries std_modular std_pnet reader 1 answer_frame [read_answer]"
    using answer_frame_fields
    by (simp add: carries_def c addressed_def is_expected_def acked_count_def frame_is_def sample_conn_def
        establish_connection_def conn_new_def sn_val_def sn_new_def sn_max_def sn_modulus_def std_modular_def seq_dist_def
        read_answer_def header_ok_def abcd_fits_def slots_free_def operations_new_def)
qed

theorem read_over_the_wire_witness:
  "\<exists>s1 s2 s3 s4 s5 s6 waiting sending frame.
    sim_read_64 4096 Sim_start reader = Returns (Inl waiting, s1) \<and> sim_tick_once std_modular std_pnet 200000 s1 = Returns s2 \<and>
    take_flits (sim_next_flit std_pnet 200000) (length (flits_of frame)) s2 = Returns (flits_of frame, s3) \<and>
    sim_push_flits std_modular std_pnet 300000 (flits_of answer_frame) s3 = Some (Returns s4) \<and>
    sim_read_64 4096 waiting s4 = Returns (Inl sending, s5) \<and> sim_read_64 4096 sending s5 = Returns (Inr (Ok 0x42), s6)"
proof -
  have "u64_from_ne_bytes [0x42, 0, 0, 0, 0, 0, 0, 0] = 0x42" by code_simp
  then show ?thesis
    using read_over_the_wire [OF lk.ox_link_axioms reader_facts(1-5), of answer_frame "[read_answer]"
      "\<lparr>abcd_chan = Chan_D, abcd_opcode = 1, abcd_param = 0, abcd_size = 3, abcd_domain = 0, abcd_err = 0, abcd_source = 0\<rparr>"
      "[0x42, 0, 0, 0, 0, 0, 0, 0]" 300000] reader_facts(6,7)
    by (simp add: read_answer_def) blast
qed

end
